(* ===== verification/Prelude.thy ===== *)
theory Prelude
  imports Main "HOL-Library.AList" "HOL-Library.Char_ord" "HOL-Library.List_Lexorder"
begin

text \<open>
  Vocabulary shared by every component of the WalFlux development.

  \<^item> Results: a Python function that may raise is a HOL function into \<open>'e + 'a\<close>;
    \<open>Inl\<close> carries the exception.  \<open>bindE\<close> sequences two such computations, \<open>mapE\<close> and
    \<open>foldE\<close> are the list comprehension and the \<open>for\<close> loop whose body may raise.
  \<^item> Python sequences: slices and \<open>find\<close> with Python's treatment of negative indices,
    \<open>str.join\<close> and \<open>str.split\<close>, and \<open>list(dict.fromkeys(xs))\<close>.
  \<^item> Python dictionaries: an association list in insertion order, looked up with the
    key equality of the language, which need not be reflexive (NaN).  The interface is the
    locale \<open>pydict\<close>.
\<close>

named_theorems res_simps \<open>evaluation of computations that may raise\<close>

section \<open>Computations that may raise\<close>

definition bindE :: "'e + 'a \<Rightarrow> ('a \<Rightarrow> 'e + 'b) \<Rightarrow> 'e + 'b" where
  "bindE m f = (case m of Inl e \<Rightarrow> Inl e | Inr a \<Rightarrow> f a)"

lemma bindE_Inl [simp]: "bindE (Inl e) f = Inl e"
  by (simp add: bindE_def)

lemma bindE_Inr [simp]: "bindE (Inr a) f = f a"
  by (simp add: bindE_def)

lemma bindE_return [simp]: "bindE m Inr = m"
  by (cases m) (simp_all add: bindE_def)

lemma pred_option_code [code]:
  "pred_option P None \<longleftrightarrow> True"
  "pred_option P (Some x) \<longleftrightarrow> P x"
  by simp_all

lemma bindE_eq_Inr [res_simps]: "bindE m f = Inr b \<longleftrightarrow> (\<exists>a. m = Inr a \<and> f a = Inr b)"
  by (cases m) simp_all

lemma bindE_eq_Inl [res_simps]:
  "bindE m f = Inl e \<longleftrightarrow> m = Inl e \<or> (\<exists>a. m = Inr a \<and> f a = Inl e)"
  by (cases m) simp_all

lemma bindE_assoc: "bindE (bindE m f) g = bindE m (\<lambda>a. bindE (f a) g)"
  by (cases m) simp_all

lemma bindE_cong [fundef_cong]:
  "m = m' \<Longrightarrow> (\<And>a. m' = Inr a \<Longrightarrow> f a = g a) \<Longrightarrow> bindE m f = bindE m' g"
  by (cases m') simp_all

fun mapE :: "('a \<Rightarrow> 'e + 'b) \<Rightarrow> 'a list \<Rightarrow> 'e + 'b list" where
  "mapE f [] = Inr []"
| "mapE f (x # xs) = bindE (f x) (\<lambda>y. bindE (mapE f xs) (\<lambda>ys. Inr (y # ys)))"

fun foldE :: "('s \<Rightarrow> 'a \<Rightarrow> 'e + 's) \<Rightarrow> 's \<Rightarrow> 'a list \<Rightarrow> 'e + 's" where
  "foldE f s [] = Inr s"
| "foldE f s (x # xs) = bindE (f s x) (\<lambda>s'. foldE f s' xs)"

lemma mapE_append:
  "mapE f (xs @ ys) = bindE (mapE f xs) (\<lambda>us. bindE (mapE f ys) (\<lambda>vs. Inr (us @ vs)))"
  by (induction xs) (auto simp: bindE_def split: sum.splits)

lemma mapE_Inr: "mapE f xs = Inr ys \<longleftrightarrow> list_all2 (\<lambda>x y. f x = Inr y) xs ys"
  by (induction xs arbitrary: ys) (auto simp: list_all2_Cons1 res_simps)

lemma mapE_total: "(\<And>x. x \<in> set xs \<Longrightarrow> f x = Inr (g x)) \<Longrightarrow> mapE f xs = Inr (map g xs)"
  by (induction xs) simp_all

lemma foldE_append: "foldE f s (xs @ ys) = bindE (foldE f s xs) (\<lambda>s'. foldE f s' ys)"
  by (induction xs arbitrary: s) (simp_all add: bindE_assoc)

text \<open>The loop rule: an invariant that every successful iteration keeps holds at the end.\<close>

lemma foldE_invariant:
  assumes "foldE f s xs = Inr s'" and "I s"
    and "\<And>s x s'. x \<in> set xs \<Longrightarrow> I s \<Longrightarrow> f s x = Inr s' \<Longrightarrow> I s'"
  shows "I s'"
  using assms by (induction xs arbitrary: s) (auto simp: res_simps)

section \<open>Python sequences\<close>

text \<open>
  \<open>xs[i:j]\<close>: a negative bound counts from the end, both bounds are clamped to the
  sequence, and a slice whose bounds cross is empty.
\<close>

definition slice_bound :: "int \<Rightarrow> int \<Rightarrow> int" where
  "slice_bound n i = (if i < 0 then max 0 (n + i) else min i n)"

definition py_slice :: "'a list \<Rightarrow> int \<Rightarrow> int \<Rightarrow> 'a list" where
  "py_slice xs i j =
     (let n = int (length xs); a = slice_bound n i; b = slice_bound n j
      in take (nat (b - a)) (drop (nat a) xs))"

lemma py_slice_mid:
  "py_slice (pre @ e @ post) (int (length pre)) (int (length pre) + int (length e)) = e"
  by (simp add: py_slice_def slice_bound_def Let_def)

lemma py_slice_empty: "j \<le> i \<Longrightarrow> 0 \<le> j \<Longrightarrow> py_slice xs i j = []"
  by (simp add: py_slice_def slice_bound_def Let_def)

text \<open>\<open>xs.find(x, start)\<close> for a single element: the least index at or after \<open>start\<close>, or -1.\<close>

fun find_from :: "'a \<Rightarrow> int \<Rightarrow> 'a list \<Rightarrow> int" where
  "find_from x i [] = - 1"
| "find_from x i (y # ys) = (if y = x then i else find_from x (i + 1) ys)"

definition py_find :: "'a list \<Rightarrow> 'a \<Rightarrow> int \<Rightarrow> int" where
  "py_find xs x start =
     (let a = (if start < 0 then max 0 (int (length xs) + start) else start)
      in find_from x a (drop (nat a) xs))"

lemma find_from_absent: "x \<notin> set ys \<Longrightarrow> find_from x i ys = - 1"
  by (induction ys arbitrary: i) auto

lemma find_from_first: "x \<notin> set ys \<Longrightarrow> find_from x i (ys @ x # zs) = i + int (length ys)"
  by (induction ys arbitrary: i) auto

lemma py_find_first:
  "x \<notin> set ys \<Longrightarrow>
   py_find (pre @ ys @ x # zs) x (int (length pre)) = int (length pre) + int (length ys)"
  by (simp add: py_find_def find_from_first)

lemma py_find_absent: "x \<notin> set ys \<Longrightarrow> py_find (pre @ ys) x (int (length pre)) = - 1"
  by (simp add: py_find_def find_from_absent)

fun py_join :: "string \<Rightarrow> string list \<Rightarrow> string" where
  "py_join sep [] = []"
| "py_join sep [s] = s"
| "py_join sep (s # t # ts) = s @ sep @ py_join sep (t # ts)"

text \<open>\<open>text.split(c)\<close>: always at least one piece.\<close>

fun py_split :: "char \<Rightarrow> string \<Rightarrow> string list" where
  "py_split c [] = [[]]"
| "py_split c (x # xs) =
     (if x = c then [] # py_split c xs
      else (case py_split c xs of p # ps \<Rightarrow> (x # p) # ps | [] \<Rightarrow> [[x]]))"

lemma py_split_none: "c \<notin> set s \<Longrightarrow> py_split c s = [s]"
  by (induction s) auto

lemma py_split_two: "c \<notin> set s \<Longrightarrow> c \<notin> set t \<Longrightarrow> py_split c (s @ c # t) = [s, t]"
  by (induction s) (auto simp: py_split_none)

lemma py_split_nonempty: "py_split c s \<noteq> []"
  by (induction s) (auto split: list.splits)

text \<open>\<open>list(dict.fromkeys(xs))\<close>: first occurrences, in order.\<close>

definition fromkeys :: "'a list \<Rightarrow> 'a list" where
  "fromkeys xs = rev (remdups (rev xs))"

lemma set_fromkeys [simp]: "set (fromkeys xs) = set xs"
  by (simp add: fromkeys_def)

lemma distinct_fromkeys [simp]: "distinct (fromkeys xs)"
  by (simp add: fromkeys_def)

section \<open>Python dictionaries\<close>

text \<open>
  A dictionary in insertion order.  \<open>same\<close> is the key equality: storing under an equal key
  replaces the value and keeps the key object that is already there, a new key goes last.
\<close>

type_synonym ('k, 'v) dict = "('k \<times> 'v) list"

fun dict_get :: "('k \<Rightarrow> 'k \<Rightarrow> bool) \<Rightarrow> ('k, 'v) dict \<Rightarrow> 'k \<Rightarrow> 'v option" where
  "dict_get same [] k = None"
| "dict_get same ((k', v) # d) k = (if same k' k then Some v else dict_get same d k)"

fun dict_set :: "('k \<Rightarrow> 'k \<Rightarrow> bool) \<Rightarrow> 'k \<Rightarrow> 'v \<Rightarrow> ('k, 'v) dict \<Rightarrow> ('k, 'v) dict" where
  "dict_set same k v [] = [(k, v)]"
| "dict_set same k v ((k', v') # d) =
     (if same k' k then (k', v) # d else (k', v') # dict_set same k v d)"

locale pydict =
  fixes same :: "'k \<Rightarrow> 'k \<Rightarrow> bool"
  assumes same_sym: "same a b \<Longrightarrow> same b a"
    and same_trans: "same a b \<Longrightarrow> same b c \<Longrightarrow> same a c"
begin

lemma same_cong: "same a b \<Longrightarrow> same a c = same b c"
  using same_sym same_trans by blast

lemma same_cong_right: "same a b \<Longrightarrow> same c a = same c b"
  using same_sym same_trans by blast

lemma get_set:
  "dict_get same (dict_set same k v d) k' = (if same k k' then Some v else dict_get same d k')"
  by (induction d) (auto dest: same_cong same_cong_right same_sym)

lemma set_keys:
  "fst ` set (dict_set same k v d) \<subseteq> insert k (fst ` set d)"
proof (induction d)
  case (Cons p d)
  then show ?case by (cases p) auto
qed simp

lemma get_entry: "dict_get same d k = Some v \<Longrightarrow> \<exists>k'. (k', v) \<in> set d \<and> same k' k"
  by (induction d) (auto split: if_splits)

lemma get_none: "dict_get same d k = None \<longleftrightarrow> (\<forall>(k', v) \<in> set d. \<not> same k' k)"
proof (induction d)
  case (Cons p d)
  then show ?case by (cases p) auto
qed simp

lemma get_cong: "same a b \<Longrightarrow> dict_get same d a = dict_get same d b"
  using same_cong_right by (induction d) auto

lemma set_new: "dict_get same d k = None \<Longrightarrow> dict_set same k v d = d @ [(k, v)]"
  by (induction d) (auto split: if_splits)

lemma entries_set:
  "(k', v') \<in> set (dict_set same k v d) \<Longrightarrow>
   (k', v') \<in> set d \<or> v' = v \<and> (k' = k \<or> same k' k)"
  by (induction d) (auto split: if_splits)

end

text \<open>A dictionary keyed by strings is the library's association list.\<close>

interpretation strdict: pydict "(=) :: string \<Rightarrow> string \<Rightarrow> bool"
  by unfold_locales auto

lemma dict_get_map_of: "dict_get (=) d k = map_of d k"
  by (induction d) (auto split: if_splits)

lemma dict_set_update: "dict_set (=) k v d = AList.update k v d"
  by (induction d) auto

lemma dict_set_new: "k \<notin> fst ` set d \<Longrightarrow> dict_set (=) k v d = d @ [(k, v)]"
  by (induction d) auto

end
