(* ===== verification/Numbers.thy ===== *)
theory Numbers
  imports Complex_Main Prelude
begin

text \<open>
  The numbers the program computes with, as the Python language defines them.

  \<^item> The exceptions: the five classes of \<open>walflux/common.py\<close> and the builtin ones the modelled
    code can raise.  An exception carries the data its message is formatted from.
  \<^item> \<open>decimal\<close>: \<open>decimal.Decimal\<close>.  A finite value is a coefficient and an exponent; the sign of a
    zero is not kept.  Arithmetic rounds to the default context: 28 digits, half to even.
  \<^item> \<open>pyfloat\<close>: an IEEE 754 binary64 value, with the conversions \<open>float(text)\<close> and \<open>str(x)\<close>.
  \<^item> \<open>int(text, base)\<close>, \<open>Decimal(text)\<close>, \<open>float(text)\<close>: the literals the constructors accept.  A
    Python string is its UTF-8 encoding, one \<open>char\<close> per byte; of the Unicode digits and blanks
    the constructors also accept, only the ASCII ones are modelled.
\<close>

section \<open>Exceptions\<close>

datatype walflux_reason =
    InvalidLsn string
  | InvalidIdentifier string
  | AggRequiresColumn string string
  | UnknownAggFn string string
  | NoGroupColType string string
  | CannotAggregate string string
  | NonFinite string string
  | UnknownView string
  | CannotConnect string

datatype protocol_reason =
    TruncatedMessage char int int int
  | UnterminatedString char int
  | BinaryColumn char int
  | UnknownCategory char char int
  | UnexpectedTag char char int char
  | UnknownReplicaIdentity char int
  | ExpectedKeyOrOld int char
  | EmptyBuffer
  | UnknownMessageType char
  | OutsideTransaction
  | UnknownRelation int

datatype drift_reason =
    MissingColumn string string
  | ToastInCompleteImage string string
  | TableRenamed "(string \<times> string) option" string string
  | MissingColumns string string "string list" string
  | WithoutOldRow string string string

datatype db_error = NoPrivilege string | UndefinedTable string | OtherPgError string

datatype exn =
    WalfluxError walflux_reason
  | ProtocolError protocol_reason
  | SchemaDriftError drift_reason
  | ConfigError string
  | SetupError string
  | ValueError
  | UnicodeDecodeError
  | OverflowError
  | KeyError
  | IndexError
  | StructError
  | TypeError
  | InvalidOperation
  | DecimalOverflow
  | PgError db_error
  | AttributeError

text \<open>\<open>isinstance(exc, WalfluxError)\<close>: the class and its four subclasses.\<close>

fun is_walflux_error :: "exn \<Rightarrow> bool" where
  "is_walflux_error (WalfluxError _) = True"
| "is_walflux_error (ProtocolError _) = True"
| "is_walflux_error (SchemaDriftError _) = True"
| "is_walflux_error (ConfigError _) = True"
| "is_walflux_error (SetupError _) = True"
| "is_walflux_error _ = False"

type_synonym 'a res = "exn + 'a"

section \<open>Integer literals\<close>

definition is_blank :: "char \<Rightarrow> bool" where
  "is_blank c \<longleftrightarrow> (let n = (of_char c :: int) in 9 \<le> n \<and> n \<le> 13 \<or> 28 \<le> n \<and> n \<le> 32)"

definition py_strip :: "string \<Rightarrow> string" where
  "py_strip s = rev (dropWhile is_blank (rev (dropWhile is_blank s)))"

definition digit_val :: "char \<Rightarrow> int option" where
  "digit_val c =
     (let n = (of_char c :: int)
      in if 48 \<le> n \<and> n \<le> 57 then Some (n - 48)
         else if 65 \<le> n \<and> n \<le> 90 then Some (n - 55)
         else if 97 \<le> n \<and> n \<le> 122 then Some (n - 87)
         else None)"

text \<open>
  Digits of a base with single underscores between them; the flag says that an underscore or
  the end may not come next.
\<close>

fun int_digits :: "int \<Rightarrow> int \<Rightarrow> bool \<Rightarrow> string \<Rightarrow> int option" where
  "int_digits b acc sep [] = (if sep then None else Some acc)"
| "int_digits b acc sep (c # cs) =
     (if c = CHR ''_'' then (if sep then None else int_digits b acc True cs)
      else (case digit_val c of
              None \<Rightarrow> None
            | Some d \<Rightarrow> if d < b then int_digits b (acc * b + d) False cs else None))"

definition split_sign :: "string \<Rightarrow> int \<times> string" where
  "split_sign s =
     (case s of
        c # cs \<Rightarrow> if c = CHR ''-'' then (-1, cs) else if c = CHR ''+'' then (1, cs) else (1, s)
      | [] \<Rightarrow> (1, s))"

text \<open>Base 16 allows the prefix \<open>0x\<close>, and one underscore after it.\<close>

definition drop_hex_prefix :: "string \<Rightarrow> string" where
  "drop_hex_prefix s =
     (case s of
        z # x # cs \<Rightarrow>
          if z = CHR ''0'' \<and> (x = CHR ''x'' \<or> x = CHR ''X'')
          then (case cs of c # cs' \<Rightarrow> if c = CHR ''_'' then cs' else cs | [] \<Rightarrow> cs)
          else s
      | _ \<Rightarrow> s)"

definition py_int :: "int \<Rightarrow> string \<Rightarrow> int res" where
  "py_int b s =
     (let (sg, body) = split_sign (py_strip s);
          digits = (if b = 16 then drop_hex_prefix body else body)
      in case int_digits b 0 True digits of None \<Rightarrow> Inl ValueError | Some n \<Rightarrow> Inr (sg * n))"

text \<open>\<open>str(n)\<close> and \<open>format(n, "X")\<close>.\<close>

definition digit_char :: "int \<Rightarrow> char" where
  "digit_char d = char_of (if d < 10 then d + 48 else d + 55)"

function nat_text :: "int \<Rightarrow> int \<Rightarrow> string" where
  "nat_text b n =
     (if b \<le> 1 \<or> n < b then [digit_char n] else nat_text b (n div b) @ [digit_char (n mod b)])"
  by pat_completeness auto
termination
proof (relation "measure (\<lambda>(b, n). nat n)")
  fix b n :: int
  assume "\<not> (b \<le> 1 \<or> n < b)"
  then have "0 \<le> n div b" "n div b < n" by (auto simp: int_div_less_self pos_imp_zdiv_nonneg_iff)
  then show "((b, n div b), (b, n)) \<in> measure (\<lambda>(b, n). nat n)" by simp
qed simp

declare nat_text.simps [simp del]

definition int_text :: "int \<Rightarrow> int \<Rightarrow> string" where
  "int_text b n = (if n < 0 then CHR ''-'' # nat_text b (- n) else nat_text b n)"

lemma digit_val_digit_char: "0 \<le> d \<Longrightarrow> d < 36 \<Longrightarrow> digit_val (digit_char d) = Some d"
  by (auto simp: digit_val_def digit_char_def of_char_of Let_def)

lemma digit_char_plain:
  assumes "0 \<le> d" "d < 16"
  shows "digit_char d \<notin> set ''_-+/xX.''" "\<not> is_blank (digit_char d)"
proof -
  have n: "(of_char (digit_char d) :: int) = (if d < 10 then d + 48 else d + 55)"
    using assms by (simp add: digit_char_def of_char_of)
  show "digit_char d \<notin> set ''_-+/xX.''"
    using n assms by (auto split: if_splits)
  show "\<not> is_blank (digit_char d)"
    using n assms by (auto simp: is_blank_def Let_def split: if_splits)
qed

text \<open>Every digit text is made of digit characters and is not empty.\<close>

lemma nat_text_chars:
  "2 \<le> b \<Longrightarrow> 0 \<le> n \<Longrightarrow> c \<in> set (nat_text b n) \<Longrightarrow> \<exists>d. 0 \<le> d \<and> d < b \<and> c = digit_char d"
proof (induction b n rule: nat_text.induct)
  case (1 b n)
  show ?case
  proof (cases "n < b")
    case True
    with 1 show ?thesis by (auto simp: nat_text.simps [of b n])
  next
    case False
    then have "c \<in> set (nat_text b (n div b)) \<or> c = digit_char (n mod b)"
      using 1 by (auto simp: nat_text.simps [of b n])
    then show ?thesis
    proof
      assume "c \<in> set (nat_text b (n div b))"
      then show ?thesis using 1 False by (simp add: pos_imp_zdiv_nonneg_iff)
    next
      assume "c = digit_char (n mod b)"
      then show ?thesis using 1(2) by (intro exI [of _ "n mod b"]) auto
    qed
  qed
qed

lemma nat_text_nonempty: "nat_text b n \<noteq> []"
  by (subst nat_text.simps) simp

lemma nat_text_plain:
  assumes "2 \<le> b" "b \<le> 16" "0 \<le> n" "c \<in> set (nat_text b n)"
  shows "c \<notin> set ''_-+/xX.''" "\<not> is_blank c"
proof -
  obtain d where "0 \<le> d" "d < b" "c = digit_char d"
    using nat_text_chars [OF assms(1,3,4)] by auto
  then show "c \<notin> set ''_-+/xX.''" "\<not> is_blank c"
    using digit_char_plain [of d] assms(2) by auto
qed

text \<open>Reading a digit text back.\<close>

lemma int_digits_nat_text:
  "2 \<le> b \<Longrightarrow> b \<le> 16 \<Longrightarrow> 0 \<le> n \<Longrightarrow>
   int_digits b acc sep (nat_text b n @ rest) =
   int_digits b (acc * b ^ length (nat_text b n) + n) False rest"
proof (induction b n arbitrary: acc sep rest rule: nat_text.induct)
  case (1 b n)
  have digit: "int_digits b a s (digit_char d # r) = int_digits b (a * b + d) False r"
    if "0 \<le> d" "d < b" for a s d r
    using that 1(3) digit_char_plain(1) [of d] by (simp add: digit_val_digit_char)
  show ?case
  proof (cases "n < b")
    case True
    then show ?thesis using digit [of n] 1 by (simp add: nat_text.simps [of b n])
  next
    case False
    let ?q = "nat_text b (n div b)"
    have eq: "nat_text b n = ?q @ [digit_char (n mod b)]"
      using False 1(2) by (simp add: nat_text.simps [of b n])
    have "int_digits b acc sep (?q @ digit_char (n mod b) # rest) =
        int_digits b (acc * b ^ length ?q + n div b) False (digit_char (n mod b) # rest)"
      using False 1 by (subst 1(1)) (auto simp: pos_imp_zdiv_nonneg_iff)
    also have "\<dots> = int_digits b ((acc * b ^ length ?q + n div b) * b + n mod b) False rest"
      using 1(2) by (intro digit) auto
    also have "(acc * b ^ length ?q + n div b) * b + n mod b = acc * b ^ Suc (length ?q) + n"
      by (simp add: algebra_simps)
    finally show ?thesis by (simp add: eq)
  qed
qed

lemma py_strip_id: "(\<And>c. c \<in> set s \<Longrightarrow> \<not> is_blank c) \<Longrightarrow> py_strip s = s"
proof -
  assume nb: "\<And>c. c \<in> set s \<Longrightarrow> \<not> is_blank c"
  have keep: "dropWhile is_blank t = t" if "set t \<subseteq> set s" for t
    using that nb by (cases t) auto
  show ?thesis by (simp add: py_strip_def keep)
qed

text \<open>\<open>int(format(n, base), base) = n\<close>: the printed digits of any integer read back.\<close>

lemma py_int_int_text:
  assumes "b = 10 \<or> b = 16"
  shows "py_int b (int_text b n) = Inr n"
proof -
  let ?m = "\<bar>n\<bar>"
  have b: "2 \<le> b" "b \<le> 16" and m: "0 \<le> ?m" using assms by auto
  obtain c cs where cs: "nat_text b ?m = c # cs"
    using nat_text_nonempty [of b ?m] by (cases "nat_text b ?m") auto
  have plain: "x \<notin> set ''_-+/xX.''" "\<not> is_blank x" if "x \<in> set (c # cs)" for x
    using nat_text_plain [OF b m, of x] that cs by auto
  have strip: "py_strip (int_text b n) = int_text b n"
    using plain(2) cs by (intro py_strip_id) (auto simp: int_text_def is_blank_def split: if_splits)
  have sign: "split_sign (int_text b n) = (if n < 0 then (-1, c # cs) else (1, c # cs))"
    using plain(1) [of c] cs by (auto simp: split_sign_def int_text_def)
  have hex: "drop_hex_prefix (c # cs) = c # cs"
    using plain(1) by (auto simp: drop_hex_prefix_def split: list.splits)
  have read: "int_digits b 0 True (c # cs) = Some ?m"
    using int_digits_nat_text [OF b m, of 0 True "[]"] cs by simp
  have "(if b = 16 then drop_hex_prefix (c # cs) else c # cs) = c # cs"
    using hex by simp
  then show ?thesis
    using read by (cases "n < 0") (simp_all add: py_int_def strip sign del: int_digits.simps)
qed

section \<open>Decimal numbers\<close>

text \<open>
  \<open>Fin c e\<close> is the number \<open>c * 10 ^ e\<close>.  \<open>DInf\<close> carries whether it is negative, \<open>DNaN\<close> whether it
  signals.
\<close>

datatype decimal = Fin int int | DInf bool | DNaN bool

text \<open>The default context: \<open>getcontext()\<close> is never changed by the program.\<close>

definition dec_prec :: int where "dec_prec = 28"
definition dec_Emax :: int where "dec_Emax = 999999"
definition dec_Etiny :: int where "dec_Etiny = - 1000026"
definition dec_Etop :: int where "dec_Etop = 999972"

lemmas dec_context = dec_prec_def dec_Emax_def dec_Etiny_def dec_Etop_def

function ndigits :: "int \<Rightarrow> int" where
  "ndigits n = (if n < 10 then 1 else 1 + ndigits (n div 10))"
  by pat_completeness auto
termination
  by (relation "measure nat") auto

declare ndigits.simps [simp del]

text \<open>The quotient of two non-negative integers, rounded to nearest, ties to even.\<close>

definition round_half_even :: "int \<Rightarrow> int \<Rightarrow> int" where
  "round_half_even n d =
     (let q = n div d; r = n mod d
      in if 2 * r > d \<or> (2 * r = d \<and> odd q) then q + 1 else q)"

text \<open>
  Rounding a finite result to the context: a coefficient of more than 28 digits loses its
  last ones, an exponent below the least one is raised, and a result above the largest
  number is the trapped \<open>decimal.Overflow\<close>.
\<close>

definition dec_fix :: "int \<Rightarrow> int \<Rightarrow> decimal res" where
  "dec_fix c e =
     (if c = 0 then Inr (Fin 0 (min (max e dec_Etiny) dec_Emax))
      else let exp_min = ndigits \<bar>c\<bar> + e - dec_prec in
        if exp_min > dec_Etop then Inl DecimalOverflow
        else let exp_min = max exp_min dec_Etiny in
          if e < exp_min
          then let q = round_half_even \<bar>c\<bar> (10 ^ nat (exp_min - e));
                   (q, x) = (if ndigits q > dec_prec then (q div 10, exp_min + 1) else (q, exp_min))
               in if x > dec_Etop then Inl DecimalOverflow else Inr (Fin (sgn c * q) x)
          else Inr (Fin c e))"

text \<open>The operators \<open>+\<close> and \<open>*\<close>; a signalling NaN is the trapped \<open>InvalidOperation\<close>.\<close>

fun dec_add :: "decimal \<Rightarrow> decimal \<Rightarrow> decimal res" where
  "dec_add (DNaN True) _ = Inl InvalidOperation"
| "dec_add _ (DNaN True) = Inl InvalidOperation"
| "dec_add (DNaN False) _ = Inr (DNaN False)"
| "dec_add _ (DNaN False) = Inr (DNaN False)"
| "dec_add (DInf a) (DInf b) = (if a = b then Inr (DInf a) else Inl InvalidOperation)"
| "dec_add (DInf a) (Fin _ _) = Inr (DInf a)"
| "dec_add (Fin _ _) (DInf b) = Inr (DInf b)"
| "dec_add (Fin c e) (Fin c' e') =
     (let m = min e e'
      in dec_fix (c * 10 ^ nat (e - m) + c' * 10 ^ nat (e' - m)) m)"

fun dec_mul :: "decimal \<Rightarrow> decimal \<Rightarrow> decimal res" where
  "dec_mul (DNaN True) _ = Inl InvalidOperation"
| "dec_mul _ (DNaN True) = Inl InvalidOperation"
| "dec_mul (DNaN False) _ = Inr (DNaN False)"
| "dec_mul _ (DNaN False) = Inr (DNaN False)"
| "dec_mul (DInf a) (DInf b) = Inr (DInf (a \<noteq> b))"
| "dec_mul (DInf a) (Fin c _) = (if c = 0 then Inl InvalidOperation else Inr (DInf (a \<noteq> (c < 0))))"
| "dec_mul (Fin c _) (DInf a) = (if c = 0 then Inl InvalidOperation else Inr (DInf (a \<noteq> (c < 0))))"
| "dec_mul (Fin c e) (Fin c' e') = dec_fix (c * c') (e + e')"

fun dec_is_finite :: "decimal \<Rightarrow> bool" where
  "dec_is_finite (Fin _ _) = True"
| "dec_is_finite _ = False"

subsection \<open>When decimal arithmetic is exact\<close>

text \<open>
  \<open>dec_val\<close> is the number a finite decimal denotes.  \<open>at_scale s d k\<close> says that \<open>d\<close> is \<open>k\<close>
  units of \<open>10 ^ -s\<close>: a value of an SQL column with at most \<open>s\<close> digits after the point.  As long
  as the result stays below \<open>10 ^ 28\<close> units, the context rounds nothing.
\<close>

fun dec_val :: "decimal \<Rightarrow> rat" where
  "dec_val (Fin c e) = of_int c * 10 powi e"
| "dec_val _ = 0"

definition at_scale :: "nat \<Rightarrow> decimal \<Rightarrow> int \<Rightarrow> bool" where
  "at_scale s d k \<longleftrightarrow>
     (case d of Fin c e \<Rightarrow> - int s \<le> e \<and> k = c * 10 ^ nat (e + int s) | _ \<Rightarrow> False)"

lemma ndigits_le: "0 \<le> n \<Longrightarrow> n < 10 ^ k \<Longrightarrow> 0 < k \<Longrightarrow> ndigits n \<le> int k"
proof (induction n arbitrary: k rule: ndigits.induct)
  case (1 n)
  show ?case
  proof (cases "n < 10")
    case True
    then show ?thesis using "1.prems" by (simp add: ndigits.simps [of n])
  next
    case False
    obtain j where k: "k = Suc j" using "1.prems"(3) by (cases k) auto
    have j: "0 < j" using False "1.prems"(2) k by (cases j) auto
    have "n div 10 < 10 ^ j" using "1.prems"(2) k by simp
    then have "ndigits (n div 10) \<le> int j" using 1(1) False j by simp
    then show ?thesis using False k by (simp add: ndigits.simps [of n])
  qed
qed

lemma dec_fix_at_scale:
  assumes small: "\<bar>c * 10 ^ nat (e + int s)\<bar> < 10 ^ 28" and e: "- int s \<le> e" and s: "s \<le> 1000000"
  shows "\<exists>d. dec_fix c e = Inr d \<and> at_scale s d (c * 10 ^ nat (e + int s))"
proof (cases "c = 0")
  case True
  then show ?thesis using e s by (auto simp: dec_fix_def at_scale_def dec_context)
next
  case False
  have p: "(1::int) \<le> 10 ^ nat (e + int s)" by simp
  have prod: "\<bar>c * 10 ^ nat (e + int s)\<bar> = \<bar>c\<bar> * 10 ^ nat (e + int s)" by (simp add: abs_mult)
  have c28: "\<bar>c\<bar> < 10 ^ 28"
    using small mult_left_mono [OF p, of "\<bar>c\<bar>"] unfolding prod by simp
  have "1 \<le> \<bar>c\<bar>" using False by simp
  then have "1 * 10 ^ nat (e + int s) \<le> \<bar>c\<bar> * 10 ^ nat (e + int s)"
    by (rule mult_right_mono) simp
  then have "(10::int) ^ nat (e + int s) < 10 ^ 28"
    using small unfolding prod by linarith
  then have "nat (e + int s) < 28" by (rule power_less_imp_less_exp [rotated]) simp
  then have e28: "e + int s < 28" by simp
  have nd: "ndigits \<bar>c\<bar> \<le> 28" using ndigits_le [of "\<bar>c\<bar>" 28] c28 by simp
  have top: "\<not> ndigits \<bar>c\<bar> + e - dec_prec > dec_Etop"
    and low: "\<not> e < max (ndigits \<bar>c\<bar> + e - dec_prec) dec_Etiny"
    using nd e s e28 unfolding dec_context by linarith+
  have "dec_fix c e = Inr (Fin c e)"
    unfolding dec_fix_def Let_def using False top low by (simp only: if_False)
  then show ?thesis using e by (simp add: at_scale_def)
qed

lemma at_scaleE:
  assumes "at_scale s d k"
  obtains c e where "d = Fin c e" "- int s \<le> e" "k = c * 10 ^ nat (e + int s)"
  using assms by (cases d) (auto simp: at_scale_def)

lemma dec_add_at_scale:
  assumes "at_scale s a x" "at_scale s b y" and small: "\<bar>x + y\<bar> < 10 ^ 28" and s: "s \<le> 1000000"
  shows "\<exists>d. dec_add a b = Inr d \<and> at_scale s d (x + y)"
proof -
  obtain c e where a: "a = Fin c e" "- int s \<le> e" "x = c * 10 ^ nat (e + int s)"
    using assms(1) by (rule at_scaleE)
  obtain c' e' where b: "b = Fin c' e'" "- int s \<le> e'" "y = c' * 10 ^ nat (e' + int s)"
    using assms(2) by (rule at_scaleE)
  define m where "m = min e e'"
  have m: "- int s \<le> m" using a b by (simp add: m_def)
  have shift: "10 ^ nat (u - m) * 10 ^ nat (m + int s) = (10::int) ^ nat (u + int s)"
    if "m \<le> u" for u
    using that m by (simp flip: power_add nat_add_distrib)
  have sum: "(c * 10 ^ nat (e - m) + c' * 10 ^ nat (e' - m)) * 10 ^ nat (m + int s) = x + y"
    using shift [of e] shift [of e'] a b by (simp add: algebra_simps m_def)
  show ?thesis
    using dec_fix_at_scale [of "c * 10 ^ nat (e - m) + c' * 10 ^ nat (e' - m)" m s] small m s a b
    by (simp add: sum Let_def flip: m_def)
qed

lemma dec_mul_at_scale:
  assumes "at_scale s a x" "\<bar>sg * x\<bar> < 10 ^ 28" "s \<le> 1000000"
  shows "\<exists>d. dec_mul (Fin sg 0) a = Inr d \<and> at_scale s d (sg * x)"
proof -
  obtain c e where a: "a = Fin c e" "- int s \<le> e" "x = c * 10 ^ nat (e + int s)"
    using assms(1) by (rule at_scaleE)
  show ?thesis
    using dec_fix_at_scale [of "sg * c" e s] assms a by (simp add: mult.assoc)
qed

lemma at_scale_val: "at_scale s d k \<Longrightarrow> dec_val d = of_int k / 10 ^ s"
proof -
  assume "at_scale s d k"
  then obtain c e where d: "d = Fin c e" "- int s \<le> e" "k = c * 10 ^ nat (e + int s)"
    by (rule at_scaleE)
  have "(10::rat) powi e * 10 ^ s = 10 ^ nat (e + int s)"
    using d(2) power_int_add [of "10::rat" e "int s"] by (simp add: power_int_def split: if_splits)
  then show ?thesis using d by (simp add: field_simps)
qed

subsection \<open>Decimal literals\<close>

text \<open>Value of a run of decimal digits; \<open>digit_run\<close> splits the longest run off a text.\<close>

definition is_digit :: "char \<Rightarrow> bool" where
  "is_digit c \<longleftrightarrow> (let n = (of_char c :: int) in 48 \<le> n \<and> n \<le> 57)"

definition digit_run :: "string \<Rightarrow> string \<times> string" where
  "digit_run s = (takeWhile is_digit s, dropWhile is_digit s)"

definition run_val :: "string \<Rightarrow> int" where
  "run_val s = foldl (\<lambda>a c. a * 10 + (of_char c - 48)) 0 s"

definition lower :: "string \<Rightarrow> string" where
  "lower s = map (\<lambda>c. let n = (of_char c :: int) in if 65 \<le> n \<and> n \<le> 90 then char_of (n + 32) else c) s"

text \<open>
  An unsigned number: digits with an optional fraction, at least one digit in all, and an
  optional exponent; the result is coefficient and exponent.
\<close>

definition number_literal :: "string \<Rightarrow> (int \<times> int) option" where
  "number_literal s =
     (let (ip, r) = digit_run s;
          (fp, r) = (case r of c # cs \<Rightarrow> if c = CHR ''.'' then digit_run cs else ([], r) | [] \<Rightarrow> ([], r))
      in if ip = [] \<and> fp = [] then None
         else (case r of
                 [] \<Rightarrow> Some (run_val (ip @ fp), - int (length fp))
               | c # cs \<Rightarrow>
                   if c = CHR ''e'' \<or> c = CHR ''E''
                   then let (sg, x) = split_sign cs; (ep, rest) = digit_run x
                        in if ep = [] \<or> rest \<noteq> [] then None
                           else Some (run_val (ip @ fp), sg * run_val ep - int (length fp))
                   else None))"

text \<open>\<open>Decimal(text)\<close>: blanks are stripped, underscores dropped; exact, no rounding.\<close>

definition dec_of_text :: "string \<Rightarrow> decimal res" where
  "dec_of_text s =
     (let (sg, body) = split_sign (filter (\<lambda>c. c \<noteq> CHR ''_'') (py_strip s)); l = lower body
      in if l = ''inf'' \<or> l = ''infinity'' then Inr (DInf (sg < 0))
         else if take 3 l = ''nan'' \<and> list_all is_digit (drop 3 l) then Inr (DNaN False)
         else if take 4 l = ''snan'' \<and> list_all is_digit (drop 4 l) then Inr (DNaN True)
         else (case number_literal body of
                 None \<Rightarrow> Inl InvalidOperation
               | Some (c, e) \<Rightarrow> Inr (Fin (sg * c) e)))"

section \<open>Floating-point numbers\<close>

text \<open>
  \<open>FFin m e\<close> is \<open>m * 2 ^ e\<close>, with \<open>2 ^ 52 \<le> \<bar>m\<bar> < 2 ^ 53\<close> or \<open>e = -1074\<close>, so that equal numbers
  have equal representations; the sign of a zero is not kept.
\<close>

datatype pyfloat = FFin int int | FInf bool | FNaN

fun bit_len :: "int \<Rightarrow> int" where
  "bit_len n = (if n \<le> 0 then 0 else 1 + bit_len (n div 2))"

declare bit_len.simps [simp del]

text \<open>The binary64 number nearest to \<open>n / d\<close> for \<open>n, d > 0\<close>; beyond the largest, infinity.\<close>

definition pow_frac :: "int \<Rightarrow> int \<Rightarrow> int \<Rightarrow> int \<Rightarrow> int \<times> int" where
  "pow_frac b k n d = (if k < 0 then (n * b ^ nat (- k), d) else (n, d * b ^ nat k))"

definition float_nearest :: "int \<Rightarrow> int \<Rightarrow> int \<Rightarrow> pyfloat" where
  "float_nearest sg n d =
     (if n = 0 then FFin 0 (- 1074)
      else
        let k0 = bit_len n - bit_len d - 53;
            (n0, d0) = pow_frac 2 k0 n d;
            k = max (- 1074) (if n0 div d0 \<ge> 2 ^ 53 then k0 + 1 else k0);
            (n', d') = pow_frac 2 k n d;
            m = round_half_even n' d';
            (m, k) = (if m = 2 ^ 53 then (2 ^ 52, k + 1) else (m, k))
        in if m = 0 then FFin 0 (- 1074)
           else if k > 971 then FInf (sg < 0) else FFin (sg * m) k)"

definition float_of_decimal :: "int \<Rightarrow> int \<Rightarrow> pyfloat" where
  "float_of_decimal c e =
     (let (n, d) = pow_frac 10 (- e) \<bar>c\<bar> 1 in float_nearest (if c < 0 then - 1 else 1) n d)"

text \<open>\<open>float(text)\<close>: an underscore stands between two digits only.\<close>

fun underscores_ok :: "bool \<Rightarrow> string \<Rightarrow> bool" where
  "underscores_ok prev [] = True"
| "underscores_ok prev (c # cs) =
     (if c = CHR ''_''
      then prev \<and> (case cs of d # _ \<Rightarrow> is_digit d | [] \<Rightarrow> False) \<and> underscores_ok False cs
      else underscores_ok (is_digit c) cs)"

definition float_of_text :: "string \<Rightarrow> pyfloat res" where
  "float_of_text s =
     (let t = py_strip s; (sg, body) = split_sign (filter (\<lambda>c. c \<noteq> CHR ''_'') t); l = lower body
      in if \<not> underscores_ok False t then Inl ValueError
         else if l = ''inf'' \<or> l = ''infinity'' then Inr (FInf (sg < 0))
         else if l = ''nan'' then Inr FNaN
         else (case number_literal body of
                 None \<Rightarrow> Inl ValueError
               | Some (c, e) \<Rightarrow> Inr (float_of_decimal (sg * c) e)))"

text \<open>
  \<open>Decimal(str(x))\<close>: \<open>str\<close> writes the fewest digits that read back as \<open>x\<close>, and of those the
  nearest to \<open>x\<close>.  \<open>float_digits n\<close> tries the two decimals of \<open>n\<close> digits around \<open>x\<close>.
\<close>

fun log10_up :: "nat \<Rightarrow> int \<Rightarrow> int \<Rightarrow> int" where
  "log10_up 0 n d = 0"
| "log10_up (Suc k) n d = (if n \<ge> d then 0 else 1 + log10_up k (10 * n) d)"

definition floor_log10 :: "int \<Rightarrow> int \<Rightarrow> int" where
  "floor_log10 n d = (if n \<ge> d then ndigits (n div d) - 1 else - log10_up 400 n d)"

definition float_digits :: "int \<Rightarrow> int \<Rightarrow> int \<Rightarrow> pyfloat \<Rightarrow> (int \<times> int) option" where
  "float_digits n d k x =
     (let p = floor_log10 n d - k + 1; (n', d') = pow_frac 10 p n d;
          lo = n' div d'; hi = lo + 1;
          lo_ok = (float_of_decimal lo p = x); hi_ok = (float_of_decimal hi p = x)
      in if lo_ok \<and> hi_ok then Some (round_half_even n' d', p)
         else if lo_ok then Some (lo, p) else if hi_ok then Some (hi, p) else None)"

fun float_shortest :: "nat \<Rightarrow> int \<Rightarrow> int \<Rightarrow> int \<Rightarrow> pyfloat \<Rightarrow> int \<times> int" where
  "float_shortest 0 k n d x = (0, 0)"
| "float_shortest (Suc fuel) k n d x =
     (case float_digits n d k x of Some ce \<Rightarrow> ce | None \<Rightarrow> float_shortest fuel (k + 1) n d x)"

fun dec_of_float :: "pyfloat \<Rightarrow> decimal" where
  "dec_of_float FNaN = DNaN False"
| "dec_of_float (FInf s) = DInf s"
| "dec_of_float (FFin m e) =
     (if m = 0 then Fin 0 0
      else let (n, d) = pow_frac 2 (- e) \<bar>m\<bar> 1; (c, x) = float_shortest 17 1 n d (FFin \<bar>m\<bar> e)
           in Fin (sgn m * c) x)"

end
