(* ===== verification/Common.thy ===== *)
theory Common
  imports Numbers
begin

text \<open>
  \<open>walflux/common.py\<close>: LSN texts, identifier quoting, and the values that travel between the
  modules.

  A Python value (\<open>pyval\<close>) is what \<open>protocol.convert_value\<close> can return, or the sentinel
  \<open>UNCHANGED_TOAST\<close>.  \<open>py_eq\<close> is Python's \<open>==\<close> on them, which crosses the number types
  (\<open>1 == True == Decimal("1.0")\<close>) and is not reflexive on NaN; tuples of values are the keys of
  the delta dictionaries, so \<open>keys_eq\<close> interprets the dictionary interface.
\<close>

unbundle bit_operations_syntax

section \<open>Values\<close>

datatype pyval =
    PNone
  | PToast
  | PBool bool
  | PInt int
  | PFloat pyfloat
  | PDec decimal
  | PStr string

text \<open>What decides equality and hashing; a NaN equals nothing.\<close>

datatype eqkey = KNone | KToast | KStr string | KNum rat | KInf bool

fun eq_key :: "pyval \<Rightarrow> eqkey option" where
  "eq_key PNone = Some KNone"
| "eq_key PToast = Some KToast"
| "eq_key (PBool b) = Some (KNum (of_bool b))"
| "eq_key (PInt i) = Some (KNum (of_int i))"
| "eq_key (PFloat (FFin m e)) = Some (KNum (of_int m * 2 powi e))"
| "eq_key (PFloat (FInf s)) = Some (KInf s)"
| "eq_key (PFloat FNaN) = None"
| "eq_key (PDec (Fin c e)) = Some (KNum (dec_val (Fin c e)))"
| "eq_key (PDec (DInf s)) = Some (KInf s)"
| "eq_key (PDec (DNaN _)) = None"
| "eq_key (PStr s) = Some (KStr s)"

definition py_eq :: "pyval \<Rightarrow> pyval \<Rightarrow> bool" where
  "py_eq a b \<longleftrightarrow> eq_key a \<noteq> None \<and> eq_key a = eq_key b"

definition keys_eq :: "pyval list \<Rightarrow> pyval list \<Rightarrow> bool" where
  "keys_eq ks ls \<longleftrightarrow> list_all2 py_eq ks ls"

lemma py_eq_sym: "py_eq a b \<Longrightarrow> py_eq b a"
  unfolding py_eq_def by metis

lemma py_eq_trans: "py_eq a b \<Longrightarrow> py_eq b c \<Longrightarrow> py_eq a c"
  unfolding py_eq_def by metis

interpretation groupdict: pydict keys_eq
proof unfold_locales
  fix a b c :: "pyval list"
  show "keys_eq a b \<Longrightarrow> keys_eq b a"
    unfolding keys_eq_def by (rule list_all2_conv_all_nth [THEN iffD2])
      (auto simp: list_all2_conv_all_nth intro: py_eq_sym)
  show "keys_eq a b \<Longrightarrow> keys_eq b c \<Longrightarrow> keys_eq a c"
    unfolding keys_eq_def by (rule list_all2_trans [OF py_eq_trans])
qed

text \<open>\<open>hash(value)\<close> raises for a signalling NaN only.\<close>

fun hashable :: "pyval \<Rightarrow> bool" where
  "hashable (PDec (DNaN True)) = False"
| "hashable _ = True"

section \<open>LSN texts\<close>

definition parse_lsn :: "string \<Rightarrow> int res" where
  "parse_lsn text =
     (case (case py_split (CHR ''/'') text of
              [hi, lo] \<Rightarrow>
                bindE (py_int 16 hi) (\<lambda>h. bindE (py_int 16 lo) (\<lambda>l. Inr (push_bit 32 h OR l)))
            | _ \<Rightarrow> Inl ValueError) of
        Inl _ \<Rightarrow> Inl (WalfluxError (InvalidLsn text))
      | Inr n \<Rightarrow> Inr n)"

definition format_lsn :: "int \<Rightarrow> string" where
  "format_lsn lsn =
     int_text 16 (drop_bit 32 lsn) @ CHR ''/'' # int_text 16 (lsn AND 0xFFFFFFFF)"

lemma int_text_no_slash: "CHR ''/'' \<notin> set (int_text 16 n)"
  using nat_text_plain(1) [of 16 n "CHR ''/''"] nat_text_plain(1) [of 16 "- n" "CHR ''/''"]
  by (auto simp: int_text_def)

lemma lsn_halves: "push_bit 32 (drop_bit 32 n) OR (n AND 0xFFFFFFFF) = (n::int)"
proof -
  have "n AND 0xFFFFFFFF = take_bit 32 n"
    by (simp add: take_bit_eq_mask mask_eq_exp_minus_1)
  then show ?thesis
    by (auto intro!: bit_eqI simp: bit_or_iff bit_push_bit_iff bit_drop_bit_eq bit_take_bit_iff)
qed

text \<open>The two formats are inverse on every integer, negative ones included.\<close>

lemma parse_format_lsn: "parse_lsn (format_lsn n) = Inr n"
  by (simp add: parse_lsn_def format_lsn_def py_split_two int_text_no_slash py_int_int_text
      lsn_halves)

text \<open>Whatever is wrong with a text, the only exception is the one naming it.\<close>

lemma parse_lsn_error: "parse_lsn text = Inl e \<Longrightarrow> e = WalfluxError (InvalidLsn text)"
  by (auto simp: parse_lsn_def split: sum.splits)

section \<open>Identifiers\<close>

definition ident_start :: "char \<Rightarrow> bool" where
  "ident_start c \<longleftrightarrow> (let n = (of_char c :: int) in 97 \<le> n \<and> n \<le> 122 \<or> c = CHR ''_'')"

definition ident_char :: "char \<Rightarrow> bool" where
  "ident_char c \<longleftrightarrow> ident_start c \<or> is_digit c"

definition plain_ident :: "string \<Rightarrow> bool" where
  "plain_ident s \<longleftrightarrow> (case s of [] \<Rightarrow> False | c # cs \<Rightarrow> ident_start c \<and> list_all ident_char cs)"

text \<open>
  The match of \<open>^[a-z_][a-z0-9_]*$\<close>.  In Python \<open>$\<close> stands for the end of the text, or for the
  place before a newline that ends it.
\<close>

definition newline :: char where
  "newline = CHR 0x0A"

definition ident_re_match :: "string \<Rightarrow> bool" where
  "ident_re_match s \<longleftrightarrow>
     plain_ident (if s \<noteq> [] \<and> last s = newline then butlast s else s)"

definition quote_ident :: "string \<Rightarrow> string res" where
  "quote_ident name =
     (if \<not> ident_re_match name \<or> length name > 63 then Inl (WalfluxError (InvalidIdentifier name))
      else Inr (CHR 0x22 # name @ [CHR 0x22]))"

lemma plain_ident_chars: "plain_ident s \<Longrightarrow> c \<in> set s \<Longrightarrow> ident_char c"
  by (cases s) (auto simp: plain_ident_def ident_char_def list_all_iff)

lemma ident_char_not_newline: "\<not> ident_char newline"
  by (simp add: ident_char_def ident_start_def is_digit_def newline_def)

lemma ident_char_not_quote: "\<not> ident_char (CHR 0x22)"
  by (simp add: ident_char_def ident_start_def is_digit_def)

lemma ident_re_match_iff:
  "ident_re_match s \<longleftrightarrow> plain_ident s \<or> (\<exists>t. s = t @ [newline] \<and> plain_ident t)"
proof (cases "s \<noteq> [] \<and> last s = newline")
  case True
  then have "s = butlast s @ [newline]" by (metis append_butlast_last_id)
  moreover have "\<not> plain_ident s"
    using True plain_ident_chars ident_char_not_newline last_in_set by metis
  ultimately show ?thesis using True by (auto simp: ident_re_match_def)
next
  case False
  then show ?thesis by (auto simp: ident_re_match_def)
qed

lemma quote_identD:
  assumes "quote_ident n = Inr q"
  shows "q = CHR 0x22 # n @ [CHR 0x22]" "CHR 0x22 \<notin> set n" "n \<noteq> []" "length n \<le> 63"
proof -
  have n: "ident_re_match n" "length n \<le> 63" "q = CHR 0x22 # n @ [CHR 0x22]"
    using assms by (auto simp: quote_ident_def split: if_splits)
  then show "q = CHR 0x22 # n @ [CHR 0x22]" "length n \<le> 63" by auto
  show "CHR 0x22 \<notin> set n" "n \<noteq> []"
    using n(1) plain_ident_chars ident_char_not_quote
    by (auto simp: ident_re_match_iff newline_def plain_ident_def char_of_def)
qed

lemma quote_ident_plain: "plain_ident n \<Longrightarrow> length n \<le> 63 \<Longrightarrow> quote_ident n = Inr (CHR 0x22 # n @ [CHR 0x22])"
  by (simp add: quote_ident_def ident_re_match_iff)

lemma quote_ident_error: "quote_ident n = Inl e \<Longrightarrow> e = WalfluxError (InvalidIdentifier n)"
  by (auto simp: quote_ident_def split: if_splits)

lemma quote_ident_inj: "quote_ident m = Inr q \<Longrightarrow> quote_ident n = Inr q \<Longrightarrow> m = n"
  using quote_identD(1) [of m q] quote_identD(1) [of n q] by simp

text \<open>\<open>$\<close> lets one trailing newline through, into the quoted name.\<close>

lemma ident_newline: "quote_ident (''ab'' @ [newline]) = Inr (CHR 0x22 # ''ab'' @ [newline, CHR 0x22])"
  by code_simp

section \<open>What the text helpers promise\<close>

text \<open>C26: parse_lsn reads back what format_lsn writes, for every integer position, also beyond 64 bits.\<close>
theorem lsn_roundtrip: "parse_lsn (format_lsn n) = Inr n"
  by (rule parse_format_lsn)

text \<open>C25: quote_ident either refuses a name with a WalfluxError that carries it, or returns the name between double quotes, and then the name is nonempty, at most 63 bytes long and has no double quote in it: so the quoted text is one SQL identifier and different names have different quoted texts.\<close>
theorem quote_ident_safe:
  "quote_ident n = Inl (WalfluxError (InvalidIdentifier n)) \<or>
   (quote_ident n = Inr (CHR 0x22 # n @ [CHR 0x22]) \<and> CHR 0x22 \<notin> set n \<and> n \<noteq> [] \<and> length n \<le> 63)"
proof (cases "quote_ident n")
  case (Inr q)
  then show ?thesis using quote_identD [OF Inr] by simp
qed (simp add: quote_ident_error)

end
