(* ===== verification/Aggregates.thy ===== *)
theory Aggregates
  imports Common
begin

text \<open>
  \<open>walflux/aggregates.py\<close>: view specifications, the setup-time SQL, and the accumulation of row
  events into per-group deltas (\<open>DeltaBatch\<close>).

  A source row is a dictionary from column names to values, an association list looked up with
  \<open>map_of\<close>.  An f-string that quotes identifiers can raise, so the functions that build SQL return
  an exception or a text.  A method of \<open>DeltaBatch\<close> returns the batch it leaves behind; when it
  raises, the daemon abandons the batch, so the half-updated one is not kept.
\<close>

section \<open>Specifications\<close>

record agg_spec =
  agg_fn :: string
  agg_column :: "string option"
  agg_alias :: string

record view_spec =
  view_name :: string
  source_schema :: string
  source_table :: string
  group_by :: "string list"
  aggregates :: "agg_spec list"

text \<open>A delta is an \<open>int\<close> or a \<open>Decimal\<close>.\<close>

datatype num = NInt int | NDec decimal

record storage =
  st_name :: string
  ddl_type :: string
  backfill_expr :: string
  st_zero :: num

definition target_schema :: string where "target_schema = ''walflux''"
definition rows_column :: string where "rows_column = ''__walflux_rows''"
definition global_key_column :: string where "global_key_column = ''__walflux_all''"

definition agg_storage :: "agg_spec \<Rightarrow> storage list res" where
  "agg_storage agg =
     (if agg_fn agg = ''count''
      then bindE (case agg_column agg of
                    None \<Rightarrow> Inr ''count(*)''
                  | Some c \<Rightarrow> bindE (quote_ident c) (\<lambda>q. Inr (''count('' @ q @ '')'')))
             (\<lambda>expr. Inr [\<lparr>st_name = agg_alias agg, ddl_type = ''bigint NOT NULL'',
                            backfill_expr = expr, st_zero = NInt 0\<rparr>])
      else if agg_fn agg \<in> set [''sum'', ''avg'']
      then (case agg_column agg of
              None \<Rightarrow> Inl (WalfluxError (AggRequiresColumn (agg_alias agg) (agg_fn agg)))
            | Some c \<Rightarrow>
                bindE (quote_ident c) (\<lambda>src. Inr
                  [\<lparr>st_name = agg_alias agg @ ''__sum'', ddl_type = ''numeric'',
                    backfill_expr = ''coalesce(sum('' @ src @ ''), 0)'', st_zero = NDec (Fin 0 0)\<rparr>,
                   \<lparr>st_name = agg_alias agg @ ''__nn'', ddl_type = ''bigint NOT NULL'',
                    backfill_expr = ''count('' @ src @ '')'', st_zero = NInt 0\<rparr>]))
      else Inl (WalfluxError (UnknownAggFn (agg_alias agg) (agg_fn agg))))"

text \<open>\<open>[s for agg in view.aggregates for s in _agg_storage(agg)]\<close>\<close>

definition view_storage :: "view_spec \<Rightarrow> storage list res" where
  "view_storage view = bindE (mapE agg_storage (aggregates view)) (\<lambda>ss. Inr (concat ss))"

definition target :: "view_spec \<Rightarrow> string res" where
  "target view =
     bindE (quote_ident target_schema) (\<lambda>s. bindE (quote_ident (view_name view)) (\<lambda>n.
       Inr (s @ ''.'' @ n)))"

definition key_columns :: "view_spec \<Rightarrow> string list" where
  "key_columns view = (if group_by view \<noteq> [] then group_by view else [global_key_column])"

text \<open>\<open>", ".join(quote_ident(c) for c in cols)\<close>\<close>

definition quoted_list :: "string list \<Rightarrow> string res" where
  "quoted_list cols = bindE (mapE quote_ident cols) (\<lambda>qs. Inr (py_join '', '' qs))"

section \<open>Setup-time SQL\<close>

definition generated_ddl :: "agg_spec \<Rightarrow> string list res" where
  "generated_ddl agg =
     (if agg_fn agg \<in> set [''sum'', ''avg'']
      then bindE (quote_ident (agg_alias agg @ ''__sum'')) (\<lambda>total.
           bindE (quote_ident (agg_alias agg @ ''__nn'')) (\<lambda>nn.
           bindE (quote_ident (agg_alias agg)) (\<lambda>a.
             let val = (if agg_fn agg = ''sum'' then total else total @ '' / '' @ nn)
             in Inr [a @ '' numeric GENERATED ALWAYS AS (CASE WHEN '' @ nn @ '' > 0 THEN '' @ val @
                     '' END) STORED''])))
      else Inr [])"

definition agg_ddl :: "agg_spec \<Rightarrow> string list res" where
  "agg_ddl agg =
     bindE (agg_storage agg) (\<lambda>ss.
     bindE (mapE (\<lambda>s. bindE (quote_ident (st_name s)) (\<lambda>q. Inr (q @ '' '' @ ddl_type s))) ss) (\<lambda>cols.
     bindE (generated_ddl agg) (\<lambda>gen. Inr (cols @ gen))))"

definition group_ddl :: "view_spec \<Rightarrow> (string \<times> string) list \<Rightarrow> string list res" where
  "group_ddl view group_col_types =
     (if group_by view \<noteq> []
      then mapE (\<lambda>col.
             case map_of group_col_types col of
               None \<Rightarrow> Inl (WalfluxError (NoGroupColType (view_name view) col))
             | Some ty \<Rightarrow> bindE (quote_ident col) (\<lambda>q. Inr (q @ '' '' @ ty))) (group_by view)
      else bindE (quote_ident global_key_column) (\<lambda>q. Inr [q @ '' boolean NOT NULL DEFAULT true'']))"

definition target_ddl :: "view_spec \<Rightarrow> (string \<times> string) list \<Rightarrow> string list res" where
  "target_ddl view group_col_types =
     bindE (target view) (\<lambda>t.
     bindE (group_ddl view group_col_types) (\<lambda>group_cols.
     bindE (quote_ident rows_column) (\<lambda>rows.
     bindE (mapE agg_ddl (aggregates view)) (\<lambda>agg_cols.
     bindE (quoted_list (key_columns view)) (\<lambda>keys.
       let columns = group_cols @ [rows @ '' bigint NOT NULL''] @ concat agg_cols;
           body = py_join ('','' @ newline # ''    '') columns
       in Inr [''DROP TABLE IF EXISTS '' @ t,
               ''CREATE TABLE '' @ t @ '' ('' @ newline # ''    '' @ body @ newline # '')'',
               ''CREATE UNIQUE INDEX ON '' @ t @ '' ('' @ keys @ '') NULLS NOT DISTINCT''])))))"

definition insert_columns :: "view_spec \<Rightarrow> storage list \<Rightarrow> string list" where
  "insert_columns view ss = key_columns view @ rows_column # map st_name ss"

definition backfill_sql :: "view_spec \<Rightarrow> string res" where
  "backfill_sql view =
     bindE (view_storage view) (\<lambda>ss.
     bindE (if group_by view \<noteq> [] then mapE quote_ident (group_by view) else Inr [''true'']) (\<lambda>key_exprs.
     bindE (quote_ident (source_schema view)) (\<lambda>sch.
     bindE (quote_ident (source_table view)) (\<lambda>tab.
     bindE (target view) (\<lambda>t.
     bindE (quoted_list (insert_columns view ss)) (\<lambda>cols.
     bindE (if group_by view \<noteq> []
            then bindE (quoted_list (group_by view)) (\<lambda>g. Inr (newline # ''GROUP BY '' @ g))
            else Inr []) (\<lambda>grouping.
       Inr (''INSERT INTO '' @ t @ '' ('' @ cols @ '')'' @ newline #
            ''SELECT '' @ py_join '', '' (key_exprs @ ''count(*)'' # map backfill_expr ss) @ newline #
            ''FROM '' @ sch @ ''.'' @ tab @ grouping))))))))"

section \<open>Row contributions\<close>

text \<open>
  \<open>Decimal(value)\<close>: exact on a bool or an int, a parse of a string; a float goes through
  \<open>str\<close>.  The exceptions of the conversion are caught, a non-finite result is refused.
\<close>

fun decimal_of :: "pyval \<Rightarrow> decimal res" where
  "decimal_of (PDec d) = Inr d"
| "decimal_of (PFloat x) = Inr (dec_of_float x)"
| "decimal_of (PBool b) = Inr (Fin (of_bool b) 0)"
| "decimal_of (PInt n) = Inr (Fin n 0)"
| "decimal_of (PStr s) = dec_of_text s"
| "decimal_of PNone = Inl TypeError"
| "decimal_of PToast = Inl TypeError"

definition as_decimal :: "pyval \<Rightarrow> string \<Rightarrow> string \<Rightarrow> decimal res" where
  "as_decimal v view col =
     (case decimal_of v of
        Inl _ \<Rightarrow> Inl (WalfluxError (CannotAggregate view col))
      | Inr d \<Rightarrow> if dec_is_finite d then Inr d else Inl (WalfluxError (NonFinite view col)))"

type_synonym row = "(string \<times> pyval) list"

definition getitem :: "row \<Rightarrow> string \<Rightarrow> pyval res" where
  "getitem r c = (case map_of r c of None \<Rightarrow> Inl KeyError | Some v \<Rightarrow> Inr v)"

text \<open>
  \<open>_agg_deltas\<close>.  A \<open>sum\<close> or \<open>avg\<close> without a column does not get past \<open>_build_plan\<close>; there
  \<open>row[None]\<close> is a \<open>KeyError\<close>.
\<close>

definition agg_deltas :: "agg_spec \<Rightarrow> row \<Rightarrow> string \<Rightarrow> num list res" where
  "agg_deltas agg r view =
     (if agg_fn agg = ''count''
      then (case agg_column agg of
              None \<Rightarrow> Inr [NInt 1]
            | Some c \<Rightarrow> bindE (getitem r c) (\<lambda>v. Inr [NInt (if v \<noteq> PNone then 1 else 0)]))
      else (case agg_column agg of
              None \<Rightarrow> Inl KeyError
            | Some c \<Rightarrow>
                bindE (getitem r c) (\<lambda>v.
                  if v = PNone then Inr [NDec (Fin 0 0), NInt 0]
                  else bindE (as_decimal v view c) (\<lambda>d. Inr [NDec d, NInt 1]))))"

text \<open>\<open>x + y\<close> and \<open>sign * y\<close>; an \<open>int\<close> meeting a \<open>Decimal\<close> is converted exactly.\<close>

fun num_add :: "num \<Rightarrow> num \<Rightarrow> num res" where
  "num_add (NInt a) (NInt b) = Inr (NInt (a + b))"
| "num_add (NDec a) (NDec b) = bindE (dec_add a b) (\<lambda>d. Inr (NDec d))"
| "num_add (NInt a) (NDec b) = bindE (dec_add (Fin a 0) b) (\<lambda>d. Inr (NDec d))"
| "num_add (NDec a) (NInt b) = bindE (dec_add a (Fin b 0)) (\<lambda>d. Inr (NDec d))"

fun num_scale :: "int \<Rightarrow> num \<Rightarrow> num res" where
  "num_scale sg (NInt a) = Inr (NInt (sg * a))"
| "num_scale sg (NDec a) = bindE (dec_mul (Fin sg 0) a) (\<lambda>d. Inr (NDec d))"

section \<open>The batch\<close>

record plan =
  plan_view :: view_spec
  needed :: "string list"
  zeros :: "num list"
  upsert_sql :: string

definition needed_columns :: "view_spec \<Rightarrow> string list" where
  "needed_columns view =
     fromkeys (group_by view @ concat (map (\<lambda>a. case agg_column a of None \<Rightarrow> [] | Some c \<Rightarrow> [c]) (aggregates view)))"

definition update_clause :: "string \<Rightarrow> string \<Rightarrow> string res" where
  "update_clause t c =
     bindE (quote_ident c) (\<lambda>q. Inr (q @ '' = '' @ t @ ''.'' @ q @ '' + EXCLUDED.'' @ q))"

definition upsert_text :: "string \<Rightarrow> string \<Rightarrow> nat \<Rightarrow> string \<Rightarrow> string \<Rightarrow> string" where
  "upsert_text t cols n keys updates =
     ''INSERT INTO '' @ t @ '' ('' @ cols @ '')'' @ newline #
     ''VALUES ('' @ py_join '', '' (replicate n ''%s'') @ '')'' @ newline #
     ''ON CONFLICT ('' @ keys @ '') DO UPDATE SET'' @ newline #
     ''  '' @ updates"

definition build_plan :: "view_spec \<Rightarrow> plan res" where
  "build_plan view =
     bindE (view_storage view) (\<lambda>ss.
     bindE (target view) (\<lambda>t.
     bindE (mapE (update_clause t) (rows_column # map st_name ss)) (\<lambda>updates.
     bindE (quoted_list (key_columns view)) (\<lambda>keys.
     bindE (quoted_list (insert_columns view ss)) (\<lambda>cols.
       Inr \<lparr>plan_view = view, needed = needed_columns view, zeros = NInt 0 # map st_zero ss,
            upsert_sql = upsert_text t cols (length (insert_columns view ss)) keys
                           (py_join ('','' @ newline # ''  '') updates)\<rparr>)))))"

type_synonym groups = "(pyval list, num list) dict"

record delta_batch =
  plans :: "(string \<times> plan) list"
  deltas :: "(string \<times> groups) list"
  truncated :: "string set"

text \<open>\<open>DeltaBatch(views)\<close>: a later view of the same name replaces the plan of an earlier one.\<close>

definition new_batch :: "view_spec list \<Rightarrow> delta_batch res" where
  "new_batch views =
     bindE (mapE build_plan views) (\<lambda>ps.
       let pd = fold (\<lambda>(v, p) d. dict_set (=) (view_name v) p d) (zip views ps) []
       in Inr \<lparr>plans = pd, deltas = map (\<lambda>(n, p). (n, [])) pd, truncated = {}\<rparr>)"

definition get_plan :: "delta_batch \<Rightarrow> string \<Rightarrow> plan res" where
  "get_plan b name =
     (case map_of (plans b) name of
        None \<Rightarrow> Inl (WalfluxError (UnknownView name)) | Some p \<Rightarrow> Inr p)"

definition groups_of :: "delta_batch \<Rightarrow> string \<Rightarrow> groups res" where
  "groups_of b name =
     (case map_of (deltas b) name of None \<Rightarrow> Inl KeyError | Some g \<Rightarrow> Inr g)"

definition set_groups :: "string \<Rightarrow> groups \<Rightarrow> delta_batch \<Rightarrow> delta_batch" where
  "set_groups name g b = b\<lparr>deltas := dict_set (=) name g (deltas b)\<rparr>"

text \<open>The scan of a row for the columns the view needs.\<close>

definition check_needed :: "plan \<Rightarrow> row \<Rightarrow> unit res" where
  "check_needed p r =
     foldE (\<lambda>_ col.
       case map_of r col of
         None \<Rightarrow> Inl (SchemaDriftError (MissingColumn (view_name (plan_view p)) col))
       | Some v \<Rightarrow>
           if v = PToast then Inl (SchemaDriftError (ToastInCompleteImage (view_name (plan_view p)) col))
           else Inr ()) () (needed p)"

definition add_at :: "int \<Rightarrow> (num list \<times> nat) \<Rightarrow> num \<Rightarrow> (num list \<times> nat) res" where
  "add_at sign = (\<lambda>(grp, index) delta.
     if index < length grp
     then bindE (num_scale sign delta) (\<lambda>d. bindE (num_add (grp ! index) d) (\<lambda>x.
            Inr (grp[index := x], index + 1)))
     else Inl IndexError)"

definition add_agg :: "int \<Rightarrow> row \<Rightarrow> string \<Rightarrow> (num list \<times> nat) \<Rightarrow> agg_spec \<Rightarrow> (num list \<times> nat) res" where
  "add_agg sign r view gi agg = bindE (agg_deltas agg r view) (\<lambda>ds. foldE (add_at sign) gi ds)"

definition bump_rows :: "int \<Rightarrow> num list \<Rightarrow> num list res" where
  "bump_rows sign grp =
     (case grp of [] \<Rightarrow> Inl IndexError | x # xs \<Rightarrow> bindE (num_add x (NInt sign)) (\<lambda>y. Inr (y # xs)))"

text \<open>\<open>_apply\<close>; \<open>setdefault\<close> hashes the key, then finds or adds the group.\<close>

definition apply_row :: "string \<Rightarrow> row \<Rightarrow> int \<Rightarrow> delta_batch \<Rightarrow> delta_batch res" where
  "apply_row name r sign b =
     bindE (get_plan b name) (\<lambda>p.
     bindE (check_needed p r) (\<lambda>_.
     bindE (mapE (getitem r) (group_by (plan_view p))) (\<lambda>key.
     bindE (groups_of b name) (\<lambda>gs.
     if \<not> list_all hashable key then Inl TypeError
     else let grp = (case dict_get keys_eq gs key of Some g \<Rightarrow> g | None \<Rightarrow> zeros p)
       in bindE (bump_rows sign grp) (\<lambda>grp.
          bindE (foldE (add_agg sign r name) (grp, 1) (aggregates (plan_view p))) (\<lambda>(grp, _).
            Inr (set_groups name (dict_set keys_eq key grp gs) b)))))))"

definition apply_insert :: "string \<Rightarrow> row \<Rightarrow> delta_batch \<Rightarrow> delta_batch res" where
  "apply_insert name r b = apply_row name r 1 b"

definition apply_delete :: "string \<Rightarrow> row \<Rightarrow> delta_batch \<Rightarrow> delta_batch res" where
  "apply_delete name r b = apply_row name r (- 1) b"

definition apply_update :: "string \<Rightarrow> row \<Rightarrow> row \<Rightarrow> delta_batch \<Rightarrow> delta_batch res" where
  "apply_update name old new b = bindE (apply_row name old (- 1) b) (apply_row name new 1)"

definition apply_truncate :: "string \<Rightarrow> delta_batch \<Rightarrow> delta_batch res" where
  "apply_truncate name b =
     bindE (get_plan b name) (\<lambda>p.
     bindE (groups_of b name) (\<lambda>_.
       let gs = (if group_by (plan_view p) = [] then [([], zeros p)] else [])
       in Inr ((set_groups name gs b)\<lparr>truncated := insert name (truncated b)\<rparr>)))"

definition is_empty :: "delta_batch \<Rightarrow> bool" where
  "is_empty b \<longleftrightarrow> truncated b = {} \<and> list_all (\<lambda>(n, gs). gs = []) (deltas b)"

fun num_value :: "num \<Rightarrow> pyval" where
  "num_value (NInt n) = PInt n"
| "num_value (NDec d) = PDec d"

definition delete_statements :: "delta_batch \<Rightarrow> (string \<times> pyval list) list res" where
  "delete_statements b =
     bindE (mapE (\<lambda>(name, p).
       if name \<in> truncated b
       then bindE (target (plan_view p)) (\<lambda>t. Inr [(''DELETE FROM '' @ t, [])]) else Inr [])
       (plans b)) (\<lambda>xs. Inr (concat xs))"

definition upsert_statements :: "delta_batch \<Rightarrow> (string \<times> pyval list) list res" where
  "upsert_statements b =
     bindE (mapE (\<lambda>(name, p).
       let key_prefix = (if group_by (plan_view p) \<noteq> [] then [] else [PBool True])
       in bindE (groups_of b name) (\<lambda>gs.
            Inr (map (\<lambda>(key, ds). (upsert_sql p, key_prefix @ key @ map num_value ds)) gs)))
       (plans b)) (\<lambda>xs. Inr (concat xs))"

definition cleanup_statements :: "delta_batch \<Rightarrow> (string \<times> pyval list) list res" where
  "cleanup_statements b =
     bindE (mapE (\<lambda>(name, p).
       if group_by (plan_view p) = [] then Inr []
       else bindE (if name \<in> truncated b then Inr True
                   else bindE (groups_of b name) (\<lambda>gs. Inr (gs \<noteq> []))) (\<lambda>touched.
         if touched
         then bindE (target (plan_view p)) (\<lambda>t. bindE (quote_ident rows_column) (\<lambda>q.
                Inr [(''DELETE FROM '' @ t @ '' WHERE '' @ q @ '' <= 0'', [])]))
         else Inr []))
       (plans b)) (\<lambda>xs. Inr (concat xs))"

definition statements :: "delta_batch \<Rightarrow> (string \<times> pyval list) list res" where
  "statements b =
     bindE (delete_statements b) (\<lambda>ds. bindE (upsert_statements b) (\<lambda>us.
       bindE (cleanup_statements b) (\<lambda>cs. Inr (ds @ us @ cs))))"

end
