(* ===== verification/Target.thy ===== *)
theory Target
  imports Aggregates
begin

text \<open>
  The statements of a batch as syntax trees, their texts, and what they do to a target table.

  \<open>stmts\<close> is the batch's work as data; \<open>render\<close> writes a statement the way the code does, and
  \<open>statements_render\<close> shows that the texts \<open>statements()\<close> returns are exactly the renderings.
  \<open>exec_stmt\<close> is the PostgreSQL meaning of the three forms: \<open>DELETE\<close>, \<open>INSERT \<dots> ON CONFLICT DO
  UPDATE\<close> over a unique index that does not distinguish NULLs, and the cleanup \<open>DELETE\<close>.

  A stored value is known up to SQL equality (\<open>eq_key\<close>; \<open>None\<close> is NaN, which PostgreSQL holds
  equal to itself).  Numbers are exact; the range of \<open>bigint\<close> is not modelled.
\<close>

section \<open>Statements\<close>

datatype stmt =
    DeleteAll string
  | Upsert string "string list" "string list" "string list" "pyval list"
  | Cleanup string

definition storage_names :: "view_spec \<Rightarrow> string list" where
  "storage_names view = (case view_storage view of Inl _ \<Rightarrow> [] | Inr ss \<Rightarrow> map st_name ss)"

definition delta_columns :: "view_spec \<Rightarrow> string list" where
  "delta_columns view = rows_column # storage_names view"

definition all_columns :: "view_spec \<Rightarrow> string list" where
  "all_columns view = key_columns view @ delta_columns view"

definition upsert_of :: "view_spec \<Rightarrow> pyval list \<Rightarrow> num list \<Rightarrow> stmt" where
  "upsert_of view key ds =
     Upsert (view_name view) (all_columns view) (key_columns view) (delta_columns view)
       ((if group_by view \<noteq> [] then [] else [PBool True]) @ key @ map num_value ds)"

definition groups_in :: "delta_batch \<Rightarrow> string \<Rightarrow> groups" where
  "groups_in b name = (case map_of (deltas b) name of None \<Rightarrow> [] | Some gs \<Rightarrow> gs)"

definition needs_cleanup :: "delta_batch \<Rightarrow> view_spec \<Rightarrow> bool" where
  "needs_cleanup b view \<longleftrightarrow>
     group_by view \<noteq> [] \<and> (view_name view \<in> truncated b \<or> groups_in b (view_name view) \<noteq> [])"

definition views_of :: "delta_batch \<Rightarrow> view_spec list" where
  "views_of b = map (plan_view \<circ> snd) (plans b)"

definition stmts :: "delta_batch \<Rightarrow> stmt list" where
  "stmts b =
     map (DeleteAll \<circ> view_name) (filter (\<lambda>v. view_name v \<in> truncated b) (views_of b)) @
     concat (map (\<lambda>v. map (\<lambda>(key, ds). upsert_of v key ds) (groups_in b (view_name v))) (views_of b)) @
     map (Cleanup \<circ> view_name) (filter (needs_cleanup b) (views_of b))"

section \<open>Texts\<close>

definition target_text :: "string \<Rightarrow> string res" where
  "target_text name =
     bindE (quote_ident target_schema) (\<lambda>s. bindE (quote_ident name) (\<lambda>n. Inr (s @ ''.'' @ n)))"

fun render :: "stmt \<Rightarrow> (string \<times> pyval list) res" where
  "render (DeleteAll name) = bindE (target_text name) (\<lambda>t. Inr (''DELETE FROM '' @ t, []))"
| "render (Upsert name cols keys upd params) =
     bindE (target_text name) (\<lambda>t.
     bindE (mapE (update_clause t) upd) (\<lambda>updates.
     bindE (quoted_list keys) (\<lambda>ks.
     bindE (quoted_list cols) (\<lambda>cs.
       Inr (upsert_text t cs (length cols) ks (py_join ('','' @ newline # ''  '') updates), params)))))"
| "render (Cleanup name) =
     bindE (target_text name) (\<lambda>t. bindE (quote_ident rows_column) (\<lambda>q.
       Inr (''DELETE FROM '' @ t @ '' WHERE '' @ q @ '' <= 0'', [])))"

text \<open>What construction establishes and every method keeps: each plan is its view's.\<close>

definition batch_ok :: "delta_batch \<Rightarrow> bool" where
  "batch_ok b \<longleftrightarrow>
     (\<forall>(n, p) \<in> set (plans b). build_plan (plan_view p) = Inr p \<and> view_name (plan_view p) = n) \<and>
     distinct (map fst (plans b)) \<and> map fst (deltas b) = map fst (plans b) \<and>
     truncated b \<subseteq> fst ` set (plans b)"

lemma target_is_text: "target view = target_text (view_name view)"
  by (simp add: target_def target_text_def)

lemma build_planD:
  assumes "build_plan view = Inr p"
  shows "plan_view p = view" "needed p = needed_columns view" "\<exists>t. target view = Inr t"
    "\<exists>ss. view_storage view = Inr ss \<and> zeros p = NInt 0 # map st_zero ss \<and> storage_names view = map st_name ss"
    "render (upsert_of view key ds) =
       Inr (upsert_sql p, (if group_by view \<noteq> [] then [] else [PBool True]) @ key @ map num_value ds)"
  using assms
  by (auto simp: build_plan_def res_simps storage_names_def upsert_of_def target_is_text
      all_columns_def delta_columns_def insert_columns_def)

lemma build_plan_rows: "build_plan view = Inr p \<Longrightarrow> \<exists>q. quote_ident rows_column = Inr q"
  by (auto simp: build_plan_def res_simps update_clause_def)

lemma render_upsert_of:
  "batch_ok b \<Longrightarrow> (n, p) \<in> set (plans b) \<Longrightarrow>
   render (upsert_of (plan_view p) key ds) =
     Inr (upsert_sql p, (if group_by (plan_view p) \<noteq> [] then [] else [PBool True]) @ key @ map num_value ds)"
  by (rule build_planD(5)) (auto simp: batch_ok_def)

lemma groups_of_in: "batch_ok b \<Longrightarrow> (n, p) \<in> set (plans b) \<Longrightarrow> groups_of b n = Inr (groups_in b n)"
proof -
  assume b: "batch_ok b" and np: "(n, p) \<in> set (plans b)"
  then have "n \<in> set (map fst (plans b))" by force
  also have "map fst (plans b) = map fst (deltas b)" using b by (simp add: batch_ok_def)
  finally have "n \<in> fst ` set (deltas b)" by simp
  then obtain g where "map_of (deltas b) n = Some g"
    by (meson map_of_eq_None_iff not_Some_eq)
  then show ?thesis by (simp add: groups_of_def groups_in_def)
qed

lemma mapE_concat:
  "(\<And>x. x \<in> set xs \<Longrightarrow> f x = mapE g (h x)) \<Longrightarrow>
   bindE (mapE f xs) (\<lambda>ys. Inr (concat ys)) = mapE g (concat (map h xs))"
proof (induction xs)
  case (Cons x xs)
  then have ih: "mapE g (concat (map h xs)) = bindE (mapE f xs) (\<lambda>ys. Inr (concat ys))" by simp
  show ?case
    using Cons.prems [of x] by (simp add: mapE_append ih bindE_assoc)
qed simp

lemma concat_map_single: "concat (map (\<lambda>x. if P x then [f x] else []) xs) = map f (filter P xs)"
  by (induction xs) auto

lemma delete_statements_render:
  "batch_ok b \<Longrightarrow> delete_statements b =
     mapE render (map (DeleteAll \<circ> view_name) (filter (\<lambda>v. view_name v \<in> truncated b) (views_of b)))"
  unfolding delete_statements_def
  by (subst mapE_concat [where g = render and
        h = "\<lambda>np. if view_name (plan_view (snd np)) \<in> truncated b then [DeleteAll (view_name (plan_view (snd np)))] else []"])
     (auto simp: batch_ok_def target_is_text views_of_def filter_map o_def bindE_assoc case_prod_beta concat_map_single
        intro!: arg_cong [where f = "mapE render"])

lemma upsert_statements_render:
  "batch_ok b \<Longrightarrow> upsert_statements b =
     mapE render (concat (map (\<lambda>v. map (\<lambda>(key, ds). upsert_of v key ds) (groups_in b (view_name v))) (views_of b)))"
proof -
  assume b: "batch_ok b"
  have one: "mapE render (map (\<lambda>(key, ds). upsert_of (plan_view p) key ds) gs) =
      Inr (map (\<lambda>(key, ds). (upsert_sql p, (if group_by (plan_view p) \<noteq> [] then [] else [PBool True]) @ key @ map num_value ds)) gs)"
    if "(n, p) \<in> set (plans b)" for n p gs
    using render_upsert_of [OF b that] by (induction gs) (auto split: prod.splits)
  have nm: "view_name (plan_view p) = n" if "(n, p) \<in> set (plans b)" for n p
    using that b by (auto simp: batch_ok_def)
  show ?thesis
    unfolding upsert_statements_def
    by (subst mapE_concat [where g = render and
          h = "\<lambda>np. map (\<lambda>(key, ds). upsert_of (plan_view (snd np)) key ds) (groups_in b (view_name (plan_view (snd np))))"])
       (auto simp: nm one groups_of_in [OF b] views_of_def o_def case_prod_beta Let_def split: prod.splits)
qed

lemma cleanup_statements_render:
  "batch_ok b \<Longrightarrow> cleanup_statements b =
     mapE render (map (Cleanup \<circ> view_name) (filter (needs_cleanup b) (views_of b)))"
proof -
  assume b: "batch_ok b"
  have nm: "view_name (plan_view p) = n" if "(n, p) \<in> set (plans b)" for n p
    using that b by (auto simp: batch_ok_def)
  have q: "\<exists>q. quote_ident rows_column = Inr q" if "(n, p) \<in> set (plans b)" for n p
    using that b by (auto simp: batch_ok_def intro: build_plan_rows)
  have one: "(case np of (name, p) \<Rightarrow>
       if group_by (plan_view p) = [] then Inr []
       else bindE (if name \<in> truncated b then Inr True
                   else bindE (groups_of b name) (\<lambda>gs. Inr (gs \<noteq> []))) (\<lambda>touched.
         if touched
         then bindE (target (plan_view p)) (\<lambda>t. bindE (quote_ident rows_column) (\<lambda>q.
                Inr [(''DELETE FROM '' @ t @ '' WHERE '' @ q @ '' <= 0'', [])]))
         else Inr []))
     = mapE render (if needs_cleanup b (plan_view (snd np)) then [Cleanup (view_name (plan_view (snd np)))] else [])"
    if "np \<in> set (plans b)" for np
  proof (cases np)
    case (Pair n p)
    then show ?thesis
      using that nm [of n p] groups_of_in [OF b, of n p]
      by (auto simp: needs_cleanup_def target_is_text bindE_assoc)
  qed
  show ?thesis
    unfolding cleanup_statements_def
    by (subst mapE_concat [OF one]) (auto simp: concat_map_single views_of_def filter_map o_def)
qed

lemma statements_text:
  "batch_ok b \<Longrightarrow> statements b = mapE render (stmts b)"
  by (simp add: statements_def stmts_def mapE_append delete_statements_render upsert_statements_render
      cleanup_statements_render bindE_assoc)


section \<open>The batch invariant\<close>

lemma fst_dict_set_mem: "n \<in> fst ` set d \<Longrightarrow> map fst (dict_set (=) n v d) = map fst d"
  by (induction d) force+

lemma map_of_fst: "map_of d n = Some g \<Longrightarrow> n \<in> fst ` set d"
  by (force dest: map_of_SomeD)

lemma map_of_dict_set [simp]: "map_of (dict_set (=) n v d) = (map_of d)(n \<mapsto> v)"
  by (simp add: dict_set_update update_conv')

lemma plans_fold_ok:
  assumes "\<forall>(v, p) \<in> set vps. build_plan v = Inr p"
    and "\<forall>(n, p) \<in> set d. build_plan (plan_view p) = Inr p \<and> view_name (plan_view p) = n" "distinct (map fst d)"
  defines "d' \<equiv> fold (\<lambda>(v, p) d. dict_set (=) (view_name v) p d) vps d"
  shows "(\<forall>(n, p) \<in> set d'. build_plan (plan_view p) = Inr p \<and> view_name (plan_view p) = n) \<and> distinct (map fst d')"
  using assms(1-3) unfolding d'_def
proof (induction vps arbitrary: d)
  case (Cons vp vps)
  obtain v p where vp: "vp = (v, p)" by (cases vp)
  have plan: "build_plan (plan_view p) = Inr p" "plan_view p = v"
    using Cons.prems(1) build_planD(1) [of v p] by (auto simp: vp)
  let ?d = "dict_set (=) (view_name v) p d"
  have "\<forall>(n, q) \<in> set ?d. build_plan (plan_view q) = Inr q \<and> view_name (plan_view q) = n"
    using Cons.prems(2) plan strdict.entries_set [of _ _ "view_name v" p d] by fastforce
  moreover have "distinct (map fst ?d)"
    using Cons.prems(3) by (simp add: dict_set_update distinct_update)
  ultimately show ?case using Cons.IH [of ?d] Cons.prems(1) by (simp add: vp)
qed simp

lemma new_batch_ok: "new_batch views = Inr b \<Longrightarrow> batch_ok b"
proof -
  assume "new_batch views = Inr b"
  then obtain ps where ps: "mapE build_plan views = Inr ps"
    and b: "b = (let pd = fold (\<lambda>(v, p) d. dict_set (=) (view_name v) p d) (zip views ps) []
       in \<lparr>plans = pd, deltas = map (\<lambda>(n, p). (n, [])) pd, truncated = {}\<rparr>)"
    by (auto simp: new_batch_def res_simps Let_def)
  have "\<forall>(v, p) \<in> set (zip views ps). build_plan v = Inr p"
    using ps by (auto simp: mapE_Inr list_all2_iff)
  from plans_fold_ok [OF this, of "[]"] show ?thesis
    by (auto simp: b batch_ok_def Let_def o_def case_prod_beta)
qed

lemma batch_ok_set_groups:
  "batch_ok b \<Longrightarrow> groups_of b n = Inr g \<Longrightarrow> batch_ok (set_groups n gs b)"
proof -
  assume b: "batch_ok b" and "groups_of b n = Inr g"
  then have "n \<in> fst ` set (deltas b)"
    by (auto simp: groups_of_def intro: map_of_fst split: option.splits)
  then show ?thesis using b by (simp add: batch_ok_def set_groups_def fst_dict_set_mem)
qed

lemma apply_row_ok: "batch_ok b \<Longrightarrow> apply_row name r sg b = Inr b' \<Longrightarrow> batch_ok b' \<and> views_of b' = views_of b"
  by (auto simp: apply_row_def res_simps Let_def batch_ok_set_groups split: if_splits prod.splits)
     (auto simp: views_of_def set_groups_def)

lemma apply_truncate_ok:
  assumes "batch_ok b" "apply_truncate name b = Inr b'"
  shows "batch_ok b' \<and> views_of b' = views_of b"
proof -
  obtain p g gs where p: "map_of (plans b) name = Some p" and g: "groups_of b name = Inr g"
    and b': "b' = (set_groups name gs b)\<lparr>truncated := insert name (truncated b)\<rparr>"
    using assms(2) by (auto simp: apply_truncate_def res_simps get_plan_def Let_def split: option.splits)
  have "name \<in> fst ` set (plans b)" using p by (rule map_of_fst)
  then show ?thesis
    using batch_ok_set_groups [OF assms(1) g, of gs] by (auto simp: b' batch_ok_def views_of_def set_groups_def)
qed

section \<open>Empty batches\<close>

text \<open>is_empty() is true exactly of the batches whose statements() list is empty.\<close>
lemma is_empty_iff:
  assumes "batch_ok b"
  shows "is_empty b \<longleftrightarrow> statements b = Inr []"
proof -
  have names: "map fst (deltas b) = map fst (plans b)" "distinct (map fst (deltas b))"
    "truncated b \<subseteq> fst ` set (plans b)"
    using assms by (simp_all add: batch_ok_def)
  have "map view_name (views_of b) = map fst (plans b)"
    using assms by (auto simp: batch_ok_def views_of_def)
  then have vn: "fst ` set (plans b) = view_name ` set (views_of b)" by (metis list.set_map)
  have "list_all (\<lambda>(n, gs). gs = []) (deltas b) \<longleftrightarrow> (\<forall>n \<in> fst ` set (deltas b). groups_in b n = [])"
    using names(2) by (auto simp: list_all_iff groups_in_def)
  also have "fst ` set (deltas b) = view_name ` set (views_of b)"
    using names(1) vn by (metis list.set_map)
  finally have "is_empty b \<longleftrightarrow> truncated b = {} \<and> (\<forall>v \<in> set (views_of b). groups_in b (view_name v) = [])"
    by (simp add: is_empty_def)
  also have "\<dots> \<longleftrightarrow> stmts b = []"
    using names(3) vn by (auto simp: stmts_def filter_empty_conv concat_eq_Nil_conv needs_cleanup_def)
  also have "\<dots> \<longleftrightarrow> mapE render (stmts b) = Inr []"
    by (cases "stmts b") (auto simp: res_simps)
  finally show ?thesis using statements_text [OF assms] by simp
qed

definition small_view :: view_spec where
  "small_view = \<lparr>view_name = ''v'', source_schema = ''public'', source_table = ''t'', group_by = [''g''],
     aggregates = [\<lparr>agg_fn = ''sum'', agg_column = Some ''x'', agg_alias = ''s''\<rparr>]\<rparr>"

definition small_batch :: delta_batch where
  "small_batch = projr (bindE (new_batch [small_view]) (apply_truncate ''v''))"

lemma small_batch_ok: "batch_ok small_batch"
proof -
  have "\<not> isl (bindE (new_batch [small_view]) (apply_truncate ''v''))" by code_simp
  then have run: "bindE (new_batch [small_view]) (apply_truncate ''v'') = Inr small_batch" by (simp add: small_batch_def)
  then obtain b0 where b: "new_batch [small_view] = Inr b0" "apply_truncate ''v'' b0 = Inr small_batch"
    by (auto simp: bindE_eq_Inr)
  then show ?thesis using apply_truncate_ok [OF new_batch_ok] by blast
qed


lemma is_empty_small:
  "is_empty small_batch \<longleftrightarrow> statements small_batch = Inr []"
  by (rule is_empty_iff [OF small_batch_ok])

end
