(* ===== verification/Config.thy ===== *)
theory Config
  imports Target
begin

text \<open>
  \<open>walflux/config.py\<close>: validation of a parsed YAML document into a \<open>config\<close>.

  PyYAML is outside the program: \<open>yaml\<close> is the value tree \<open>safe_load\<close> can return, and
  \<open>file_outcome\<close> what opening and parsing the file comes to.  An exception keeps the kind of
  complaint and the offending name, not the wording.
\<close>

section \<open>Documents\<close>

text \<open>\<open>YOther b\<close> is a float, a date or another scalar whose truth value is \<open>b\<close>.\<close>

datatype yaml =
    YNull
  | YBool bool
  | YInt int
  | YStr string
  | YOther bool
  | YList "yaml list"
  | YMap "(yaml \<times> yaml) list"

text \<open>Bytes that are not UTF-8, or a scalar PyYAML cannot build, raise what no handler catches.\<close>

datatype file_outcome = FileNotFound | FileError | YamlError | ReadRaises exn | Parsed yaml

record config =
  dsn :: string
  slot :: string
  publication :: string
  batch_max_ms :: int
  batch_max_txns :: int
  views :: "view_spec list"

fun truthy :: "yaml \<Rightarrow> bool" where
  "truthy YNull = False"
| "truthy (YBool b) = b"
| "truthy (YInt n) = (n \<noteq> 0)"
| "truthy (YStr s) = (s \<noteq> [])"
| "truthy (YOther b) = b"
| "truthy (YList xs) = (xs \<noteq> [])"
| "truthy (YMap m) = (m \<noteq> [])"

text \<open>\<open>d.get(key)\<close>, and \<open>d.get(key) or {}\<close>.\<close>

definition yget :: "(yaml \<times> yaml) list \<Rightarrow> string \<Rightarrow> yaml" where
  "yget m k = (case map_of m (YStr k) of None \<Rightarrow> YNull | Some v \<Rightarrow> v)"

definition or_empty :: "yaml \<Rightarrow> yaml" where
  "or_empty v = (if truthy v then v else YMap [])"

section \<open>Checks\<close>

definition agg_fns :: "string list" where "agg_fns = [''count'', ''sum'', ''avg'']"
definition max_ident_bytes :: nat where "max_ident_bytes = 63"
definition storage_suffix_bytes :: nat where "storage_suffix_bytes = length ''__sum''"
definition reserved_suffixes :: "string list" where "reserved_suffixes = [''__sum'', ''__nn'']"

definition ends_with :: "string \<Rightarrow> string \<Rightarrow> bool" where
  "ends_with s t \<longleftrightarrow> length t \<le> length s \<and> drop (length s - length t) s = t"

definition require_mapping :: "yaml \<Rightarrow> string \<Rightarrow> (yaml \<times> yaml) list res" where
  "require_mapping v what = (case v of YMap m \<Rightarrow> Inr m | _ \<Rightarrow> Inl (ConfigError what))"

definition check_ident :: "yaml \<Rightarrow> string \<Rightarrow> string res" where
  "check_ident v what =
     (case v of
        YStr s \<Rightarrow>
          if \<not> ident_re_match s then Inl (ConfigError what)
          else if length s > max_ident_bytes then Inl (ConfigError what)
          else Inr s
      | _ \<Rightarrow> Inl (ConfigError what))"

definition positive_int :: "yaml \<Rightarrow> string \<Rightarrow> int \<Rightarrow> int res" where
  "positive_int v what dflt =
     (case v of
        YNull \<Rightarrow> Inr dflt
      | YInt n \<Rightarrow> if n \<le> 0 then Inl (ConfigError what) else Inr n
      | _ \<Rightarrow> Inl (ConfigError what))"

definition parse_source :: "yaml \<Rightarrow> (string \<times> string) res" where
  "parse_source v =
     (case v of
        YStr s \<Rightarrow>
          bindE (case py_split (CHR ''.'') s of
                   [t] \<Rightarrow> Inr (''public'', t)
                 | [sch, t] \<Rightarrow> Inr (sch, t)
                 | _ \<Rightarrow> Inl (ConfigError ''source''))
            (\<lambda>(schema, table).
              bindE (check_ident (YStr schema) ''source schema'') (\<lambda>_.
              bindE (check_ident (YStr table) ''source table'') (\<lambda>_. Inr (schema, table))))
      | _ \<Rightarrow> Inl (ConfigError ''source''))"

definition parse_fn :: "yaml \<Rightarrow> string res" where
  "parse_fn v =
     (case v of
        YStr s \<Rightarrow> if s \<in> set agg_fns then Inr s else Inl (ConfigError ''unknown fn'')
      | _ \<Rightarrow> Inl (ConfigError ''fn''))"

definition parse_column :: "string \<Rightarrow> yaml \<Rightarrow> string option res" where
  "parse_column f v =
     (if v = YNull
      then if f \<in> set [''sum'', ''avg''] then Inl (ConfigError ''fn requires a column'') else Inr None
      else bindE (check_ident v ''column'') (\<lambda>c. Inr (Some c)))"

text \<open>\<open>_parse_aggregate\<close>; the set of aliases seen so far is returned updated.\<close>

definition parse_aggregate :: "yaml \<Rightarrow> string list \<Rightarrow> string set \<Rightarrow> (agg_spec \<times> string set) res" where
  "parse_aggregate raw groups seen =
     bindE (require_mapping raw ''each aggregate'') (\<lambda>agg.
     bindE (parse_fn (yget agg ''fn'')) (\<lambda>f.
     bindE (if yget agg ''as'' = YNull then Inl (ConfigError ''missing as'')
            else check_ident (yget agg ''as'') ''aggregate alias'') (\<lambda>alias.
     bindE (parse_column f (yget agg ''column'')) (\<lambda>col.
       if alias \<in> seen then Inl (ConfigError ''duplicate aggregate alias'')
       else if alias \<in> set groups then Inl (ConfigError ''alias collides with a group_by column'')
       else if alias = rows_column \<or> list_ex (ends_with alias) reserved_suffixes
       then Inl (ConfigError ''alias is reserved'')
       else if f \<in> set [''sum'', ''avg''] \<and> length alias + storage_suffix_bytes > max_ident_bytes
       then Inl (ConfigError ''alias is too long'')
       else Inr (\<lparr>agg_fn = f, agg_column = col, agg_alias = alias\<rparr>, insert alias seen)))))"

definition parse_group_by :: "yaml \<Rightarrow> string list res" where
  "parse_group_by raw =
     (case (if raw = YNull then YList [] else raw) of
        YList xs \<Rightarrow>
          foldE (\<lambda>cols x.
            bindE (check_ident x ''group_by column'') (\<lambda>col.
              if col = rows_column then Inl (ConfigError ''group_by column is reserved'')
              else if col \<in> set cols then Inl (ConfigError ''group_by column is repeated'')
              else Inr (cols @ [col]))) [] xs
      | _ \<Rightarrow> Inl (ConfigError ''group_by must be a list''))"

definition parse_aggregates :: "yaml \<Rightarrow> string list \<Rightarrow> agg_spec list res" where
  "parse_aggregates raw groups =
     (if raw = YNull \<or> raw = YList [] then Inl (ConfigError ''at least one aggregate'')
      else (case raw of
              YList xs \<Rightarrow>
                bindE (foldE (\<lambda>(aggs, seen) x.
                         bindE (parse_aggregate x groups seen) (\<lambda>(a, seen). Inr (aggs @ [a], seen))) ([], {}) xs)
                  (\<lambda>(aggs, _). Inr aggs)
            | _ \<Rightarrow> Inl (ConfigError ''aggregates must be a list'')))"

definition parse_view :: "yaml \<Rightarrow> string set \<Rightarrow> (view_spec \<times> string set) res" where
  "parse_view raw seen =
     bindE (require_mapping raw ''each view'') (\<lambda>view.
     bindE (if yget view ''name'' = YNull then Inl (ConfigError ''missing name'')
            else check_ident (yget view ''name'') ''view name'') (\<lambda>name.
     if name \<in> seen then Inl (ConfigError ''duplicate view name'')
     else
     bindE (if yget view ''source'' = YNull then Inl (ConfigError ''missing source'')
            else parse_source (yget view ''source'')) (\<lambda>(schema, table).
     bindE (parse_group_by (yget view ''group_by'')) (\<lambda>groups.
     bindE (parse_aggregates (yget view ''aggregates'') groups) (\<lambda>aggs.
       Inr (\<lparr>view_name = name, source_schema = schema, source_table = table, group_by = groups,
             aggregates = aggs\<rparr>, insert name seen))))))"

definition parse_views :: "yaml \<Rightarrow> view_spec list res" where
  "parse_views raw =
     (if raw = YNull \<or> raw = YList [] then Inl (ConfigError ''at least one view'')
      else (case raw of
              YList xs \<Rightarrow>
                bindE (foldE (\<lambda>(vs, seen) x.
                         bindE (parse_view x seen) (\<lambda>(v, seen). Inr (vs @ [v], seen))) ([], {}) xs)
                  (\<lambda>(vs, _). Inr vs)
            | _ \<Rightarrow> Inl (ConfigError ''views must be a list'')))"

definition parse_dsn :: "string option \<Rightarrow> yaml \<Rightarrow> string res" where
  "parse_dsn env v =
     (case (case env of Some e \<Rightarrow> if e \<noteq> [] then YStr e else v | None \<Rightarrow> v) of
        YStr s \<Rightarrow> Inr s
      | _ \<Rightarrow> Inl (ConfigError ''dsn''))"

definition default_ident :: "string \<Rightarrow> yaml \<Rightarrow> string \<Rightarrow> string res" where
  "default_ident dflt v what = (if v = YNull then Inr dflt else check_ident v what)"

definition read_document :: "file_outcome \<Rightarrow> yaml res" where
  "read_document f =
     (case f of
        FileNotFound \<Rightarrow> Inl (ConfigError ''config file not found'')
      | FileError \<Rightarrow> Inl (ConfigError ''cannot read config file'')
      | YamlError \<Rightarrow> Inl (ConfigError ''invalid YAML'')
      | ReadRaises e \<Rightarrow> Inl e
      | Parsed v \<Rightarrow> Inr v)"

text \<open>\<open>load_config\<close>; \<open>env\<close> is the environment variable \<open>WALFLUX_DSN\<close>.\<close>

definition load_config :: "file_outcome \<Rightarrow> string option \<Rightarrow> config res" where
  "load_config f env =
     bindE (read_document f) (\<lambda>raw.
     bindE (require_mapping raw ''top-level config'') (\<lambda>doc.
     bindE (require_mapping (or_empty (yget doc ''database'')) ''database section'') (\<lambda>database.
     bindE (parse_dsn env (yget database ''dsn'')) (\<lambda>dsn.
     bindE (default_ident ''walflux'' (yget doc ''slot'') ''slot name'') (\<lambda>slot.
     bindE (default_ident ''walflux'' (yget doc ''publication'') ''publication name'') (\<lambda>publication.
     bindE (require_mapping (or_empty (yget doc ''batch'')) ''batch section'') (\<lambda>batch.
     bindE (positive_int (yget batch ''max_ms'') ''batch.max_ms'' 200) (\<lambda>ms.
     bindE (positive_int (yget batch ''max_txns'') ''batch.max_txns'' 500) (\<lambda>txns.
     bindE (parse_views (yget doc ''views'')) (\<lambda>vs.
       Inr \<lparr>dsn = dsn, slot = slot, publication = publication, batch_max_ms = ms,
            batch_max_txns = txns, views = vs\<rparr>))))))))))"

section \<open>What an accepted configuration satisfies\<close>

definition ident_ok :: "string \<Rightarrow> bool" where
  "ident_ok s \<longleftrightarrow> ident_re_match s \<and> length s \<le> 63"

definition agg_ok :: "string list \<Rightarrow> agg_spec \<Rightarrow> bool" where
  "agg_ok groups a \<longleftrightarrow>
     agg_fn a \<in> set agg_fns \<and> ident_ok (agg_alias a) \<and> pred_option ident_ok (agg_column a) \<and>
     agg_alias a \<notin> set groups \<and> agg_alias a \<noteq> rows_column \<and> \<not> list_ex (ends_with (agg_alias a)) reserved_suffixes \<and>
     (agg_fn a \<noteq> ''count'' \<longrightarrow> agg_column a \<noteq> None \<and> length (agg_alias a) + 5 \<le> 63)"

definition view_ok :: "view_spec \<Rightarrow> bool" where
  "view_ok v \<longleftrightarrow>
     ident_ok (view_name v) \<and> ident_ok (source_schema v) \<and> ident_ok (source_table v) \<and>
     list_all ident_ok (group_by v) \<and> distinct (group_by v) \<and> rows_column \<notin> set (group_by v) \<and>
     aggregates v \<noteq> [] \<and> list_all (agg_ok (group_by v)) (aggregates v) \<and>
     distinct (map agg_alias (aggregates v))"

lemma check_identD: "check_ident v w = Inr s \<Longrightarrow> ident_ok s"
  by (auto simp: check_ident_def ident_ok_def max_ident_bytes_def split: yaml.splits if_splits)

lemma check_ident_id: "check_ident (YStr s) w = Inr t \<Longrightarrow> t = s \<and> ident_ok s"
  by (auto simp: check_ident_def ident_ok_def max_ident_bytes_def split: if_splits)

lemma parse_aggregate_ok:
  assumes "parse_aggregate raw groups seen = Inr (a, seen')"
  shows "agg_ok groups a \<and> agg_alias a \<notin> seen \<and> seen' = insert (agg_alias a) seen"
proof -
  obtain m f al col where *: "parse_fn (yget m ''fn'') = Inr f" "ident_ok al"
      "parse_column f (yget m ''column'') = Inr col" "al \<notin> seen" "al \<notin> set groups" "al \<noteq> rows_column"
      "\<not> list_ex (ends_with al) reserved_suffixes"
      "\<not> (f \<in> set [''sum'', ''avg''] \<and> length al + storage_suffix_bytes > max_ident_bytes)"
      "a = \<lparr>agg_fn = f, agg_column = col, agg_alias = al\<rparr>" "seen' = insert al seen"
    using assms by (auto simp: parse_aggregate_def res_simps split: if_splits dest: check_identD)
  moreover have "f \<in> set agg_fns"
    using *(1) by (auto simp: parse_fn_def split: yaml.splits if_splits)
  moreover have "pred_option ident_ok col" "col = None \<Longrightarrow> f \<notin> set [''sum'', ''avg'']"
    using *(3) by (auto simp: parse_column_def res_simps split: if_splits dest: check_identD)
  ultimately show ?thesis
    by (auto simp: agg_ok_def agg_fns_def storage_suffix_bytes_def max_ident_bytes_def)
qed

lemma parse_aggregates_ok:
  assumes "parse_aggregates raw groups = Inr aggs"
  shows "aggs \<noteq> [] \<and> list_all (agg_ok groups) aggs \<and> distinct (map agg_alias aggs)"
proof -
  obtain ys seen where ys: "ys \<noteq> []" and run: "foldE (\<lambda>(aggs, seen) x.
      bindE (parse_aggregate x groups seen) (\<lambda>(a, seen). Inr (aggs @ [a], seen))) ([], {}) ys = Inr (aggs, seen)"
    using assms by (auto simp: parse_aggregates_def res_simps split: yaml.splits if_splits)
  let ?I = "\<lambda>(aggs, seen). seen = agg_alias ` set aggs \<and> list_all (agg_ok groups) aggs \<and> distinct (map agg_alias aggs)"
  have "?I (aggs, seen)"
    using run by (rule foldE_invariant) (auto simp: res_simps dest!: parse_aggregate_ok)
  moreover have "aggs \<noteq> []"
  proof -
    obtain x xs where xs: "ys = x # xs" using ys by (cases ys) auto
    obtain a s0 where "foldE (\<lambda>(aggs, seen) x.
        bindE (parse_aggregate x groups seen) (\<lambda>(a, seen). Inr (aggs @ [a], seen))) ([a], s0) xs = Inr (aggs, seen)"
      using run xs by (auto simp: res_simps)
    then have "(\<lambda>(aggs, _). aggs \<noteq> []) (aggs, seen)"
      by (rule foldE_invariant) (auto simp: res_simps)
    then show ?thesis by simp
  qed
  ultimately show ?thesis by simp
qed

lemma parse_group_by_ok:
  "parse_group_by raw = Inr cols \<Longrightarrow> list_all ident_ok cols \<and> distinct cols \<and> rows_column \<notin> set cols"
proof -
  assume "parse_group_by raw = Inr cols"
  then obtain xs where "foldE (\<lambda>cols x. bindE (check_ident x ''group_by column'') (\<lambda>col.
      if col = rows_column then Inl (ConfigError ''group_by column is reserved'')
      else if col \<in> set cols then Inl (ConfigError ''group_by column is repeated'')
      else Inr (cols @ [col]))) [] xs = Inr cols"
    by (auto simp: parse_group_by_def split: yaml.splits)
  then show ?thesis
    by (rule foldE_invariant) (auto simp: res_simps split: if_splits dest: check_identD)
qed

lemma parse_source_ok: "parse_source raw = Inr (sch, tab) \<Longrightarrow> ident_ok sch \<and> ident_ok tab"
  by (auto simp: parse_source_def res_simps split: yaml.splits dest!: check_ident_id)

lemma parse_view_ok:
  "parse_view raw seen = Inr (v, seen') \<Longrightarrow> view_ok v \<and> view_name v \<notin> seen \<and> seen' = insert (view_name v) seen"
  by (auto simp: parse_view_def view_ok_def res_simps split: if_splits
      dest!: parse_source_ok parse_group_by_ok parse_aggregates_ok dest: check_identD)

lemma parse_views_ok:
  assumes "parse_views raw = Inr vs"
  shows "list_all view_ok vs \<and> distinct (map view_name vs)"
proof -
  obtain xs seen where "foldE (\<lambda>(vs, seen) x.
      bindE (parse_view x seen) (\<lambda>(v, seen). Inr (vs @ [v], seen))) ([], {}) xs = Inr (vs, seen)"
    using assms by (auto simp: parse_views_def res_simps split: yaml.splits if_splits)
  then have "(\<lambda>(vs, seen). seen = view_name ` set vs \<and> list_all view_ok vs \<and> distinct (map view_name vs)) (vs, seen)"
    by (rule foldE_invariant) (auto simp: res_simps dest!: parse_view_ok)
  then show ?thesis by simp
qed

lemma positive_int_pos: "positive_int v w d = Inr n \<Longrightarrow> 0 < d \<Longrightarrow> 0 < n"
  by (auto simp: positive_int_def split: yaml.splits if_splits)

lemma load_config_ok:
  "load_config f env = Inr cfg \<Longrightarrow>
   list_all view_ok (views cfg) \<and> distinct (map view_name (views cfg)) \<and>
   0 < batch_max_ms cfg \<and> 0 < batch_max_txns cfg"
  by (auto simp: load_config_def res_simps dest!: parse_views_ok dest: positive_int_pos)

section \<open>Only ConfigError\<close>

definition raises_config :: "'a res \<Rightarrow> bool" where
  "raises_config m \<longleftrightarrow> (\<forall>e. m = Inl e \<longrightarrow> (\<exists>w. e = ConfigError w))"

named_theorems config_errors \<open>exceptions of the checks\<close>

lemma raises_config_bind [config_errors]:
  "raises_config m \<Longrightarrow> (\<And>a. raises_config (f a)) \<Longrightarrow> raises_config (bindE m f)"
  by (auto simp: raises_config_def res_simps)

lemma raises_config_base [config_errors]:
  "raises_config (Inr a)" "raises_config (Inl (ConfigError w))"
  by (auto simp: raises_config_def)

lemma raises_config_fold [config_errors]:
  "(\<And>s x. raises_config (f s x)) \<Longrightarrow> raises_config (foldE f s xs)"
  by (induction xs arbitrary: s) (auto intro!: config_errors)

lemma raises_config_checks [config_errors]:
  "raises_config (require_mapping v w)" "raises_config (check_ident v w)" "raises_config (positive_int v w d)"
  "raises_config (parse_fn v)" "raises_config (parse_dsn env v)"
  by (auto simp: require_mapping_def check_ident_def positive_int_def parse_fn_def parse_dsn_def
      intro!: config_errors split: yaml.splits option.splits)

lemma raises_config_source [config_errors]: "raises_config (parse_source v)"
  unfolding parse_source_def by (auto intro!: config_errors split: yaml.splits list.splits)

lemma raises_config_column [config_errors]: "raises_config (parse_column f v)" "raises_config (default_ident d v w)"
  unfolding parse_column_def default_ident_def by (auto intro!: config_errors)

lemma raises_config_aggregate [config_errors]: "raises_config (parse_aggregate raw groups seen)"
  unfolding parse_aggregate_def by (auto intro!: config_errors)

lemma raises_config_lists [config_errors]:
  "raises_config (parse_group_by v)" "raises_config (parse_aggregates v groups)"
  unfolding parse_group_by_def parse_aggregates_def
  by (auto intro!: config_errors split: yaml.splits prod.splits)

lemma raises_config_view [config_errors]: "raises_config (parse_view raw seen)"
  unfolding parse_view_def by (auto intro!: config_errors)

lemma raises_config_views [config_errors]: "raises_config (parse_views v)"
  unfolding parse_views_def by (auto intro!: config_errors split: yaml.splits prod.splits)

text \<open>C33: load_config either returns a configuration or raises ConfigError, except for an exception that reading the file itself raises outside the handled classes.\<close>
theorem load_config_errors:
  "load_config f env \<in> Inr ` UNIV \<union> Inl ` (range ConfigError \<union> {e. f = ReadRaises e})"
proof -
  have "raises_config (load_config f env)" if "\<And>e. f \<noteq> ReadRaises e"
  proof -
    have "raises_config (read_document f)"
      using that by (cases f) (auto simp: read_document_def intro: config_errors)
    then show ?thesis unfolding load_config_def by (intro config_errors)
  qed
  then show ?thesis
    by (cases "load_config f env"; cases f) (auto simp: raises_config_def load_config_def read_document_def)
qed

section \<open>An accepted configuration can be run\<close>

text \<open>
  The names validation lets through that the rest of the program cannot use: one that ends in a
  newline, a group column that is another aggregate's storage column, and the constant key column
  of a view without groups.
\<close>

definition no_newline :: "string \<Rightarrow> bool" where
  "no_newline s \<longleftrightarrow> newline \<notin> set s"

definition names_clean :: "view_spec \<Rightarrow> bool" where
  "names_clean v \<longleftrightarrow>
     list_all no_newline (view_name v # group_by v) \<and>
     list_all (\<lambda>a. no_newline (agg_alias a) \<and> pred_option no_newline (agg_column a)) (aggregates v) \<and>
     list_all (\<lambda>c. \<not> list_ex (ends_with c) reserved_suffixes) (group_by v) \<and>
     global_key_column \<notin> agg_alias ` set (aggregates v)"

lemma ident_ok_plain: "ident_ok s \<Longrightarrow> no_newline s \<Longrightarrow> plain_ident s"
  by (auto simp: ident_ok_def ident_re_match_iff no_newline_def)

lemma ident_ok_quote: "ident_ok s \<Longrightarrow> no_newline s \<Longrightarrow> quote_ident s = Inr (CHR 0x22 # s @ [CHR 0x22])"
  by (rule quote_ident_plain) (auto intro: ident_ok_plain simp: ident_ok_def)

lemma suffix_quote:
  assumes "ident_ok s" "no_newline s" "length s + length t \<le> 63" "list_all ident_char t"
  shows "quote_ident (s @ t) = Inr (CHR 0x22 # (s @ t) @ [CHR 0x22])"
proof (rule quote_ident_plain)
  show "plain_ident (s @ t)"
    using ident_ok_plain [OF assms(1,2)] assms(4) by (cases s) (auto simp: plain_ident_def)
qed (use assms(3) in simp)

lemma suffix_chars: "list_all ident_char ''__sum''" "list_all ident_char ''__nn''"
  by (simp_all add: ident_char_def ident_start_def Let_def)

lemma fixed_idents: "\<exists>q. quote_ident rows_column = Inr q" "\<exists>q. quote_ident global_key_column = Inr q"
    "\<exists>q. quote_ident target_schema = Inr q"
  by (auto simp: rows_column_def global_key_column_def target_schema_def quote_ident_def ident_re_match_def
      plain_ident_def ident_char_def ident_start_def newline_def Let_def)

definition storage_of :: "agg_spec \<Rightarrow> string list" where
  "storage_of a = (if agg_fn a = ''count'' then [agg_alias a] else [agg_alias a @ ''__sum'', agg_alias a @ ''__nn''])"

lemma agg_storage_ok:
  assumes "agg_ok groups a" "no_newline (agg_alias a)" "pred_option no_newline (agg_column a)"
  shows "\<exists>ss. agg_storage a = Inr ss \<and> map st_name ss = storage_of a \<and>
           (\<forall>n \<in> set (storage_of a). \<exists>q. quote_ident n = Inr q)"
proof -
  have al: "ident_ok (agg_alias a)" using assms(1) by (simp add: agg_ok_def)
  have col: "\<exists>q. quote_ident c = Inr q" if "agg_column a = Some c" for c
    using that assms by (auto simp: agg_ok_def intro: ident_ok_quote)
  have suf: "\<exists>q. quote_ident (agg_alias a @ t) = Inr q" if "agg_fn a \<noteq> ''count''" "t \<in> set reserved_suffixes" for t
    using suffix_quote [OF al assms(2), of t] that assms(1) suffix_chars
    by (auto simp: agg_ok_def reserved_suffixes_def)
  show ?thesis
    using assms(1) col suf ident_ok_quote [OF al assms(2)]
    by (cases "agg_column a")
       (auto simp: agg_storage_def storage_of_def agg_ok_def agg_fns_def reserved_suffixes_def)
qed

lemma names_clean_agg:
  "names_clean v \<Longrightarrow> a \<in> set (aggregates v) \<Longrightarrow> no_newline (agg_alias a) \<and> pred_option no_newline (agg_column a)"
  by (auto simp: names_clean_def list_all_iff)

lemma view_storage_ok:
  assumes "list_all (agg_ok groups) as" "\<forall>a \<in> set as. no_newline (agg_alias a) \<and> pred_option no_newline (agg_column a)"
  shows "\<exists>sss. mapE agg_storage as = Inr sss \<and> map st_name (concat sss) = concat (map storage_of as)"
  using assms
proof (induction as)
  case (Cons a as)
  have "\<exists>ss. agg_storage a = Inr ss \<and> map st_name ss = storage_of a"
    using Cons.prems agg_storage_ok [of groups a] by auto
  then show ?case using Cons by auto
qed simp

lemma mapE_total_ex: "(\<And>x. x \<in> set xs \<Longrightarrow> \<exists>y. f x = Inr y) \<Longrightarrow> \<exists>ys. mapE f xs = Inr ys"
proof (induction xs)
  case (Cons x xs)
  then obtain y ys where "f x = Inr y" "mapE f xs = Inr ys" by fastforce
  then show ?case by simp
qed simp

lemma build_plan_ok:
  assumes v: "view_ok v" and c: "names_clean v"
  shows "\<exists>p. build_plan v = Inr p" "storage_names v = concat (map storage_of (aggregates v))"
proof -
  have aggs: "list_all (agg_ok (group_by v)) (aggregates v)" using v by (simp add: view_ok_def)
  obtain sss where sss: "mapE agg_storage (aggregates v) = Inr sss"
      "map st_name (concat sss) = concat (map storage_of (aggregates v))"
    using view_storage_ok [OF aggs] names_clean_agg [OF c] by blast
  then show st: "storage_names v = concat (map storage_of (aggregates v))"
    by (simp add: storage_names_def view_storage_def)
  have quotable: "\<exists>q. quote_ident s = Inr q" if "ident_ok s" "no_newline s" for s
    using ident_ok_quote [OF that] by blast
  have name: "\<exists>q. quote_ident (view_name v) = Inr q" "\<And>g. g \<in> set (group_by v) \<Longrightarrow> \<exists>q. quote_ident g = Inr q"
    using v c by (auto simp: view_ok_def names_clean_def list_all_iff intro!: quotable)
  have sts: "\<exists>q. quote_ident n = Inr q" if "n \<in> set (map st_name (concat sss))" for n
    using that sss(2) agg_storage_ok names_clean_agg [OF c] aggs by (fastforce simp: list_all_iff)
  have keys: "\<exists>q. quote_ident k = Inr q" if "k \<in> set (key_columns v)" for k
    using that name(2) fixed_idents(2) by (auto simp: key_columns_def split: if_splits)
  have cols: "\<exists>q. quote_ident k = Inr q" if "k \<in> set (insert_columns v (concat sss))" for k
  proof -
    from that consider "k \<in> set (key_columns v)" | "k = rows_column" | "k \<in> set (map st_name (concat sss))"
      by (auto simp: insert_columns_def)
    then show ?thesis using keys sts fixed_idents(1) by cases auto
  qed
  obtain t where t: "target v = Inr t" using name(1) fixed_idents(3) by (auto simp: target_def)
  have us: "\<exists>us. mapE (update_clause t) (rows_column # map st_name (concat sss)) = Inr us" for t
  proof (rule mapE_total_ex)
    fix x assume "x \<in> set (rows_column # map st_name (concat sss))"
    then obtain q where "quote_ident x = Inr q" using sts fixed_idents(1) by auto
    then show "\<exists>y. update_clause t x = Inr y" by (simp add: update_clause_def)
  qed
  have ks: "\<exists>ks. quoted_list (key_columns v) = Inr ks" "\<exists>cs. quoted_list (insert_columns v (concat sss)) = Inr cs"
    using mapE_total_ex [of "key_columns v" quote_ident] keys
      mapE_total_ex [of "insert_columns v (concat sss)" quote_ident] cols
    by (fastforce simp: quoted_list_def)+
  obtain us' where "mapE (update_clause t) (rows_column # map st_name (concat sss)) = Inr us'" using us by blast
  with ks show "\<exists>p. build_plan v = Inr p"
    using sss(1) t by (auto simp only: build_plan_def view_storage_def bindE_Inr)
qed

text \<open>The storage columns of a view are distinct, and differ from every reserved column.\<close>

lemma ends_with_append [simp]: "ends_with (s @ t) t"
  by (simp add: ends_with_def)

lemma ends_with_iff: "ends_with s t \<longleftrightarrow> (\<exists>u. s = u @ t)"
  by (auto simp: ends_with_def) (metis append_take_drop_id)

lemma storage_of_cases:
  "n \<in> set (storage_of a) \<Longrightarrow>
   n = agg_alias a \<and> agg_fn a = ''count'' \<or>
   (\<exists>t \<in> set reserved_suffixes. n = agg_alias a @ t \<and> agg_fn a \<noteq> ''count'')"
  by (auto simp: storage_of_def reserved_suffixes_def split: if_splits)

lemma suffix_differ: "s @ ''__sum'' \<noteq> u @ ''__nn''"
proof
  assume "s @ ''__sum'' = u @ ''__nn''"
  then have "last (s @ ''__sum'') = last (u @ ''__nn'')" by simp
  then show False by simp
qed

lemma storage_of_disjoint:
  assumes "agg_ok groups a" "agg_ok groups b" "agg_alias a \<noteq> agg_alias b"
  shows "set (storage_of a) \<inter> set (storage_of b) = {}"
proof -
  have ends: "agg_alias x \<noteq> u @ t" if "agg_ok groups x" "t \<in> set reserved_suffixes" for x u t
    using that by (auto simp: agg_ok_def list_ex_iff)
  have suffix: "t = t'" if "u @ t = w @ t'" "t \<in> set reserved_suffixes" "t' \<in> set reserved_suffixes" for u w t t' :: string
    using that suffix_differ [of u w] suffix_differ [of w u] by (auto simp: reserved_suffixes_def)
  have False if a: "n \<in> set (storage_of a)" and b: "n \<in> set (storage_of b)" for n
    using storage_of_cases [OF a]
  proof
    assume n: "n = agg_alias a \<and> agg_fn a = ''count''"
    from storage_of_cases [OF b] show False
      using n assms(3) ends [OF assms(1)] by metis
  next
    assume "\<exists>t \<in> set reserved_suffixes. n = agg_alias a @ t \<and> agg_fn a \<noteq> ''count''"
    then obtain t where t: "t \<in> set reserved_suffixes" "n = agg_alias a @ t" by blast
    from storage_of_cases [OF b] show False
      using t assms(3) ends [OF assms(2) t(1), of "agg_alias a"] suffix [of "agg_alias a" t "agg_alias b"]
      by (metis append_same_eq)
  qed
  then show ?thesis by blast
qed

lemma storage_distinct:
  "list_all (agg_ok groups) as \<Longrightarrow> distinct (map agg_alias as) \<Longrightarrow> distinct (concat (map storage_of as))"
proof (induction as)
  case (Cons a as)
  have "set (storage_of a) \<inter> set (storage_of b) = {}" if "b \<in> set as" for b
    using that Cons.prems by (intro storage_of_disjoint) (auto simp: list_all_iff)
  moreover have "distinct (storage_of a)" by (simp add: storage_of_def)
  ultimately show ?case using Cons by auto
qed simp

lemma all_columns_distinct:
  assumes v: "view_ok v" and c: "names_clean v"
  shows "distinct (all_columns v)"
proof -
  have fixed: "\<not> ends_with rows_column t" "\<not> ends_with global_key_column t" if "t \<in> set reserved_suffixes" for t
    using that by (auto simp: ends_with_def rows_column_def global_key_column_def reserved_suffixes_def)
  have st: "n \<noteq> rows_column \<and> n \<notin> set (key_columns v)" if n: "n \<in> set (storage_names v)" for n
  proof -
    obtain a where a: "a \<in> set (aggregates v)" "n \<in> set (storage_of a)"
      using n build_plan_ok(2) [OF v c] by auto
    have ok: "agg_ok (group_by v) a" using a(1) v by (auto simp: view_ok_def list_all_iff)
    from storage_of_cases [OF a(2)] show ?thesis
    proof
      assume "n = agg_alias a \<and> agg_fn a = ''count''"
      then show ?thesis
        using ok a(1) c by (auto simp: agg_ok_def key_columns_def names_clean_def image_iff)
    next
      assume "\<exists>t \<in> set reserved_suffixes. n = agg_alias a @ t \<and> agg_fn a \<noteq> ''count''"
      then obtain t where t: "t \<in> set reserved_suffixes" "ends_with n t" by auto
      then have "n \<notin> set (group_by v)" using c by (auto simp: names_clean_def list_all_iff list_ex_iff)
      moreover have "n \<noteq> rows_column" "n \<noteq> global_key_column" using fixed t by auto
      ultimately show ?thesis by (simp add: key_columns_def)
    qed
  qed
  have "distinct (storage_names v)"
    using v storage_distinct build_plan_ok(2) [OF v c] by (auto simp: view_ok_def)
  moreover have "distinct (key_columns v)" "rows_column \<notin> set (key_columns v)"
    using v by (auto simp: key_columns_def view_ok_def rows_column_def global_key_column_def)
  ultimately show ?thesis using st by (auto simp: all_columns_def delta_columns_def)
qed


section \<open>Accepted configurations with unusable names\<close>

text \<open>
  A grouping column that is the storage column of an aggregate, and the constant key column as an
  alias of a view without groups, pass every check and give a table two columns of one name.
\<close>

definition one_view :: "yaml list \<Rightarrow> string \<Rightarrow> string \<Rightarrow> yaml" where
  "one_view groups fn alias_name = YMap
     [(YStr ''database'', YMap [(YStr ''dsn'', YStr ''d'')]),
      (YStr ''views'', YList
        [YMap [(YStr ''name'', YStr ''v''), (YStr ''source'', YStr ''t''), (YStr ''group_by'', YList groups),
           (YStr ''aggregates'', YList
             [YMap [(YStr ''fn'', YStr fn), (YStr ''column'', YStr ''x''), (YStr ''as'', YStr alias_name)]])]])]"

lemma duplicate_storage_column:
  "case load_config (Parsed (one_view [YStr ''a__sum''] ''sum'' ''a'')) None of
     Inr cfg \<Rightarrow> map all_columns (views cfg) = [[''a__sum'', ''__walflux_rows'', ''a__sum'', ''a__nn'']] | Inl _ \<Rightarrow> False"
  by code_simp

lemma duplicate_key_column:
  "case load_config (Parsed (one_view [] ''count'' ''__walflux_all'')) None of
     Inr cfg \<Rightarrow> map all_columns (views cfg) = [[''__walflux_all'', ''__walflux_rows'', ''__walflux_all'']] | Inl _ \<Rightarrow> False"
  by code_simp

end
