(* ===== verification/Execution.thy ===== *)
theory Execution
  imports Target
begin

text \<open>
  The meaning of a batch's statements on the target tables.

  A table is a list of rows, a row a function from column names to stored values.  A target table
  with one row per group is \<open>rows_of cols G\<close>, where \<open>G\<close> lists each group's key and numbers; on
  such tables the three statements are the emptying, the additive update and the filtering of
  \<open>G\<close>, which \<open>exec_groups\<close> then sums up over a whole batch.
\<close>

section \<open>Stored values\<close>

type_synonym cell = "eqkey option"
type_synonym trow = "string \<Rightarrow> cell"
type_synonym table = "trow list"
type_synonym db = "string \<Rightarrow> table"

abbreviation (input) sql_null :: cell where "sql_null \<equiv> Some KNone"

text \<open>\<open>+\<close> on number columns: NULL first, then NaN, then the infinities.\<close>

fun cell_add :: "cell \<Rightarrow> cell \<Rightarrow> cell" where
  "cell_add (Some KNone) _ = sql_null"
| "cell_add _ (Some KNone) = sql_null"
| "cell_add (Some (KNum a)) (Some (KNum b)) = Some (KNum (a + b))"
| "cell_add (Some (KInf s)) (Some (KNum b)) = Some (KInf s)"
| "cell_add (Some (KNum a)) (Some (KInf t)) = Some (KInf t)"
| "cell_add (Some (KInf s)) (Some (KInf t)) = (if s = t then Some (KInf s) else None)"
| "cell_add _ _ = None"

text \<open>\<open>c <= 0\<close> is true; a NULL is not, a NaN is above every number.\<close>

fun cell_le0 :: "cell \<Rightarrow> bool" where
  "cell_le0 (Some (KNum a)) = (a \<le> 0)"
| "cell_le0 (Some (KInf s)) = s"
| "cell_le0 _ = False"

definition cells_row :: "string list \<Rightarrow> cell list \<Rightarrow> trow" where
  "cells_row cols cs c = (case map_of (zip cols cs) c of None \<Rightarrow> sql_null | Some v \<Rightarrow> v)"

definition same_key :: "string list \<Rightarrow> trow \<Rightarrow> trow \<Rightarrow> bool" where
  "same_key keys r r' \<longleftrightarrow> list_all (\<lambda>c. r c = r' c) keys"

definition upsert_table :: "string list \<Rightarrow> string list \<Rightarrow> trow \<Rightarrow> table \<Rightarrow> table" where
  "upsert_table keys upd new T =
     (if list_ex (same_key keys new) T
      then map (\<lambda>r. if same_key keys new r
                    then (\<lambda>c. if c \<in> set upd then cell_add (r c) (new c) else r c) else r) T
      else T @ [new])"

fun stmt_target :: "stmt \<Rightarrow> string" where
  "stmt_target (DeleteAll n) = n"
| "stmt_target (Upsert n cols keys upd params) = n"
| "stmt_target (Cleanup n) = n"

fun exec_table :: "stmt \<Rightarrow> table \<Rightarrow> table" where
  "exec_table (DeleteAll n) T = []"
| "exec_table (Upsert n cols keys upd params) T =
     upsert_table keys upd (cells_row cols (map eq_key params)) T"
| "exec_table (Cleanup n) T = filter (\<lambda>r. \<not> cell_le0 (r rows_column)) T"

definition exec_stmt :: "stmt \<Rightarrow> db \<Rightarrow> db" where
  "exec_stmt s db = db(stmt_target s := exec_table s (db (stmt_target s)))"

definition exec_stmts :: "stmt list \<Rightarrow> db \<Rightarrow> db" where
  "exec_stmts ss db = fold exec_stmt ss db"

lemma exec_stmts_append: "exec_stmts (ss @ ts) db = exec_stmts ts (exec_stmts ss db)"
  by (simp add: exec_stmts_def)

section \<open>Tables of groups\<close>

definition num_cells :: "rat list \<Rightarrow> cell list" where
  "num_cells v = map (Some \<circ> KNum) v"

definition group_row :: "string list \<Rightarrow> cell list \<times> rat list \<Rightarrow> trow" where
  "group_row cols kv = cells_row cols (fst kv @ num_cells (snd kv))"

definition rows_of :: "string list \<Rightarrow> (cell list \<times> rat list) list \<Rightarrow> table" where
  "rows_of cols G = map (group_row cols) G"

text \<open>The shape of a target table: distinct columns, keys then numbers.\<close>

definition shaped :: "string list \<Rightarrow> string list \<Rightarrow> cell list \<times> rat list \<Rightarrow> bool" where
  "shaped keys upd kv \<longleftrightarrow> length (fst kv) = length keys \<and> length (snd kv) = length upd"

lemma map_cells_row: "distinct cols \<Longrightarrow> length cs = length cols \<Longrightarrow> map (cells_row cols cs) cols = cs"
proof (rule nth_equalityI)
  fix i
  assume *: "distinct cols" "length cs = length cols" "i < length (map (cells_row cols cs) cols)"
  then have "map_of (zip cols cs) (cols ! i) = Some (cs ! i)"
    by (intro map_of_zip_nth) auto
  with * show "map (cells_row cols cs) cols ! i = cs ! i"
    by (simp add: cells_row_def)
qed simp

lemma cells_row_outside: "c \<notin> set cols \<Longrightarrow> length cs = length cols \<Longrightarrow> cells_row cols cs c = sql_null"
  by (simp add: cells_row_def map_of_zip_is_None [THEN iffD2])

lemma group_row_parts:
  assumes "distinct (keys @ upd)" "shaped keys upd kv"
  shows "map (group_row (keys @ upd) kv) keys = fst kv"
    "map (group_row (keys @ upd) kv) upd = num_cells (snd kv)"
proof -
  have "map (group_row (keys @ upd) kv) (keys @ upd) = fst kv @ num_cells (snd kv)"
    unfolding group_row_def using assms
    by (intro map_cells_row) (auto simp: shaped_def num_cells_def)
  then show "map (group_row (keys @ upd) kv) keys = fst kv"
    "map (group_row (keys @ upd) kv) upd = num_cells (snd kv)"
    using assms(2) by (auto simp: shaped_def append_eq_append_conv)
qed

lemma same_key_iff: "same_key keys r r' \<longleftrightarrow> map r keys = map r' keys"
  by (simp add: same_key_def list_all_iff)

text \<open>Two rows are equal once they agree on the columns.\<close>

lemma row_eqI:
  assumes "distinct cols" "length cs = length cols"
    and "map r cols = cs" "\<And>c. c \<notin> set cols \<Longrightarrow> r c = sql_null"
  shows "r = cells_row cols cs"
proof
  fix c
  have "map r cols = map (cells_row cols cs) cols" using map_cells_row assms(1-3) by simp
  then show "r c = cells_row cols cs c"
    using assms(4) cells_row_outside [OF _ assms(2)] by (cases "c \<in> set cols") auto
qed

lemma upsert_one_row:
  assumes d: "distinct (keys @ upd)" and "shaped keys upd (k, v)" "shaped keys upd (k, w)"
  shows "(\<lambda>c. if c \<in> set upd then cell_add (group_row (keys @ upd) (k, w) c) (group_row (keys @ upd) (k, v) c)
              else group_row (keys @ upd) (k, w) c)
    = group_row (keys @ upd) (k, map2 (+) w v)"
proof -
  let ?old = "group_row (keys @ upd) (k, w)" and ?new = "group_row (keys @ upd) (k, v)"
  let ?r = "\<lambda>c. if c \<in> set upd then cell_add (?old c) (?new c) else ?old c"
  note old = group_row_parts [OF d assms(3)] and new = group_row_parts [OF d assms(2)]
  have "map ?r keys = map ?old keys" using d by (intro map_cong) auto
  then have "map ?r keys = k" using old(1) by simp
  moreover have "map ?r upd = num_cells (map2 (+) w v)"
  proof -
    have "map ?r upd = map (\<lambda>c. cell_add (?old c) (?new c)) upd" by (intro map_cong) auto
    also have "\<dots> = map2 cell_add (map ?old upd) (map ?new upd)"
      by (simp add: zip_map_map zip_same_conv_map)
    finally have "map ?r upd = map2 cell_add (map ?old upd) (map ?new upd)" .
    then show ?thesis
      unfolding old(2) new(2) by (auto simp: num_cells_def map2_map_map zip_map_map intro: map_cong)
  qed
  moreover have "?old c = sql_null" if "c \<notin> set (keys @ upd)" for c
    unfolding group_row_def using that assms(3) by (intro cells_row_outside) (auto simp: shaped_def num_cells_def)
  ultimately show ?thesis
    unfolding group_row_def [of _ "(k, map2 (+) w v)"]
    using d assms(2,3) by (intro row_eqI) (auto simp: shaped_def num_cells_def)
qed

section \<open>The statements on a table of groups\<close>

definition upsert_group :: "cell list \<Rightarrow> rat list \<Rightarrow> (cell list \<times> rat list) list \<Rightarrow> (cell list \<times> rat list) list" where
  "upsert_group k v G =
     AList.update k (case map_of G k of None \<Rightarrow> v | Some w \<Rightarrow> map2 (+) w v) G"

lemma upsert_rows_of:
  assumes d: "distinct (keys @ upd)" and kv: "shaped keys upd (k, v)"
    and G: "list_all (shaped keys upd) G" "distinct (map fst G)"
  shows "upsert_table keys upd (group_row (keys @ upd) (k, v)) (rows_of (keys @ upd) G)
    = rows_of (keys @ upd) (upsert_group k v G)"
proof -
  let ?row = "group_row (keys @ upd)"
  let ?new = "?row (k, v)"
  let ?upd = "\<lambda>r. if same_key keys ?new r then (\<lambda>c. if c \<in> set upd then cell_add (r c) (?new c) else r c) else r"
  have key: "same_key keys ?new (?row q) \<longleftrightarrow> fst q = k" if "shaped keys upd q" for q
    using group_row_parts(1) [OF d kv] group_row_parts(1) [OF d that] by (auto simp: same_key_iff)
  have absent: "AList.update k x H = H @ [(k, x)]" if "k \<notin> fst ` set H" for x :: "rat list" and H
    using that by (induction H) auto
  show ?thesis
  proof (cases "k \<in> fst ` set G")
    case False
    then have "\<not> list_ex (same_key keys ?new) (rows_of (keys @ upd) G)"
      using G(1) key by (auto simp: rows_of_def list_ex_iff list_all_iff)
    moreover have "map_of G k = None" using False by (simp add: map_of_eq_None_iff)
    ultimately show ?thesis
      using absent [OF False] by (simp add: upsert_table_def upsert_group_def rows_of_def)
  next
    case True
    then have "list_ex (same_key keys ?new) (rows_of (keys @ upd) G)"
      using G(1) key by (fastforce simp: rows_of_def list_ex_iff list_all_iff)
    moreover have "map ?upd (rows_of (keys @ upd) G) = rows_of (keys @ upd) (upsert_group k v G)"
      using True G
    proof (induction G)
      case (Cons q G)
      obtain k' w where q: "q = (k', w)" by (cases q)
      have sh: "shaped keys upd (k', w)" using Cons.prems(2) q by simp
      show ?case
      proof (cases "k' = k")
        case True
        have "map ?upd (rows_of (keys @ upd) G) = rows_of (keys @ upd) G"
          using Cons.prems(2,3) key q True by (auto simp: rows_of_def list_all_iff intro!: map_idI)
        moreover have "?upd (?row (k, w)) = ?row (k, map2 (+) w v)"
          using upsert_one_row [OF d kv, of w] sh key [OF sh] True by simp
        ultimately show ?thesis using True q by (simp add: rows_of_def upsert_group_def)
      next
        case False
        then have "map ?upd (rows_of (keys @ upd) G) = rows_of (keys @ upd) (upsert_group k v G)"
          using Cons q by auto
        then show ?thesis using False q key [OF sh] by (simp add: rows_of_def upsert_group_def)
      qed
    qed simp
    ultimately show ?thesis by (simp add: upsert_table_def)
  qed
qed

lemma cleanup_rows_of:
  assumes d: "distinct (keys @ rows_column # sts)"
    and G: "list_all (shaped keys (rows_column # sts)) G"
  shows "filter (\<lambda>r. \<not> cell_le0 (r rows_column)) (rows_of (keys @ rows_column # sts) G)
    = rows_of (keys @ rows_column # sts) (filter (\<lambda>(k, v). 0 < hd v) G)"
proof -
  have "\<not> cell_le0 (group_row (keys @ rows_column # sts) (k, v) rows_column) \<longleftrightarrow> 0 < hd v"
    if "(k, v) \<in> set G" for k v
  proof -
    have sh: "shaped keys (rows_column # sts) (k, v)" using G that by (auto simp: list_all_iff)
    from group_row_parts(2) [OF d sh] have
      "group_row (keys @ rows_column # sts) (k, v) rows_column = hd (num_cells v)"
      by (metis list.map_sel(1) list.sel(1) list.discI snd_conv)
    moreover have "v \<noteq> []" using sh by (auto simp: shaped_def)
    ultimately show ?thesis by (cases v) (auto simp: num_cells_def)
  qed
  then show ?thesis
    unfolding rows_of_def filter_map by (intro arg_cong [where f = "map _"] filter_cong) auto
qed

lemma upsert_group_shape:
  assumes "list_all (shaped keys upd) G" "distinct (map fst G)" "shaped keys upd (k, v)"
  shows "list_all (shaped keys upd) (upsert_group k v G)" "distinct (map fst (upsert_group k v G))"
proof -
  let ?x = "case map_of G k of None \<Rightarrow> v | Some w \<Rightarrow> map2 (+) w v"
  have "shaped keys upd (k, ?x)"
    using assms(1,3) by (auto simp: shaped_def list_all_iff split: option.split dest!: map_of_SomeD)
  moreover have "set (AList.update k ?x G) \<subseteq> insert (k, ?x) (set G)"
    by (induction G) auto
  ultimately show "list_all (shaped keys upd) (upsert_group k v G)"
    using assms(1) by (auto simp: upsert_group_def list_all_iff)
  show "distinct (map fst (upsert_group k v G))"
    using assms(2) by (simp add: upsert_group_def distinct_update)
qed

lemma map_of_upsert_group:
  "map_of (upsert_group k v G) =
     (map_of G)(k \<mapsto> (case map_of G k of None \<Rightarrow> v | Some w \<Rightarrow> map2 (+) w v))"
  by (simp add: upsert_group_def update_conv')

section \<open>A batch on one target table\<close>

text \<open>Only the statements that name a table touch it.\<close>

lemma exec_stmts_table:
  "exec_stmts ss db n = fold exec_table (filter (\<lambda>s. stmt_target s = n) ss) (db n)"
  by (induction ss arbitrary: db) (auto simp: exec_stmts_def exec_stmt_def)

definition view_stmts :: "delta_batch \<Rightarrow> view_spec \<Rightarrow> stmt list" where
  "view_stmts b v =
     (if view_name v \<in> truncated b then [DeleteAll (view_name v)] else []) @
     map (\<lambda>(key, ds). upsert_of v key ds) (groups_in b (view_name v)) @
     (if needs_cleanup b v then [Cleanup (view_name v)] else [])"

lemma filter_distinct_names:
  "distinct (map view_name vs) \<Longrightarrow> v \<in> set vs \<Longrightarrow> filter (\<lambda>u. view_name u = view_name v) vs = [v]"
  by (induction vs) (auto simp: filter_empty_conv image_iff)

lemma filter_concat_map:
  "(\<And>x y. x \<in> set xs \<Longrightarrow> y \<in> set (g x) \<Longrightarrow> P y = Q x) \<Longrightarrow>
   filter P (concat (map g xs)) = concat (map g (filter Q xs))"
proof (induction xs)
  case (Cons x xs)
  then have "filter P (g x) = (if Q x then g x else [])"
    by (auto simp: filter_empty_conv intro: filter_True)
  with Cons show ?case by auto
qed simp

lemma stmts_view:
  assumes "distinct (map view_name (views_of b))" "v \<in> set (views_of b)"
  shows "filter (\<lambda>s. stmt_target s = view_name v) (stmts b) = view_stmts b v"
proof -
  note one = filter_distinct_names [OF assms]
  have single: "filter (\<lambda>s. stmt_target s = view_name v) (map f (filter P (views_of b))) = (if P v then [f v] else [])"
    if "\<And>u. stmt_target (f u) = view_name u" for f P
  proof -
    have "filter (\<lambda>s. stmt_target s = view_name v) (map f (filter P (views_of b)))
        = map f (filter P (filter (\<lambda>u. view_name u = view_name v) (views_of b)))"
      using that by (simp add: filter_map o_def conj_commute)
    then show ?thesis by (simp add: one)
  qed
  have "filter (\<lambda>s. stmt_target s = view_name v)
        (concat (map (\<lambda>v. map (\<lambda>(key, ds). upsert_of v key ds) (groups_in b (view_name v))) (views_of b)))
      = map (\<lambda>(key, ds). upsert_of v key ds) (groups_in b (view_name v))"
    by (subst filter_concat_map [where Q = "\<lambda>u. view_name u = view_name v"])
       (auto simp: upsert_of_def one)
  then show ?thesis
    by (simp add: stmts_def view_stmts_def single)
qed

lemma stmts_other_table: "n \<notin> view_name ` set (views_of b) \<Longrightarrow> exec_stmts (stmts b) db n = db n"
proof -
  assume n: "n \<notin> view_name ` set (views_of b)"
  have "stmt_target s \<noteq> n" if "s \<in> set (stmts b)" for s
    using that n by (auto simp: stmts_def upsert_of_def)
  then have "filter (\<lambda>s. stmt_target s = n) (stmts b) = []" by (auto simp: filter_empty_conv)
  then show ?thesis by (simp add: exec_stmts_table)
qed

text \<open>The groups of a batch by the target row they go to.\<close>

fun num_rat :: "num \<Rightarrow> rat" where
  "num_rat (NInt n) = of_int n"
| "num_rat (NDec d) = dec_val d"

fun num_finite :: "num \<Rightarrow> bool" where
  "num_finite (NInt n) = True"
| "num_finite (NDec d) = dec_is_finite d"

definition class_of :: "view_spec \<Rightarrow> pyval list \<Rightarrow> cell list" where
  "class_of v key = map eq_key ((if group_by v \<noteq> [] then [] else [PBool True]) @ key)"

definition group_ok :: "view_spec \<Rightarrow> pyval list \<times> num list \<Rightarrow> bool" where
  "group_ok v kd \<longleftrightarrow>
     length (fst kd) = length (group_by v) \<and> length (snd kd) = length (delta_columns v) \<and>
     list_all num_finite (snd kd)"

lemma eq_key_num: "num_finite x \<Longrightarrow> eq_key (num_value x) = Some (KNum (num_rat x))"
proof (cases x)
  case (NDec d)
  assume "num_finite x"
  then show ?thesis using NDec by (cases d) auto
qed simp

lemma length_class_of: "length key = length (group_by v) \<Longrightarrow> length (class_of v key) = length (key_columns v)"
  by (simp add: class_of_def key_columns_def)

lemma exec_upsert_of:
  assumes d: "distinct (all_columns v)" and g: "group_ok v (key, ds)"
    and G: "list_all (shaped (key_columns v) (delta_columns v)) G" "distinct (map fst G)"
  shows "exec_table (upsert_of v key ds) (rows_of (all_columns v) G)
    = rows_of (all_columns v) (upsert_group (class_of v key) (map num_rat ds) G)"
    and "shaped (key_columns v) (delta_columns v) (class_of v key, map num_rat ds)"
proof -
  let ?params = "(if group_by v \<noteq> [] then [] else [PBool True]) @ key @ map num_value ds"
  have "map eq_key (map num_value ds) = num_cells (map num_rat ds)"
    using g by (auto simp: num_cells_def group_ok_def list_all_iff eq_key_num)
  then have row: "cells_row (all_columns v) (map eq_key ?params) = group_row (all_columns v) (class_of v key, map num_rat ds)"
    by (simp add: group_row_def class_of_def)
  show sh: "shaped (key_columns v) (delta_columns v) (class_of v key, map num_rat ds)"
    using g by (simp add: shaped_def group_ok_def length_class_of)
  show "exec_table (upsert_of v key ds) (rows_of (all_columns v) G)
    = rows_of (all_columns v) (upsert_group (class_of v key) (map num_rat ds) G)"
    unfolding upsert_of_def exec_table.simps row
    using upsert_rows_of [OF _ sh G] d by (simp add: all_columns_def)
qed

definition upsert_all :: "view_spec \<Rightarrow> groups \<Rightarrow> (cell list \<times> rat list) list \<Rightarrow> (cell list \<times> rat list) list" where
  "upsert_all v gs G = fold (\<lambda>(key, ds). upsert_group (class_of v key) (map num_rat ds)) gs G"

lemma exec_upserts:
  assumes "distinct (all_columns v)" "list_all (group_ok v) gs"
    and "list_all (shaped (key_columns v) (delta_columns v)) G" "distinct (map fst G)"
  shows "fold exec_table (map (\<lambda>(key, ds). upsert_of v key ds) gs) (rows_of (all_columns v) G)
      = rows_of (all_columns v) (upsert_all v gs G)
    \<and> list_all (shaped (key_columns v) (delta_columns v)) (upsert_all v gs G)
    \<and> distinct (map fst (upsert_all v gs G))"
  using assms
proof (induction gs arbitrary: G)
  case Nil
  then show ?case by (simp add: upsert_all_def)
next
  case (Cons kd gs)
  obtain key ds where kd: "kd = (key, ds)" by (cases kd)
  have g: "group_ok v (key, ds)" using Cons.prems(2) kd by simp
  note up = exec_upsert_of [OF Cons.prems(1) g Cons.prems(3,4)]
  note sh = upsert_group_shape [OF Cons.prems(3,4) up(2)]
  show ?case
    using Cons.IH [OF Cons.prems(1) _ sh] Cons.prems(2) up(1) kd by (simp add: upsert_all_def)
qed

text \<open>What the groups of a key add up to, column by column.\<close>

definition total :: "view_spec \<Rightarrow> groups \<Rightarrow> cell list \<Rightarrow> nat \<Rightarrow> rat" where
  "total v gs k i = (\<Sum>(key, ds) \<leftarrow> gs. if class_of v key = k then num_rat (ds ! i) else 0)"

definition touches :: "view_spec \<Rightarrow> groups \<Rightarrow> cell list \<Rightarrow> bool" where
  "touches v gs k \<longleftrightarrow> list_ex (\<lambda>(key, ds). class_of v key = k) gs"

definition base :: "(cell list \<times> rat list) list \<Rightarrow> cell list \<Rightarrow> nat \<Rightarrow> rat" where
  "base G k i = (case map_of G k of None \<Rightarrow> 0 | Some w \<Rightarrow> w ! i)"

lemma map_of_upsert_all:
  assumes "list_all (group_ok v) gs" "list_all (shaped (key_columns v) (delta_columns v)) G" "distinct (map fst G)"
  shows "map_of (upsert_all v gs G) k =
    (if touches v gs k then Some (map (\<lambda>i. base G k i + total v gs k i) [0..<length (delta_columns v)])
     else map_of G k)"
  using assms
proof (induction gs arbitrary: G)
  case Nil
  then show ?case by (simp add: upsert_all_def touches_def)
next
  case (Cons kd gs)
  obtain key ds where kd: "kd = (key, ds)" by (cases kd)
  let ?n = "length (delta_columns v)" and ?c = "class_of v key"
  let ?G = "upsert_group ?c (map num_rat ds) G"
  have g: "group_ok v (key, ds)" using Cons.prems(1) kd by simp
  then have len: "length ds = ?n" by (simp add: group_ok_def)
  have sh: "shaped (key_columns v) (delta_columns v) (?c, map num_rat ds)"
    using g by (simp add: shaped_def group_ok_def length_class_of)
  note G = upsert_group_shape [OF Cons.prems(2,3) sh]
  have glen: "length w = ?n" if "map_of G k' = Some w" for k' w
    using map_of_SomeD [OF that] Cons.prems(2) by (auto simp: list_all_iff shaped_def)
  have here: "map_of ?G ?c = Some (map (\<lambda>i. base G ?c i + num_rat (ds ! i)) [0..<?n])"
    using glen len
    by (auto simp: map_of_upsert_group base_def split: option.split intro!: nth_equalityI)
  have "base ?G k i = base G k i + (if ?c = k then num_rat (ds ! i) else 0)" if "i < ?n" for i
  proof (cases "?c = k")
    case True
    have "base ?G ?c i = base G ?c i + num_rat (ds ! i)"
      using that unfolding base_def [of ?G] here by simp
    then show ?thesis using True by simp
  next
    case False
    then show ?thesis by (simp add: base_def map_of_upsert_group)
  qed
  then have "map (\<lambda>i. base ?G k i + total v gs k i) [0..<?n] = map (\<lambda>i. base G k i + total v (kd # gs) k i) [0..<?n]"
    by (auto simp: total_def kd)
  moreover have "map (\<lambda>i. base G k i + total v (kd # gs) k i) [0..<?n] = map (\<lambda>i. base G ?c i + num_rat (ds ! i)) [0..<?n]"
    if "?c = k" "\<not> touches v gs k"
  proof -
    have "total v gs k i = 0" for i
      using that(2) by (induction gs) (auto simp: total_def touches_def)
    then show ?thesis using that(1) by (simp add: total_def kd)
  qed
  ultimately show ?case
    using Cons.IH [OF _ G] Cons.prems(1) here kd
    by (auto simp: upsert_all_def touches_def map_of_upsert_group)
qed

end
