(* ===== verification/GroundTruth.thy ===== *)
theory GroundTruth
  imports Execution "HOL-Library.Multiset"
begin

text \<open>
  What a target table ought to hold: the \<open>GROUP BY\<close> of the source table.

  A source table is a multiset of rows.  \<open>truth v S\<close> is the result of the view's aggregate query
  on it, and \<open>table_holds v T S\<close> says that the target table \<open>T\<close> stores exactly that result: one
  row per group, with its key, its row count and the storage columns of every aggregate.
  \<open>row_event\<close> are the changes of the source table and \<open>apply_event\<close> the batch methods the daemon
  calls for them.
\<close>

section \<open>The aggregate query\<close>

definition getv :: "row \<Rightarrow> string \<Rightarrow> pyval" where
  "getv r c = (case map_of r c of None \<Rightarrow> PNone | Some v \<Rightarrow> v)"

text \<open>The number a value stands for; a float stands for the shortest decimal that denotes it.\<close>

definition sql_num :: "pyval \<Rightarrow> rat" where
  "sql_num v = (case decimal_of v of Inl _ \<Rightarrow> 0 | Inr d \<Rightarrow> dec_val d)"

definition sql_count :: "row multiset \<Rightarrow> rat" where
  "sql_count S = of_nat (size S)"

definition sql_count_col :: "string \<Rightarrow> row multiset \<Rightarrow> rat" where
  "sql_count_col c S = of_nat (size (filter_mset (\<lambda>r. getv r c \<noteq> PNone) S))"

definition sql_sum :: "string \<Rightarrow> row multiset \<Rightarrow> rat" where
  "sql_sum c S = sum_mset (image_mset (\<lambda>r. sql_num (getv r c)) (filter_mset (\<lambda>r. getv r c \<noteq> PNone) S))"

definition agg_values :: "agg_spec \<Rightarrow> (row multiset \<Rightarrow> rat) list" where
  "agg_values a =
     (case agg_column a of
        None \<Rightarrow> [sql_count]
      | Some c \<Rightarrow> if agg_fn a = ''count'' then [sql_count_col c] else [sql_sum c, sql_count_col c])"

definition storage_values :: "view_spec \<Rightarrow> (row multiset \<Rightarrow> rat) list" where
  "storage_values v = sql_count # concat (map agg_values (aggregates v))"

definition row_key :: "view_spec \<Rightarrow> row \<Rightarrow> pyval list" where
  "row_key v r = map (getv r) (group_by v)"

definition members :: "view_spec \<Rightarrow> row multiset \<Rightarrow> cell list \<Rightarrow> row multiset" where
  "members v S k = filter_mset (\<lambda>r. class_of v (row_key v r) = k) S"

text \<open>Without \<open>GROUP BY\<close> the query has one row even over an empty table.\<close>

definition truth :: "view_spec \<Rightarrow> row multiset \<Rightarrow> cell list \<Rightarrow> rat list option" where
  "truth v S k =
     (if members v S k \<noteq> {#} \<or> group_by v = [] \<and> k = class_of v []
      then Some (map (\<lambda>f. f (members v S k)) (storage_values v)) else None)"

definition table_holds :: "view_spec \<Rightarrow> table \<Rightarrow> row multiset \<Rightarrow> bool" where
  "table_holds v T S \<longleftrightarrow>
     (\<exists>G. T = rows_of (all_columns v) G \<and> distinct (map fst G) \<and>
          list_all (shaped (key_columns v) (delta_columns v)) G \<and> (\<forall>k. map_of G k = truth v S k))"

text \<open>What a reader of the target sees in the column of an aggregate.\<close>

definition sql_null_if_zero :: "rat \<Rightarrow> rat \<Rightarrow> rat option" where
  "sql_null_if_zero n x = (if n = 0 then None else Some x)"

lemma agg_storage_values: "agg_storage a = Inr ss \<Longrightarrow> length (agg_values a) = length ss"
  by (auto simp: agg_storage_def agg_values_def res_simps split: if_splits option.splits)

lemma mapE_lengths: "mapE agg_storage as = Inr sss \<Longrightarrow> length (concat (map agg_values as)) = length (concat sss)"
  by (induction as arbitrary: sss) (auto simp: res_simps agg_storage_values)

section \<open>Changes of the source table\<close>

datatype row_event = Ins row | Del row | Upd row row | Trunc

fun source_step :: "row multiset \<Rightarrow> row_event \<Rightarrow> row multiset" where
  "source_step S (Ins r) = S + {#r#}"
| "source_step S (Del r) = S - {#r#}"
| "source_step S (Upd old new) = S - {#old#} + {#new#}"
| "source_step S Trunc = {#}"

fun event_possible :: "row multiset \<Rightarrow> row_event \<Rightarrow> bool" where
  "event_possible S (Del r) = (r \<in># S)"
| "event_possible S (Upd old new) = (old \<in># S)"
| "event_possible S _ = True"

fun events_possible :: "row multiset \<Rightarrow> row_event list \<Rightarrow> bool" where
  "events_possible S [] = True"
| "events_possible S (e # es) = (event_possible S e \<and> events_possible (source_step S e) es)"

definition source_run :: "row multiset \<Rightarrow> row_event list \<Rightarrow> row multiset" where
  "source_run S es = fold (\<lambda>e S. source_step S e) es S"

fun apply_event :: "string \<Rightarrow> row_event \<Rightarrow> delta_batch \<Rightarrow> delta_batch res" where
  "apply_event n (Ins r) b = apply_insert n r b"
| "apply_event n (Del r) b = apply_delete n r b"
| "apply_event n (Upd old new) b = apply_update n old new b"
| "apply_event n Trunc b = apply_truncate n b"

definition apply_ops :: "delta_batch \<Rightarrow> (string \<times> row_event) list \<Rightarrow> delta_batch res" where
  "apply_ops b ops = foldE (\<lambda>b (n, e). apply_event n e b) b ops"

definition events_for :: "string \<Rightarrow> (string \<times> row_event) list \<Rightarrow> row_event list" where
  "events_for n ops = map snd (filter (\<lambda>(m, e). m = n) ops)"

section \<open>Rows whose arithmetic is exact\<close>

text \<open>
  \<open>scaled s v\<close> is the aggregated value in units of \<open>10 ^ -s\<close>.  A row's weight bounds what it can
  add to any column; \<open>Decimal\<close> arithmetic keeps 28 digits, so a batch whose weights stay below
  \<open>10 ^ 28\<close> is exact.
\<close>

definition fits_scale :: "nat \<Rightarrow> pyval \<Rightarrow> bool" where
  "fits_scale s v \<longleftrightarrow> v = PNone \<or> (case decimal_of v of Inr (Fin c e) \<Rightarrow> - int s \<le> e | _ \<Rightarrow> False)"

definition scaled :: "nat \<Rightarrow> pyval \<Rightarrow> int" where
  "scaled s v = (case decimal_of v of Inr (Fin c e) \<Rightarrow> c * 10 ^ nat (e + int s) | _ \<Rightarrow> 0)"

definition agg_weight :: "nat \<Rightarrow> row \<Rightarrow> agg_spec \<Rightarrow> int" where
  "agg_weight s r a =
     (case agg_column a of
        None \<Rightarrow> 0 | Some c \<Rightarrow> if agg_fn a = ''count'' then 0 else \<bar>scaled s (getv r c)\<bar>)"

definition row_weight :: "nat \<Rightarrow> view_spec \<Rightarrow> row \<Rightarrow> int" where
  "row_weight s v r = 10 ^ s + sum_list (map (agg_weight s r) (aggregates v))"

definition agg_fits :: "nat \<Rightarrow> row \<Rightarrow> agg_spec \<Rightarrow> bool" where
  "agg_fits s r a \<longleftrightarrow>
     (case agg_column a of None \<Rightarrow> True | Some c \<Rightarrow> agg_fn a = ''count'' \<or> fits_scale s (getv r c))"

definition row_ok :: "nat \<Rightarrow> view_spec \<Rightarrow> row \<Rightarrow> bool" where
  "row_ok s v r \<longleftrightarrow>
     list_all (\<lambda>c. case map_of r c of None \<Rightarrow> False | Some x \<Rightarrow> x \<noteq> PToast) (needed_columns v) \<and>
     list_all hashable (row_key v r) \<and> list_all (agg_fits s r) (aggregates v)"

fun event_rows :: "row_event \<Rightarrow> row list" where
  "event_rows (Ins r) = [r]"
| "event_rows (Del r) = [r]"
| "event_rows (Upd old new) = [old, new]"
| "event_rows Trunc = []"

definition events_weight :: "nat \<Rightarrow> view_spec \<Rightarrow> row_event list \<Rightarrow> int" where
  "events_weight s v es = sum_list (map (row_weight s v) (concat (map event_rows es)))"

definition events_exact :: "nat \<Rightarrow> view_spec \<Rightarrow> row_event list \<Rightarrow> bool" where
  "events_exact s v es \<longleftrightarrow>
     s \<le> 1000000 \<and> list_all (row_ok s v) (concat (map event_rows es)) \<and> events_weight s v es < 10 ^ 28"

section \<open>Aggregates are sums over the rows\<close>

definition sums_up :: "(row multiset \<Rightarrow> rat) \<Rightarrow> bool" where
  "sums_up f \<longleftrightarrow> f {#} = 0 \<and> (\<forall>S T. f (S + T) = f S + f T)"

lemma additive_storage: "f \<in> set (storage_values v) \<Longrightarrow> sums_up f"
  by (auto simp: storage_values_def agg_values_def sums_up_def sql_count_def sql_count_col_def
      sql_sum_def split: option.splits if_splits)

lemma members_plus [simp]: "members v (S + T) k = members v S k + members v T k"
  by (simp add: members_def)

lemma members_empty [simp]: "members v {#} k = {#}"
  by (simp add: members_def)

lemma members_single: "members v {#r#} k = (if class_of v (row_key v r) = k then {#r#} else {#})"
  by (simp add: members_def)

lemma additive_member:
  assumes "sums_up f" "r \<in># S"
  shows "f (members v (S - {#r#}) k) = f (members v S k) - f (members v {#r#} k)"
proof -
  have "members v S k = members v (S - {#r#}) k + members v {#r#} k"
    using assms(2) members_plus [of v "S - {#r#}" "{#r#}" k] by simp
  then show ?thesis using assms(1) by (simp add: sums_up_def)
qed

lemma additive_add_mset:
  "sums_up f \<Longrightarrow> f (members v (add_mset r S) k) = f (members v S k) + f (members v {#r#} k)"
  using members_plus [of v S "{#r#}" k] by (simp add: sums_up_def)

lemma additive_source_step:
  assumes "sums_up f" "event_possible S e" "e \<noteq> Trunc"
  shows "f (members v (source_step S e) k) =
    f (members v S k) +
    (case e of Ins r \<Rightarrow> f (members v {#r#} k) | Del r \<Rightarrow> - f (members v {#r#} k)
     | Upd old new \<Rightarrow> f (members v {#new#} k) - f (members v {#old#} k) | Trunc \<Rightarrow> 0)"
proof (cases e)
  case (Ins r)
  then show ?thesis using additive_add_mset [OF assms(1), of v r S k] by simp
next
  case (Del r)
  then show ?thesis using additive_member [OF assms(1), of r S v k] assms(2) by simp
next
  case (Upd old new)
  then show ?thesis
    using additive_member [OF assms(1), of old S v k] assms(2)
      additive_add_mset [OF assms(1), of v new "S - {#old#}" k] by simp
qed (use assms(3) in simp)

lemma sql_count_members: "sql_count (members v S k) = 0 \<longleftrightarrow> members v S k = {#}"
  by (simp add: sql_count_def)

lemma sql_count_nonneg: "0 \<le> sql_count S"
  by (simp add: sql_count_def)

section \<open>The batch invariant and events\<close>

lemma apply_event_ok: "batch_ok b \<Longrightarrow> apply_event n e b = Inr b' \<Longrightarrow> batch_ok b'"
  by (cases e) (auto simp: apply_insert_def apply_delete_def apply_update_def res_simps
      dest: apply_row_ok apply_truncate_ok)

end
