(* ===== verification/Protocol.thy ===== *)
theory Protocol
  imports Common "HOL-Library.Word"
begin

text \<open>
  \<open>walflux/protocol.py\<close>: the pgoutput version 1 decoder.

  A message buffer is a list of bytes.  \<open>reader\<close> is the cursor \<open>_Reader\<close>; a decoder is a
  function from the cursor to an exception or a result and the moved cursor.  \<open>rd_take\<close> keeps the
  source's treatment of a negative length: the bound check is one-sided, the slice is empty or
  wraps round the end of the buffer, and the cursor moves backwards.
\<close>

section \<open>Bytes\<close>

type_synonym bytes = "8 word list"

definition chr_of :: "8 word \<Rightarrow> char" where
  "chr_of b = char_of (uint b)"

definition byte_of :: "char \<Rightarrow> 8 word" where
  "byte_of c = word_of_int (of_char c)"

lemma chr_of_byte_of [simp]: "chr_of (byte_of c) = c"
  by (simp add: chr_of_def byte_of_def uint_word_of_int of_char_mod_256)

lemma uint_byte_less: "uint (b :: 8 word) < 256"
  using uint_lt2p [of b] by simp

lemma byte_of_chr_of [simp]: "byte_of (chr_of b) = b"
  by (simp add: chr_of_def byte_of_def of_char_of uint_byte_less)

text \<open>\<open>struct.unpack\<close> of a big-endian integer, unsigned and two's complement.\<close>

definition be_uint :: "bytes \<Rightarrow> int" where
  "be_uint bs = foldl (\<lambda>a b. a * 256 + uint b) 0 bs"

definition be_sint :: "bytes \<Rightarrow> int" where
  "be_sint bs =
     (let u = be_uint bs; m = 256 ^ length bs in if 2 * u \<ge> m then u - m else u)"

definition unpack :: "nat \<Rightarrow> (bytes \<Rightarrow> int) \<Rightarrow> bytes \<Rightarrow> int res" where
  "unpack n conv bs = (if length bs = n then Inr (conv bs) else Inl StructError)"

text \<open>
  \<open>bytes.decode("utf-8")\<close>: the well-formed sequences of the Unicode standard.  A decoded string
  is kept as its UTF-8 bytes.
\<close>

definition between :: "8 word \<Rightarrow> 8 word \<Rightarrow> 8 word \<Rightarrow> bool" where
  "between a b c \<longleftrightarrow> a \<le> b \<and> b \<le> c"

fun utf8_ok :: "bytes \<Rightarrow> bool" where
  "utf8_ok [] = True"
| "utf8_ok (a # r) =
     (if a < 0x80 then utf8_ok r
      else if between 0xC2 a 0xDF
      then (case r of b # r' \<Rightarrow> between 0x80 b 0xBF \<and> utf8_ok r' | _ \<Rightarrow> False)
      else if between 0xE0 a 0xEF
      then (case r of
              b # c # r' \<Rightarrow>
                between (if a = 0xE0 then 0xA0 else 0x80) b (if a = 0xED then 0x9F else 0xBF) \<and>
                between 0x80 c 0xBF \<and> utf8_ok r'
            | _ \<Rightarrow> False)
      else if between 0xF0 a 0xF4
      then (case r of
              b # c # d # r' \<Rightarrow>
                between (if a = 0xF0 then 0x90 else 0x80) b (if a = 0xF4 then 0x8F else 0xBF) \<and>
                between 0x80 c 0xBF \<and> between 0x80 d 0xBF \<and> utf8_ok r'
            | _ \<Rightarrow> False)
      else False)"

definition decode_utf8 :: "bytes \<Rightarrow> string res" where
  "decode_utf8 bs = (if utf8_ok bs then Inr (map chr_of bs) else Inl UnicodeDecodeError)"

section \<open>Messages\<close>

text \<open>A column value of a tuple: NULL, the unchanged-TOAST sentinel, or text.\<close>

datatype colval = CNull | CToast | CText string

type_synonym tuple_data = "colval list"

record column =
  col_name :: string
  type_oid :: int
  type_mod :: int
  is_key :: bool

record relation =
  rel_id :: int
  namespace :: string
  rel_name :: string
  replica_identity :: char
  rel_columns :: "column list"

text \<open>
  The message union, with the fields of the source's dataclasses in order.  A commit timestamp
  is its microseconds since the PostgreSQL epoch.
\<close>

datatype message =
    Begin int int int
  | Commit int int int int
  | Relation relation
  | Insert int tuple_data
  | Update int "tuple_data option" "tuple_data option" tuple_data
  | Delete int "tuple_data option" "tuple_data option"
  | Truncate int "int list"
  | Origin int string
  | TypeInfo int string string

section \<open>The reader\<close>

record reader =
  r_buf :: bytes
  r_kind :: char
  r_pos :: int

type_synonym 'a reading = "reader \<Rightarrow> ('a \<times> reader) res"

definition ret :: "'a \<Rightarrow> 'a reading" where
  "ret a r = Inr (a, r)"

definition bindR :: "'a reading \<Rightarrow> ('a \<Rightarrow> 'b reading) \<Rightarrow> 'b reading" where
  "bindR p f r = bindE (p r) (\<lambda>(a, r'). f a r')"

definition lift :: "'a res \<Rightarrow> 'a reading" where
  "lift x r = bindE x (\<lambda>a. Inr (a, r))"

definition rd_take :: "int \<Rightarrow> bytes reading" where
  "rd_take n r =
     (let stop = r_pos r + n
      in if stop > int (length (r_buf r))
         then Inl (ProtocolError (TruncatedMessage (r_kind r) n (r_pos r) (int (length (r_buf r)))))
         else Inr (py_slice (r_buf r) (r_pos r) stop, r\<lparr>r_pos := stop\<rparr>))"

text \<open>\<open>take(1)[0]\<close>: the index raises if the chunk is empty.\<close>

definition rd_byte :: "8 word reading" where
  "rd_byte = bindR (rd_take 1) (\<lambda>c. lift (case c of [] \<Rightarrow> Inl IndexError | b # _ \<Rightarrow> Inr b))"

definition rd_tag :: "char reading" where
  "rd_tag = bindR rd_byte (\<lambda>b. ret (chr_of b))"

definition rd_uint8 :: "int reading" where
  "rd_uint8 = bindR rd_byte (\<lambda>b. ret (uint b))"

definition rd_uint16 :: "int reading" where
  "rd_uint16 = bindR (rd_take 2) (\<lambda>c. lift (unpack 2 be_uint c))"

definition rd_int32 :: "int reading" where
  "rd_int32 = bindR (rd_take 4) (\<lambda>c. lift (unpack 4 be_sint c))"

definition rd_uint32 :: "int reading" where
  "rd_uint32 = bindR (rd_take 4) (\<lambda>c. lift (unpack 4 be_uint c))"

definition rd_uint64 :: "int reading" where
  "rd_uint64 = bindR (rd_take 8) (\<lambda>c. lift (unpack 8 be_uint c))"

text \<open>
  \<open>datetime\<close> holds the years 1 to 9999; adding a \<open>timedelta\<close> that leaves them is an
  \<open>OverflowError\<close>.  Every 64-bit microsecond count is a valid \<open>timedelta\<close>.
\<close>

definition min_timestamp :: int where "min_timestamp = - 63082281600000000"
definition max_timestamp :: int where "max_timestamp = 252455615999999999"

definition pg_timestamp :: "int \<Rightarrow> int res" where
  "pg_timestamp micros =
     (if min_timestamp \<le> micros \<and> micros \<le> max_timestamp then Inr micros else Inl OverflowError)"

definition rd_timestamp :: "int reading" where
  "rd_timestamp =
     bindR (rd_take 8) (\<lambda>c. bindR (lift (unpack 8 be_sint c)) (\<lambda>micros. lift (pg_timestamp micros)))"

definition rd_cstring :: "string reading" where
  "rd_cstring r =
     (let stop = py_find (r_buf r) 0 (r_pos r)
      in if stop < 0 then Inl (ProtocolError (UnterminatedString (r_kind r) (r_pos r)))
         else bindE (decode_utf8 (py_slice (r_buf r) (r_pos r) stop))
                (\<lambda>text. Inr (text, r\<lparr>r_pos := stop + 1\<rparr>)))"

text \<open>A loop that reads a counted sequence.\<close>

fun rd_many :: "nat \<Rightarrow> 'a reading \<Rightarrow> 'a list reading" where
  "rd_many 0 p = ret []"
| "rd_many (Suc n) p = bindR p (\<lambda>x. bindR (rd_many n p) (\<lambda>xs. ret (x # xs)))"

definition raise_at :: "(char \<Rightarrow> int \<Rightarrow> protocol_reason) \<Rightarrow> 'a reading" where
  "raise_at f r = Inl (ProtocolError (f (r_kind r) (r_pos r - 1)))"

section \<open>The decoders\<close>

definition decode_column_value :: "colval reading" where
  "decode_column_value =
     bindR rd_tag (\<lambda>category.
       if category = CHR ''n'' then ret CNull
       else if category = CHR ''u'' then ret CToast
       else if category = CHR ''t''
       then bindR rd_int32 (\<lambda>len. bindR (rd_take len) (\<lambda>c. bindR (lift (decode_utf8 c)) (\<lambda>s. ret (CText s))))
       else if category = CHR ''b'' then raise_at BinaryColumn
       else raise_at (UnknownCategory category))"

definition decode_tuple_data :: "tuple_data reading" where
  "decode_tuple_data = bindR rd_uint16 (\<lambda>count. rd_many (nat count) decode_column_value)"

definition expect_tag :: "char \<Rightarrow> char \<Rightarrow> unit reading" where
  "expect_tag expected got =
     (if got \<noteq> expected then raise_at (\<lambda>k i. UnexpectedTag expected k i got) else ret ())"

definition decode_begin :: "message reading" where
  "decode_begin =
     bindR rd_uint64 (\<lambda>final_lsn. bindR rd_timestamp (\<lambda>commit_ts. bindR rd_uint32 (\<lambda>xid.
       ret (Begin final_lsn commit_ts xid))))"

definition decode_commit :: "message reading" where
  "decode_commit =
     bindR rd_uint8 (\<lambda>flags. bindR rd_uint64 (\<lambda>commit_lsn. bindR rd_uint64 (\<lambda>end_lsn.
       bindR rd_timestamp (\<lambda>commit_ts. ret (Commit flags commit_lsn end_lsn commit_ts)))))"

definition decode_origin :: "message reading" where
  "decode_origin =
     bindR rd_uint64 (\<lambda>commit_lsn. bindR rd_cstring (\<lambda>name. ret (Origin commit_lsn name)))"

definition decode_column :: "column reading" where
  "decode_column =
     bindR rd_uint8 (\<lambda>flags. bindR rd_cstring (\<lambda>name. bindR rd_uint32 (\<lambda>oid. bindR rd_int32 (\<lambda>md.
       ret \<lparr>col_name = name, type_oid = oid, type_mod = md, is_key = odd flags\<rparr>))))"

definition decode_relation :: "message reading" where
  "decode_relation =
     bindR rd_uint32 (\<lambda>rid. bindR rd_cstring (\<lambda>ns. bindR rd_cstring (\<lambda>name. bindR rd_tag (\<lambda>ident.
       if ident \<notin> set ''dnfi'' then raise_at (\<lambda>k i. UnknownReplicaIdentity ident i)
       else bindR rd_uint16 (\<lambda>count. bindR (rd_many (nat count) decode_column) (\<lambda>cols.
         ret (Relation \<lparr>rel_id = rid, namespace = ns, rel_name = name, replica_identity = ident,
                        rel_columns = cols\<rparr>)))))))"

definition decode_type :: "message reading" where
  "decode_type =
     bindR rd_uint32 (\<lambda>oid. bindR rd_cstring (\<lambda>ns. bindR rd_cstring (\<lambda>name. ret (TypeInfo oid ns name))))"

definition decode_insert :: "message reading" where
  "decode_insert =
     bindR rd_uint32 (\<lambda>rid. bindR rd_tag (\<lambda>tag. bindR (expect_tag (CHR ''N'') tag) (\<lambda>_.
       bindR decode_tuple_data (\<lambda>new. ret (Insert rid new)))))"

definition decode_update :: "message reading" where
  "decode_update =
     bindR rd_uint32 (\<lambda>rid. bindR rd_tag (\<lambda>tag.
       bindR (if tag = CHR ''K''
              then bindR decode_tuple_data (\<lambda>key. bindR rd_tag (\<lambda>tag'. ret (None, Some key, tag')))
              else if tag = CHR ''O''
              then bindR decode_tuple_data (\<lambda>old. bindR rd_tag (\<lambda>tag'. ret (Some old, None, tag')))
              else ret (None, None, tag))
         (\<lambda>(old, key, tag). bindR (expect_tag (CHR ''N'') tag) (\<lambda>_.
            bindR decode_tuple_data (\<lambda>new. ret (Update rid old key new))))))"

definition decode_delete :: "message reading" where
  "decode_delete =
     bindR rd_uint32 (\<lambda>rid. bindR rd_tag (\<lambda>tag.
       if tag = CHR ''K'' then bindR decode_tuple_data (\<lambda>key. ret (Delete rid None (Some key)))
       else if tag = CHR ''O'' then bindR decode_tuple_data (\<lambda>old. ret (Delete rid (Some old) None))
       else raise_at (\<lambda>k i. ExpectedKeyOrOld i tag)))"

definition decode_truncate :: "message reading" where
  "decode_truncate =
     bindR rd_uint32 (\<lambda>count. bindR rd_uint8 (\<lambda>options.
       bindR (rd_many (nat count) rd_uint32) (\<lambda>rel_ids. ret (Truncate options rel_ids))))"

definition decoders :: "char \<Rightarrow> message reading option" where
  "decoders kind =
     (if kind = CHR ''B'' then Some decode_begin
      else if kind = CHR ''C'' then Some decode_commit
      else if kind = CHR ''O'' then Some decode_origin
      else if kind = CHR ''R'' then Some decode_relation
      else if kind = CHR ''Y'' then Some decode_type
      else if kind = CHR ''I'' then Some decode_insert
      else if kind = CHR ''U'' then Some decode_update
      else if kind = CHR ''D'' then Some decode_delete
      else if kind = CHR ''T'' then Some decode_truncate
      else None)"

definition decode_message :: "bytes \<Rightarrow> message res" where
  "decode_message buf =
     (case buf of
        [] \<Rightarrow> Inl (ProtocolError EmptyBuffer)
      | b # _ \<Rightarrow>
          (case decoders (chr_of b) of
             None \<Rightarrow> Inl (ProtocolError (UnknownMessageType (chr_of b)))
           | Some decoder \<Rightarrow>
               bindE (decoder \<lparr>r_buf = buf, r_kind = chr_of b, r_pos = 1\<rparr>) (\<lambda>(m, _). Inr m)))"

section \<open>Column values\<close>

definition int_oids :: "int list" where "int_oids = [20, 21, 23, 26]"
definition float_oids :: "int list" where "float_oids = [700, 701]"
definition bool_oid :: int where "bool_oid = 16"
definition numeric_oid :: int where "numeric_oid = 1700"

definition convert_value :: "string option \<Rightarrow> int \<Rightarrow> pyval res" where
  "convert_value txt oid =
     (case txt of
        None \<Rightarrow> Inr PNone
      | Some s \<Rightarrow>
          if oid = bool_oid then Inr (PBool (s = ''t''))
          else if oid \<in> set int_oids then bindE (py_int 10 s) (\<lambda>n. Inr (PInt n))
          else if oid \<in> set float_oids then bindE (float_of_text s) (\<lambda>x. Inr (PFloat x))
          else if oid = numeric_oid then bindE (dec_of_text s) (\<lambda>d. Inr (PDec d))
          else Inr (PStr s))"

end
