(* ===== verification/Values.thy ===== *)
theory Values
  imports Protocol
begin

text \<open>
  Column values: \<open>convert_value\<close> against the texts PostgreSQL writes for each type.

  \<open>numeric_text s k\<close> is PostgreSQL's text of the \<open>numeric\<close> value \<open>k / 10 ^ s\<close> at scale \<open>s\<close>; reading
  it back gives exactly that value, at exactly that scale, whatever its number of digits.
\<close>

section \<open>The texts of PostgreSQL\<close>

fun pad_text :: "nat \<Rightarrow> int \<Rightarrow> string" where
  "pad_text 0 n = []"
| "pad_text (Suc s) n = pad_text s (n div 10) @ [digit_char (n mod 10)]"

definition numeric_text :: "nat \<Rightarrow> int \<Rightarrow> string" where
  "numeric_text s k =
     (if k < 0 then ''-'' else []) @ nat_text 10 (\<bar>k\<bar> div 10 ^ s) @
     (if s = 0 then [] else CHR ''.'' # pad_text s (\<bar>k\<bar> mod 10 ^ s))"

text \<open>The text of a value of a bool, integer, numeric or other column.\<close>

fun pg_text :: "pyval \<Rightarrow> string option" where
  "pg_text PNone = None"
| "pg_text (PBool b) = Some (if b then ''t'' else ''f'')"
| "pg_text (PInt n) = Some (int_text 10 n)"
| "pg_text (PDec (Fin c e)) = Some (if e \<le> 0 then numeric_text (nat (- e)) c else [])"
| "pg_text (PDec _) = Some ''NaN''"
| "pg_text (PStr s) = Some s"
| "pg_text _ = None"

fun has_type :: "pyval \<Rightarrow> int \<Rightarrow> bool" where
  "has_type PNone oid = True"
| "has_type (PBool b) oid = (oid = bool_oid)"
| "has_type (PInt n) oid = (oid \<in> set int_oids)"
| "has_type (PDec (Fin c e)) oid = (oid = numeric_oid \<and> e \<le> 0)"
| "has_type (PDec (DNaN sig)) oid = (oid = numeric_oid \<and> \<not> sig)"
| "has_type (PStr s) oid = (oid \<notin> set (bool_oid # numeric_oid # int_oids @ float_oids))"
| "has_type _ oid = False"

section \<open>Reading a digit text\<close>

lemma is_digit_digit_char: "0 \<le> d \<Longrightarrow> d < 10 \<Longrightarrow> is_digit (digit_char d)"
  by (simp add: is_digit_def digit_char_def of_char_of)

lemma digit_char_val: "0 \<le> d \<Longrightarrow> d < 10 \<Longrightarrow> (of_char (digit_char d) :: int) = d + 48"
  by (simp add: digit_char_def of_char_of)

lemma run_val_Nil [simp]: "run_val [] = 0"
  by (simp add: run_val_def)

lemma run_val_snoc [simp]: "run_val (s @ [c]) = run_val s * 10 + (of_char c - 48)"
  by (simp add: run_val_def)

lemma run_val_append: "run_val (s @ t) = run_val s * 10 ^ length t + run_val t"
proof (induction t rule: rev_induct)
  case (snoc c t)
  then show ?case
    using run_val_snoc [of "s @ t" c] by (simp add: algebra_simps)
qed simp

lemma nat_text_digits: "0 \<le> n \<Longrightarrow> c \<in> set (nat_text 10 n) \<Longrightarrow> is_digit c"
  using nat_text_chars [of 10 n c] is_digit_digit_char by auto

lemma run_val_nat_text: "0 \<le> n \<Longrightarrow> run_val (nat_text 10 n) = n"
proof (induction "10 :: int" n rule: nat_text.induct)
  case (1 n)
  show ?case
  proof (cases "n < 10")
    case True
    then show ?thesis
      using 1(2) run_val_snoc [of "[]" "digit_char n"] by (simp add: nat_text.simps [of 10 n] digit_char_val)
  next
    case False
    then show ?thesis
      using 1 by (subst nat_text.simps) (simp add: digit_char_val pos_imp_zdiv_nonneg_iff)
  qed
qed

lemma length_pad_text [simp]: "length (pad_text s n) = s"
  by (induction s arbitrary: n) auto

lemma pad_text_digits: "c \<in> set (pad_text s n) \<Longrightarrow> is_digit c"
  by (induction s arbitrary: n) (auto simp: is_digit_digit_char)

lemma run_val_pad_text: "run_val (pad_text s n) = n mod 10 ^ s"
proof (induction s arbitrary: n)
  case (Suc s)
  have "n mod 10 ^ Suc s = (n div 10) mod 10 ^ s * 10 + n mod 10"
    using zmod_zmult2_eq [of "10 ^ s" n 10] by (simp add: mult.commute)
  with Suc show ?case by (simp add: digit_char_val)
qed simp

lemma digit_run_all: "(\<And>c. c \<in> set s \<Longrightarrow> is_digit c) \<Longrightarrow> digit_run s = (s, [])"
  by (simp add: digit_run_def)

lemma digit_run_stop: "(\<And>c. c \<in> set s \<Longrightarrow> is_digit c) \<Longrightarrow> \<not> is_digit d \<Longrightarrow> digit_run (s @ d # t) = (s, d # t)"
  by (simp add: digit_run_def takeWhile_append2 dropWhile_append2)

section \<open>Reading a number\<close>

definition unsigned_text :: "nat \<Rightarrow> int \<Rightarrow> string" where
  "unsigned_text s n =
     nat_text 10 (n div 10 ^ s) @ (if s = 0 then [] else CHR ''.'' # pad_text s (n mod 10 ^ s))"

lemma number_literal_unsigned:
  assumes "0 \<le> n"
  shows "number_literal (unsigned_text s n) = Some (n, - int s)"
proof -
  let ?ip = "nat_text 10 (n div 10 ^ s)" and ?fp = "pad_text s (n mod 10 ^ s)"
  have dot: "\<not> is_digit (CHR ''.'')" by (simp add: is_digit_def)
  have q: "0 \<le> n div 10 ^ s" using assms by (simp add: pos_imp_zdiv_nonneg_iff)
  note ip = nat_text_digits [OF q]
  have "run_val (?ip @ ?fp) = n div 10 ^ s * 10 ^ s + n mod 10 ^ s"
    using run_val_nat_text [OF q] by (simp add: run_val_append run_val_pad_text)
  also have "\<dots> = n" by (rule div_mult_mod_eq)
  finally have val: "run_val (?ip @ ?fp) = n" .
  have "digit_run (?ip @ CHR ''.'' # ?fp) = (?ip, CHR ''.'' # ?fp)"
    using ip dot by (rule digit_run_stop)
  moreover have "digit_run ?ip = (?ip, [])" "digit_run ?fp = (?fp, [])"
    using ip pad_text_digits by (blast intro: digit_run_all)+
  ultimately show ?thesis
    using val by (auto simp: number_literal_def unsigned_text_def nat_text_nonempty run_val_nat_text [OF q])
qed

lemma is_digit_plain:
  assumes "is_digit c"
  shows "\<not> is_blank c" "c \<notin> set ''_-+infas''"
  using assms by (auto simp: is_digit_def is_blank_def Let_def)

lemma unsigned_text_chars: "0 \<le> n \<Longrightarrow> c \<in> set (unsigned_text s n) \<Longrightarrow> is_digit c \<or> c = CHR ''.''"
  using nat_text_digits [of "n div 10 ^ s" c] pad_text_digits [of c s]
  by (auto simp: unsigned_text_def pos_imp_zdiv_nonneg_iff split: if_splits)

lemma unsigned_text_hd: "0 \<le> n \<Longrightarrow> \<exists>c r. unsigned_text s n = c # r \<and> is_digit c"
  using nat_text_nonempty [of 10 "n div 10 ^ s"] nat_text_digits [of "n div 10 ^ s"]
  by (cases "nat_text 10 (n div 10 ^ s)") (auto simp: unsigned_text_def pos_imp_zdiv_nonneg_iff)

lemma lower_digit: "is_digit c \<Longrightarrow> lower (c # r) = c # lower r"
  by (simp add: lower_def is_digit_def Let_def)

lemma dec_of_unsigned:
  assumes "0 \<le> n" and "sg = [] \<or> sg = ''-''"
  shows "dec_of_text (sg @ unsigned_text s n) = Inr (Fin (if sg = [] then n else - n) (- int s))"
proof -
  obtain c r where c: "unsigned_text s n = c # r" "is_digit c"
    using unsigned_text_hd [OF assms(1)] by blast
  have chars: "\<not> is_blank d \<and> d \<noteq> CHR ''_''" if "d \<in> set (sg @ unsigned_text s n)" for d
    using that assms(2) unsigned_text_chars [OF assms(1), of d s] is_digit_plain [of d]
    by (auto simp: is_blank_def)
  then have "py_strip (sg @ unsigned_text s n) = sg @ unsigned_text s n" by (blast intro: py_strip_id)
  moreover have "filter (\<lambda>c. c \<noteq> CHR ''_'') (sg @ unsigned_text s n) = sg @ unsigned_text s n"
    using chars by (simp only: filter_id_conv) blast
  moreover have "split_sign (sg @ unsigned_text s n) = (if sg = [] then 1 else - 1, unsigned_text s n)"
    using assms(2) c is_digit_plain(2) [OF c(2)] by (auto simp: split_sign_def)
  moreover have "lower (unsigned_text s n) = c # lower r" by (simp add: c lower_digit)
  ultimately show ?thesis
    using number_literal_unsigned [OF assms(1), of s] is_digit_plain(2) [OF c(2)]
    by (auto simp: dec_of_text_def)
qed

lemma dec_of_numeric_text: "dec_of_text (numeric_text s k) = Inr (Fin k (- int s))"
  using dec_of_unsigned [of "\<bar>k\<bar>" "if k < 0 then ''-'' else []" s]
  by (auto simp: numeric_text_def unsigned_text_def)

section \<open>The conversion\<close>

lemma convert_pg_value:
  assumes "has_type v oid"
  shows "convert_value (pg_text v) oid = Inr v"
proof (cases v)
  case (PDec d)
  show ?thesis
  proof (cases d)
    case (Fin c e)
    then show ?thesis
      using assms PDec
      by (auto simp: convert_value_def numeric_oid_def bool_oid_def int_oids_def float_oids_def
          dec_of_numeric_text)
  next
    case (DNaN sig)
    have "dec_of_text ''NaN'' = Inr (DNaN False)" by code_simp
    with DNaN show ?thesis
      using assms PDec
      by (auto simp: convert_value_def numeric_oid_def bool_oid_def int_oids_def float_oids_def)
  qed (use assms PDec in simp)
qed (use assms in \<open>auto simp: convert_value_def int_oids_def bool_oid_def py_int_int_text\<close>)



end
