(* ===== verification/Connect.thy ===== *)
theory Connect
  imports Common
begin

text \<open>
  Connecting to the database, as \<open>daemon.py\<close>, \<open>bootstrap.py\<close> and \<open>replication.py\<close> do it: the
  driver's connection error becomes a \<open>WalfluxError\<close> whose text is one line.  Connecting itself is
  the driver's; its outcome is a parameter.
\<close>

text \<open>\<open>str.split()\<close>: the maximal runs of characters that are not blanks.\<close>

function py_words :: "string \<Rightarrow> string list" where
  "py_words s =
     (let t = dropWhile is_blank s
      in if t = [] then []
         else takeWhile (\<lambda>c. \<not> is_blank c) t # py_words (dropWhile (\<lambda>c. \<not> is_blank c) t))"
  by auto
termination
proof (relation "measure length")
  fix s t assume t: "t = dropWhile is_blank s" "t \<noteq> []"
  then have "\<not> is_blank (hd t)" by (metis hd_dropWhile)
  then have "length (dropWhile (\<lambda>c. \<not> is_blank c) t) < length t"
    using t(2) by (cases t) (auto simp: le_imp_less_Suc length_dropWhile_le)
  then show "(dropWhile (\<lambda>c. \<not> is_blank c) t, s) \<in> measure length"
    using t(1) length_dropWhile_le [of is_blank s] by simp
qed simp

declare py_words.simps [simp del]

definition one_line :: "string \<Rightarrow> string" where
  "one_line s = py_join '' '' (py_words s)"

datatype connect_outcome = Connected | Refused string

definition connect :: "connect_outcome \<Rightarrow> unit res" where
  "connect c =
     (case c of
        Connected \<Rightarrow> Inr ()
      | Refused text \<Rightarrow> Inl (WalfluxError (CannotConnect (one_line text))))"

lemma py_words_solid: "list_all (\<lambda>w. w \<noteq> [] \<and> list_all (\<lambda>c. \<not> is_blank c) w) (py_words s)"
proof (induction s rule: py_words.induct)
  case (1 s)
  let ?t = "dropWhile is_blank s"
  show ?case
  proof (cases "?t = []")
    case True
    then show ?thesis by (simp add: py_words.simps [of s])
  next
    case False
    then have "\<not> is_blank (hd ?t)" by (rule hd_dropWhile)
    then have "takeWhile (\<lambda>c. \<not> is_blank c) ?t \<noteq> []" using False by (cases ?t) simp_all
    moreover have "list_all (\<lambda>c. \<not> is_blank c) (takeWhile (\<lambda>c. \<not> is_blank c) ?t)"
      unfolding list_all_iff using set_takeWhileD by fast
    moreover have "py_words s = takeWhile (\<lambda>c. \<not> is_blank c) ?t # py_words (dropWhile (\<lambda>c. \<not> is_blank c) ?t)"
      using False by (simp only: py_words.simps [of s] Let_def if_False)
    ultimately show ?thesis using 1 [OF refl False] by simp
  qed
qed

lemma join_words_blank:
  "list_all (\<lambda>w. list_all (\<lambda>c. \<not> is_blank c) w) ws \<Longrightarrow> c \<in> set (py_join '' '' ws) \<Longrightarrow> is_blank c \<Longrightarrow> c = CHR '' ''"
  by (induction "'' ''" ws rule: py_join.induct) (auto simp: list_all_iff)

lemma one_line_blank:
  assumes "c \<in> set (one_line s)" "is_blank c"
  shows "c = CHR '' ''"
proof (rule join_words_blank [OF _ assms(1) [unfolded one_line_def] assms(2)])
  show "list_all (\<lambda>w. list_all (\<lambda>c. \<not> is_blank c) w) (py_words s)"
    using py_words_solid [of s] by (simp add: list_all_iff)
qed

lemma connect_error: "connect c = Inl e \<Longrightarrow> \<exists>s. e = WalfluxError (CannotConnect (one_line s))"
  by (auto simp: connect_def split: connect_outcome.splits)

end
