(* ===== verification/PyText.thy ===== *)
theory PyText
  imports Connect
begin

text \<open>
  Python's texts of values: \<open>str\<close> and \<open>repr\<close>, the alignment of columns, and reading an \<open>int\<close> out
  of a database value.  \<open>repr\<close> of a string escapes ASCII controls; every other byte stands for
  itself (a printable character).
\<close>

section \<open>Strings\<close>

definition hex_digit :: "int \<Rightarrow> char" where
  "hex_digit d = (if d < 10 then char_of (48 + d) else char_of (87 + d))"

definition escape_char :: "char \<Rightarrow> char \<Rightarrow> string" where
  "escape_char q c =
     (let n = (of_char c :: int)
      in if c = q \<or> c = CHR 0x5C then [CHR 0x5C, c]
         else if n = 9 then [CHR 0x5C, CHR ''t'']
         else if n = 10 then [CHR 0x5C, CHR ''n'']
         else if n = 13 then [CHR 0x5C, CHR ''r'']
         else if n < 32 \<or> n = 127 then [CHR 0x5C, CHR ''x'', hex_digit (n div 16), hex_digit (n mod 16)]
         else [c])"

definition py_repr :: "string \<Rightarrow> string" where
  "py_repr s =
     (let q = (if CHR 0x27 \<in> set s \<and> CHR 0x22 \<notin> set s then CHR 0x22 else CHR 0x27)
      in q # concat (map (escape_char q) s) @ [q])"

text \<open>\<open>len(s)\<close>: the characters, not the bytes, of the text.\<close>

definition py_len :: "string \<Rightarrow> nat" where
  "py_len s = length (filter (\<lambda>c. let n = (of_char c :: int) in n < 128 \<or> 192 \<le> n) s)"

definition py_ljust :: "nat \<Rightarrow> string \<Rightarrow> string" where
  "py_ljust w s = s @ replicate (w - py_len s) (CHR '' '')"

definition py_rstrip :: "string \<Rightarrow> string" where
  "py_rstrip s = rev (dropWhile is_blank (rev s))"

fun contains :: "string \<Rightarrow> string \<Rightarrow> bool" where
  "contains sub [] \<longleftrightarrow> sub = []"
| "contains sub (c # s) \<longleftrightarrow> take (length sub) (c # s) = sub \<or> contains sub s"

lemma py_len_append [simp]: "py_len (s @ t) = py_len s + py_len t"
  by (simp add: py_len_def)

lemma py_len_blanks [simp]: "py_len (replicate n (CHR '' '')) = n"
  by (simp add: py_len_def)

lemma py_len_ljust: "py_len (py_ljust w s) = max w (py_len s)"
  by (simp add: py_ljust_def)

section \<open>Numbers\<close>

definition signed :: "bool \<Rightarrow> string \<Rightarrow> string" where
  "signed neg s = (if neg then CHR ''-'' # s else s)"

text \<open>\<open>str\<close> of a finite \<open>Decimal\<close> with coefficient \<open>c\<close> and exponent \<open>e\<close>.\<close>

definition dec_text :: "int \<Rightarrow> int \<Rightarrow> string" where
  "dec_text c e =
     (let ds = nat_text 10 \<bar>c\<bar>; len = int (length ds); left = e + len;
          dot = (if e \<le> 0 \<and> left > - 6 then left else 1);
          digits =
            (if dot \<le> 0 then ''0.'' @ replicate (nat (- dot)) (CHR ''0'') @ ds
             else if dot \<ge> len then ds @ replicate (nat (dot - len)) (CHR ''0'')
             else take (nat dot) ds @ CHR ''.'' # drop (nat dot) ds);
          ex = left - dot
      in signed (c < 0) (digits @
           (if ex = 0 then []
            else CHR ''E'' # (if ex < 0 then CHR ''-'' else CHR ''+'') # nat_text 10 \<bar>ex\<bar>)))"

fun decimal_text :: "decimal \<Rightarrow> string" where
  "decimal_text (Fin c e) = dec_text c e"
| "decimal_text (DInf s) = signed s ''Infinity''"
| "decimal_text (DNaN sig) = (if sig then ''sNaN'' else ''NaN'')"

text \<open>\<open>str\<close> of a float: its shortest digits, positional for exponents from -4 to 15.\<close>

fun float_text :: "pyfloat \<Rightarrow> string" where
  "float_text FNaN = ''nan''"
| "float_text (FInf s) = signed s ''inf''"
| "float_text (FFin m e) =
     (case dec_of_float (FFin m e) of
        Fin c x \<Rightarrow>
          (let ds = nat_text 10 \<bar>c\<bar>; len = int (length ds); pt = len + x
           in if c = 0 then ''0.0''
              else signed (c < 0)
                (if - 4 < pt \<and> pt \<le> 16
                 then (if pt \<le> 0 then ''0.'' @ replicate (nat (- pt)) (CHR ''0'') @ ds
                       else if pt \<ge> len then ds @ replicate (nat (pt - len)) (CHR ''0'') @ ''.0''
                       else take (nat pt) ds @ CHR ''.'' # drop (nat pt) ds)
                 else take 1 ds @ (if len > 1 then CHR ''.'' # drop 1 ds else []) @
                      CHR ''e'' # (if pt - 1 < 0 then CHR ''-'' else CHR ''+'') #
                      (if \<bar>pt - 1\<bar> < 10 then CHR ''0'' # nat_text 10 \<bar>pt - 1\<bar> else nat_text 10 \<bar>pt - 1\<bar>)))
      | d \<Rightarrow> decimal_text d)"

fun py_str :: "pyval \<Rightarrow> string" where
  "py_str PNone = ''None''"
| "py_str PToast = ''UNCHANGED_TOAST''"
| "py_str (PBool b) = (if b then ''True'' else ''False'')"
| "py_str (PInt n) = int_text 10 n"
| "py_str (PFloat x) = float_text x"
| "py_str (PDec d) = decimal_text d"
| "py_str (PStr s) = s"

text \<open>\<open>format(x, ".1f")\<close> and the like: \<open>d\<close> digits after the point, half to even, of an exact value.\<close>

definition float_rat :: "int \<Rightarrow> int \<Rightarrow> rat" where
  "float_rat m k = (if 0 \<le> k then of_int (m * 2 ^ nat k) else of_int m / 2 ^ nat (- k))"

definition fixed_text :: "nat \<Rightarrow> rat \<Rightarrow> string" where
  "fixed_text d x =
     (let (n, q) = quotient_of \<bar>x\<bar>; ds = nat_text 10 (round_half_even (n * 10 ^ d) q);
          ds = replicate (Suc d - length ds) (CHR ''0'') @ ds; k = length ds - d
      in signed (x < 0) (take k ds @ (if d = 0 then [] else CHR ''.'' # drop k ds)))"

fun float_fixed :: "nat \<Rightarrow> pyfloat \<Rightarrow> string" where
  "float_fixed d (FFin m k) = fixed_text d (float_rat m k)"
| "float_fixed d (FInf s) = signed s ''inf''"
| "float_fixed d FNaN = ''nan''"

definition py_rjust :: "nat \<Rightarrow> string \<Rightarrow> string" where
  "py_rjust n s = replicate (n - py_len s) (CHR '' '') @ s"

section \<open>Values as integers\<close>

definition truncate_frac :: "int \<Rightarrow> int \<Rightarrow> int" where
  "truncate_frac n d = (if n < 0 then - ((- n) div d) else n div d)"

fun as_int :: "pyval \<Rightarrow> int res" where
  "as_int (PBool b) = Inr (of_bool b)"
| "as_int (PInt n) = Inr n"
| "as_int (PStr s) = py_int 10 s"
| "as_int (PDec (Fin c e)) = (let (n, d) = pow_frac 10 (- e) c 1 in Inr (truncate_frac n d))"
| "as_int (PDec (DInf _)) = Inl OverflowError"
| "as_int (PDec (DNaN _)) = Inl ValueError"
| "as_int (PFloat (FFin m e)) = (let (n, d) = pow_frac 2 (- e) m 1 in Inr (truncate_frac n d))"
| "as_int (PFloat (FInf _)) = Inl OverflowError"
| "as_int (PFloat FNaN) = Inl ValueError"
| "as_int _ = Inl TypeError"

lemma text_examples:
  "py_repr ''walflux'' = CHR 0x27 # ''walflux'' @ [CHR 0x27]"
  "dec_text 1250 (- 2) = ''12.50''" "dec_text (- 5) (- 1) = ''-0.5''" "dec_text 1 (- 8) = ''1E-8''" "dec_text 12 3 = ''1.2E+4''"
  "py_str (PFloat (float_of_decimal 15 (- 1))) = ''1.5''" "py_str (PFloat (float_of_decimal 5 0)) = ''5.0''"
  "as_int (PDec (Fin (- 1250) (- 2))) = Inr (- 12)"
  by code_simp+

end
