(* ===== verification/Daemon.thy ===== *)
theory Daemon
  imports Config GroundTruth Values PyText
begin

text \<open>
  \<open>walflux/daemon.py\<close> and \<open>walflux/checkpoint.py\<close>: the main loop that buffers whole source
  transactions and flushes them in batches.

  The world enters as a list of \<open>tick\<close>s, one per turn of the loop: whether a stop was requested,
  the payload or wake \<open>messages()\<close> yields, and the clock readings of the turn (in seconds; the
  rounding of floats is not modelled).  What the loop does to the world is a list of \<open>effect\<close>s
  in order, so that a crash is a prefix of it.  A row event resolved to a view (\<open>_Op\<close>) is the
  view's name and the event.
\<close>

section \<open>State\<close>

type_synonym op = "string \<times> row_event"

record sealed_txn =
  end_lsn :: int
  txn_ops :: "op list"

type_synonym table_views = "(string \<times> string, view_spec list) dict"

record daemon =
  d_config :: config
  views_by_table :: table_views
  relations :: "(int, relation) dict"
  view_rel_ids :: "int set"
  checkpoint_lsn :: int

definition views_get :: "table_views \<Rightarrow> string \<times> string \<Rightarrow> view_spec list" where
  "views_get d k = (case dict_get (=) d k of None \<Rightarrow> [] | Some vs \<Rightarrow> vs)"

definition index_views :: "view_spec list \<Rightarrow> table_views" where
  "index_views vs =
     fold (\<lambda>v d. dict_set (=) (source_schema v, source_table v)
                   (views_get d (source_schema v, source_table v) @ [v]) d) vs []"

definition new_daemon :: "config \<Rightarrow> int \<Rightarrow> daemon" where
  "new_daemon cfg checkpoint =
     \<lparr>d_config = cfg, views_by_table = index_views (views cfg), relations = [], view_rel_ids = {},
      checkpoint_lsn = checkpoint\<rparr>"

section \<open>Relations\<close>

definition required_columns :: "view_spec \<Rightarrow> string list" where
  "required_columns view = needed_columns view"

definition missing_columns :: "relation \<Rightarrow> view_spec \<Rightarrow> string list" where
  "missing_columns rel view =
     sort (filter (\<lambda>c. c \<notin> col_name ` set (rel_columns rel)) (required_columns view))"

definition rel_views :: "daemon \<Rightarrow> relation \<Rightarrow> view_spec list" where
  "rel_views d rel = views_get (views_by_table d) (namespace rel, rel_name rel)"

definition on_relation :: "relation \<Rightarrow> daemon \<Rightarrow> daemon res" where
  "on_relation rel d =
     (let previous = dict_get (=) (relations d) (rel_id rel);
          d' = d\<lparr>relations := dict_set (=) (rel_id rel) rel (relations d)\<rparr>;
          vs = rel_views d rel
      in if vs = []
         then if rel_id rel \<in> view_rel_ids d
              then Inl (SchemaDriftError (TableRenamed
                     (map_option (\<lambda>p. (namespace p, rel_name p)) previous) (namespace rel) (rel_name rel)))
              else Inr d'
         else bindE (foldE (\<lambda>_ view.
                      if missing_columns rel view \<noteq> []
                      then Inl (SchemaDriftError (MissingColumns (namespace rel) (rel_name rel)
                             (missing_columns rel view) (view_name view)))
                      else Inr ()) () vs)
                (\<lambda>_. Inr (d'\<lparr>view_rel_ids := insert (rel_id rel) (view_rel_ids d)\<rparr>)))"

section \<open>Row messages\<close>

fun column_value :: "colval \<Rightarrow> int \<Rightarrow> pyval res" where
  "column_value CNull oid = Inr PNone"
| "column_value CToast oid = Inr PToast"
| "column_value (CText s) oid = convert_value (Some s) oid"

text \<open>\<open>zip(..., strict=True)\<close> raises when one side ends before the other.\<close>

fun decode_columns :: "row \<Rightarrow> column list \<Rightarrow> colval list \<Rightarrow> row res" where
  "decode_columns row [] [] = Inr row"
| "decode_columns row (c # cs) (v # vs) =
     bindE (column_value v (type_oid c)) (\<lambda>x. decode_columns (dict_set (=) (col_name c) x row) cs vs)"
| "decode_columns row _ _ = Inl ValueError"

definition decode_row :: "relation \<Rightarrow> tuple_data \<Rightarrow> row res" where
  "decode_row rel data = decode_columns [] (rel_columns rel) data"

definition substitute_toast :: "row \<Rightarrow> row \<Rightarrow> row res" where
  "substitute_toast old new =
     mapE (\<lambda>(name, v). if v = PToast then bindE (getitem old name) (\<lambda>x. Inr (name, x)) else Inr (name, v)) new"

definition truncate_ops :: "daemon \<Rightarrow> int list \<Rightarrow> op list" where
  "truncate_ops d rel_ids =
     concat (map (\<lambda>i. case dict_get (=) (relations d) i of
                        None \<Rightarrow> []
                      | Some rel \<Rightarrow> map (\<lambda>v. (view_name v, Trunc)) (rel_views d rel)) rel_ids)"

definition with_relation :: "daemon \<Rightarrow> int \<Rightarrow> (relation \<Rightarrow> view_spec list \<Rightarrow> op list res) \<Rightarrow> op list res" where
  "with_relation d i f =
     (case dict_get (=) (relations d) i of
        None \<Rightarrow> Inl (ProtocolError (UnknownRelation i))
      | Some rel \<Rightarrow> if rel_views d rel = [] then Inr [] else f rel (rel_views d rel))"

definition row_ops :: "daemon \<Rightarrow> message \<Rightarrow> op list res" where
  "row_ops d msg =
     (case msg of
        Truncate options rel_ids \<Rightarrow> Inr (truncate_ops d rel_ids)
      | Insert i new \<Rightarrow> with_relation d i (\<lambda>rel vs.
          bindE (decode_row rel new) (\<lambda>r. Inr (map (\<lambda>v. (view_name v, Ins r)) vs)))
      | Update i old key new \<Rightarrow> with_relation d i (\<lambda>rel vs.
          (case old of
             None \<Rightarrow> Inl (SchemaDriftError (WithoutOldRow ''update'' (namespace rel) (rel_name rel)))
           | Some old \<Rightarrow>
               bindE (decode_row rel old) (\<lambda>o_row. bindE (decode_row rel new) (\<lambda>n_row.
               bindE (substitute_toast o_row n_row) (\<lambda>n_row.
                 Inr (map (\<lambda>v. (view_name v, Upd o_row n_row)) vs))))))
      | Delete i old key \<Rightarrow> with_relation d i (\<lambda>rel vs.
          (case old of
             None \<Rightarrow> Inl (SchemaDriftError (WithoutOldRow ''delete'' (namespace rel) (rel_name rel)))
           | Some old \<Rightarrow>
               bindE (decode_row rel old) (\<lambda>r. Inr (map (\<lambda>v. (view_name v, Del r)) vs))))
      | _ \<Rightarrow> Inr [])"

section \<open>Flushing\<close>

text \<open>
  An \<open>Execute\<close> carries the statement sent (its text and parameters) and the tree it renders
  (\<open>statements_text\<close>).  \<open>SaveCheckpoint\<close> is \<open>write_checkpoint\<close>, whose text is below.
\<close>

datatype effect =
    Execute stmt string "pyval list"
  | SaveCheckpoint string int
  | CommitTxn
  | Ack int

definition write_checkpoint :: "string \<Rightarrow> int \<Rightarrow> string \<times> pyval list" where
  "write_checkpoint slot_name lsn =
     (''INSERT INTO walflux.checkpoint (slot, commit_lsn, updated_at) '' @
      ''VALUES (%s, %s, now()) '' @
      ''ON CONFLICT (slot) DO UPDATE SET commit_lsn = EXCLUDED.commit_lsn, updated_at = now()'',
      [PStr slot_name, PInt lsn])"

definition apply_txn :: "delta_batch \<Rightarrow> sealed_txn \<Rightarrow> delta_batch res" where
  "apply_txn b t = apply_ops b (txn_ops t)"

definition flush :: "daemon \<Rightarrow> sealed_txn list \<Rightarrow> (effect list \<times> daemon) res" where
  "flush d pending =
     bindE (new_batch (views (d_config d))) (\<lambda>b.
     bindE (foldE apply_txn b pending) (\<lambda>b.
     if pending = [] then Inl IndexError
     else let lsn = end_lsn (last pending)
       in bindE (statements b) (\<lambda>sts.
            Inr (map2 (\<lambda>tree (sql, params). Execute tree sql params) (stmts b) sts @
                   [SaveCheckpoint (slot (d_config d)) lsn, CommitTxn, Ack lsn],
                 d\<lparr>checkpoint_lsn := lsn\<rparr>))))"

section \<open>The loop\<close>

record tick =
  stop_requested :: bool
  item :: "bytes option"
  sealed_at :: rat
  checked_at :: rat

record loop_state =
  l_daemon :: daemon
  pending :: "sealed_txn list"
  oldest :: "rat option"
  open_ops :: "op list option"

definition on_message :: "message \<Rightarrow> rat \<Rightarrow> loop_state \<Rightarrow> loop_state res" where
  "on_message msg now st =
     (case msg of
        Begin _ _ _ \<Rightarrow> Inr (st\<lparr>open_ops := Some []\<rparr>)
      | Commit _ _ lsn _ \<Rightarrow>
          let ops = (case open_ops st of None \<Rightarrow> [] | Some ops \<Rightarrow> ops);
              st' = st\<lparr>open_ops := None\<rparr>
          in Inr (if lsn > checkpoint_lsn (l_daemon st)
                  then st'\<lparr>pending := pending st @ [\<lparr>end_lsn = lsn, txn_ops = ops\<rparr>],
                           oldest := (if oldest st = None then Some now else oldest st)\<rparr>
                  else st')
      | Relation rel \<Rightarrow> bindE (on_relation rel (l_daemon st)) (\<lambda>d. Inr (st\<lparr>l_daemon := d\<rparr>))
      | Origin _ _ \<Rightarrow> Inr st
      | TypeInfo _ _ _ \<Rightarrow> Inr st
      | _ \<Rightarrow>
          (case open_ops st of
             None \<Rightarrow> Inl (ProtocolError OutsideTransaction)
           | Some ops \<Rightarrow>
               bindE (row_ops (l_daemon st) msg) (\<lambda>more. Inr (st\<lparr>open_ops := Some (ops @ more)\<rparr>))))"

definition flush_state :: "loop_state \<Rightarrow> (effect list \<times> loop_state) res" where
  "flush_state st =
     bindE (flush (l_daemon st) (pending st)) (\<lambda>(effs, d).
       Inr (effs, st\<lparr>l_daemon := d, pending := [], oldest := None\<rparr>))"

definition flush_due :: "loop_state \<Rightarrow> rat \<Rightarrow> bool res" where
  "flush_due st now =
     (if pending st = [] then Inr False
      else if int (length (pending st)) \<ge> batch_max_txns (d_config (l_daemon st)) then Inr True
      else (case oldest st of
              None \<Rightarrow> Inl TypeError
            | Some t \<Rightarrow> Inr ((now - t) * 1000 \<ge> of_int (batch_max_ms (d_config (l_daemon st))))))"

definition on_tick :: "tick \<Rightarrow> loop_state \<Rightarrow> (effect list \<times> loop_state) res" where
  "on_tick t st =
     (case item t of
        None \<Rightarrow> if pending st \<noteq> [] then flush_state st else Inr ([], st)
      | Some payload \<Rightarrow>
          bindE (decode_message payload) (\<lambda>msg.
          bindE (on_message msg (sealed_at t) st) (\<lambda>st.
          bindE (flush_due st (checked_at t)) (\<lambda>due.
            if due then flush_state st else Inr ([], st)))))"

definition finish :: "loop_state \<Rightarrow> effect list \<times> daemon res" where
  "finish st =
     (if pending st = [] then ([], Inr (l_daemon st))
      else (case flush_state st of
              Inl e \<Rightarrow> ([], Inl e)
            | Inr (effs, st) \<Rightarrow> (effs, Inr (l_daemon st))))"

fun daemon_loop :: "tick list \<Rightarrow> loop_state \<Rightarrow> effect list \<times> daemon res" where
  "daemon_loop [] st = finish st"
| "daemon_loop (t # ts) st =
     (if stop_requested t then finish st
      else (case on_tick t st of
              Inl e \<Rightarrow> ([], Inl e)
            | Inr (effs, st) \<Rightarrow> let (more, r) = daemon_loop ts st in (effs @ more, r)))"

definition start_state :: "config \<Rightarrow> int \<Rightarrow> loop_state" where
  "start_state cfg checkpoint =
     \<lparr>l_daemon = new_daemon cfg checkpoint, pending = [], oldest = None, open_ops = None\<rparr>"

text \<open>What reading the checkpoint row comes to.\<close>

datatype checkpoint_read = NoTable | NoRow | Row int

definition run :: "config \<Rightarrow> checkpoint_read \<Rightarrow> tick list \<Rightarrow> effect list \<times> daemon res" where
  "run cfg read ticks =
     (case read of
        NoTable \<Rightarrow> ([], Inl (SetupError (''no checkpoint table for slot '' @ py_repr (slot cfg) @ ''; run `walflux setup` first'')))
      | NoRow \<Rightarrow> ([], Inl (SetupError (''no checkpoint for slot '' @ py_repr (slot cfg) @ ''; run `walflux setup` first'')))
      | Row checkpoint \<Rightarrow> daemon_loop ticks (start_state cfg checkpoint))"

section \<open>The views of a table\<close>

lemma views_get_index: "views_get (index_views vs) k = filter (\<lambda>v. (source_schema v, source_table v) = k) vs"
proof -
  have "views_get (fold (\<lambda>v d. dict_set (=) (source_schema v, source_table v)
           (views_get d (source_schema v, source_table v) @ [v]) d) vs d) k
      = views_get d k @ filter (\<lambda>v. (source_schema v, source_table v) = k) vs" for d
  proof (induction vs arbitrary: d)
    case (Cons v vs)
    have "views_get (dict_set (=) j x d) k = (if j = k then x else views_get d k)" for j x
      by (simp add: views_get_def dict_get_map_of dict_set_update update_conv')
    then show ?case using Cons by auto
  qed simp
  from this [of "[]"] show ?thesis by (simp add: index_views_def views_get_def)
qed

text \<open>The invariant of a daemon: every known relation has the columns its views need.\<close>

definition daemon_ok :: "config \<Rightarrow> daemon \<Rightarrow> bool" where
  "daemon_ok cfg d \<longleftrightarrow>
     d_config d = cfg \<and> views_by_table d = index_views (views cfg) \<and>
     (\<forall>i rel. dict_get (=) (relations d) i = Some rel \<longrightarrow>
        (\<forall>v \<in> set (rel_views d rel). set (required_columns v) \<subseteq> col_name ` set (rel_columns rel)))"

lemma new_daemon_ok: "daemon_ok cfg (new_daemon cfg c)"
  by (simp add: daemon_ok_def new_daemon_def)

lemma rel_views_ok:
  "daemon_ok cfg d \<Longrightarrow> rel_views d rel =
     filter (\<lambda>v. source_schema v = namespace rel \<and> source_table v = rel_name rel) (views cfg)"
  by (simp add: rel_views_def daemon_ok_def views_get_index)

lemma missing_none: "missing_columns rel v = [] \<longleftrightarrow> set (required_columns v) \<subseteq> col_name ` set (rel_columns rel)"
proof -
  have "missing_columns rel v = [] \<longleftrightarrow> set (missing_columns rel v) = {}" by simp
  also have "\<dots> \<longleftrightarrow> set (required_columns v) \<subseteq> col_name ` set (rel_columns rel)"
    by (auto simp: missing_columns_def)
  finally show ?thesis .
qed

lemma foldE_check:
  "foldE (\<lambda>_ x. if P x then Inl (f x) else Inr ()) () xs = Inr () \<longleftrightarrow> (\<forall>x \<in> set xs. \<not> P x)"
  by (induction xs) auto

lemma on_relation_cases:
  assumes "daemon_ok cfg d"
  shows "(if (rel_views d rel = [] \<longrightarrow> rel_id rel \<notin> view_rel_ids d) \<and>
             (\<forall>v \<in> set (rel_views d rel). set (required_columns v) \<subseteq> col_name ` set (rel_columns rel))
          then \<exists>d'. on_relation rel d = Inr d' \<and> daemon_ok cfg d' \<and>
                 dict_get (=) (relations d') = (dict_get (=) (relations d))(rel_id rel \<mapsto> rel) \<and>
                 checkpoint_lsn d' = checkpoint_lsn d \<and>
                 view_rel_ids d' = view_rel_ids d \<union> (if rel_views d rel = [] then {} else {rel_id rel})
          else \<exists>why. on_relation rel d = Inl (SchemaDriftError why))"
proof -
  let ?m = "\<lambda>view. missing_columns rel view \<noteq> []"
  let ?e = "\<lambda>view. SchemaDriftError (MissingColumns (namespace rel) (rel_name rel)
                             (missing_columns rel view) (view_name view))"
  let ?d = "d\<lparr>relations := dict_set (=) (rel_id rel) rel (relations d)\<rparr>"
  have get: "dict_get (=) (dict_set (=) (rel_id rel) rel (relations d)) = (dict_get (=) (relations d))(rel_id rel \<mapsto> rel)"
    by (simp add: fun_eq_iff dict_get_map_of dict_set_update update_conv')
  have vs: "rel_views ?d r = rel_views d r" "rel_views (?d\<lparr>view_rel_ids := X\<rparr>) r = rel_views d r" for r X
    by (simp_all add: rel_views_def)
  have keep: "daemon_ok cfg ?d" "daemon_ok cfg (?d\<lparr>view_rel_ids := X\<rparr>)"
    if "\<forall>v \<in> set (rel_views d rel). set (required_columns v) \<subseteq> col_name ` set (rel_columns rel)" for X
    using that assms by (auto simp: daemon_ok_def get vs split: if_splits)
  have bad: "\<exists>x. foldE (\<lambda>_ view. if ?m view then Inl (?e view) else Inr ()) () xs = Inl (SchemaDriftError x)"
    if "\<exists>v \<in> set xs. ?m v" for xs
    using that by (induction xs) auto
  show ?thesis
  proof (cases "\<forall>v \<in> set (rel_views d rel). \<not> ?m v")
    case True
    then have "foldE (\<lambda>_ view. if ?m view then Inl (?e view) else Inr ()) () (rel_views d rel) = Inr ()"
      by (simp only: foldE_check)
    then show ?thesis
      using True keep by (auto simp: on_relation_def Let_def get missing_none)
  next
    case False
    then obtain x where "foldE (\<lambda>_ view. if ?m view then Inl (?e view) else Inr ()) () (rel_views d rel)
        = Inl (SchemaDriftError x)"
      using bad [of "rel_views d rel"] by auto
    moreover have "rel_views d rel \<noteq> []" using False by auto
    ultimately show ?thesis
      using False by (auto simp: on_relation_def Let_def missing_none)
  qed
qed

text \<open>C18: A Relation message is accepted exactly when it keeps every configured view of its table supplied with the columns it needs and is not a table of a view under a new name; in every other case the daemon stops with a SchemaDriftError. An accepted one replaces what was known of that relation id.\<close>
theorem on_relation_accepts:
  assumes "daemon_ok cfg d"
  shows "(if (rel_views d rel = [] \<longrightarrow> rel_id rel \<notin> view_rel_ids d) \<and>
             (\<forall>v \<in> set (rel_views d rel). set (required_columns v) \<subseteq> col_name ` set (rel_columns rel))
          then \<exists>d'. on_relation rel d = Inr d' \<and> daemon_ok cfg d' \<and>
                 dict_get (=) (relations d') = (dict_get (=) (relations d))(rel_id rel \<mapsto> rel) \<and>
                 checkpoint_lsn d' = checkpoint_lsn d \<and>
                 view_rel_ids d' = view_rel_ids d \<union> (if rel_views d rel = [] then {} else {rel_id rel})
          else \<exists>why. on_relation rel d = Inl (SchemaDriftError why))"
  using assms by (rule on_relation_cases)

lemma on_relation_ok:
  assumes "daemon_ok cfg d" "on_relation rel d = Inr d'"
  shows "daemon_ok cfg d' \<and> checkpoint_lsn d' = checkpoint_lsn d"
  using on_relation_cases [OF assms(1), of rel] assms(2) by (auto split: if_splits)

section \<open>Rows on the wire\<close>

text \<open>A row of a table as pgoutput sends it, and with unchanged TOAST values left out.\<close>

definition wire_value :: "pyval \<Rightarrow> colval" where
  "wire_value v = (case pg_text v of None \<Rightarrow> CNull | Some s \<Rightarrow> CText s)"

definition wire_row :: "pyval list \<Rightarrow> tuple_data" where
  "wire_row vals = map wire_value vals"

definition wire_row_toast :: "bool list \<Rightarrow> pyval list \<Rightarrow> tuple_data" where
  "wire_row_toast left_out vals = map2 (\<lambda>t v. if t then CToast else wire_value v) left_out vals"

definition table_row :: "relation \<Rightarrow> pyval list \<Rightarrow> row" where
  "table_row rel vals = zip (map col_name (rel_columns rel)) vals"

definition row_typed :: "relation \<Rightarrow> pyval list \<Rightarrow> bool" where
  "row_typed rel vals \<longleftrightarrow>
     distinct (map col_name (rel_columns rel)) \<and>
     list_all2 (\<lambda>c v. has_type v (type_oid c)) (rel_columns rel) vals"

lemma column_value_wire: "has_type v oid \<Longrightarrow> column_value (wire_value v) oid = Inr v"
  using convert_pg_value [of v oid]
  by (cases "pg_text v"; cases v) (auto simp: wire_value_def convert_value_def split: option.split)

lemma decode_columns_dict:
  assumes "list_all2 (\<lambda>c (w, x). column_value w (type_oid c) = Inr x) cs ws"
    and "distinct (map fst acc @ map col_name cs)"
  shows "decode_columns acc cs (map fst ws) = Inr (acc @ zip (map col_name cs) (map snd ws))"
  using assms
proof (induction cs ws arbitrary: acc rule: list_all2_induct)
  case (Cons c cs wx ws)
  obtain w x where wx: "wx = (w, x)" by (cases wx)
  have "dict_set (=) (col_name c) x acc = acc @ [(col_name c, x)]"
    using Cons.prems by (intro dict_set_new) auto
  then show ?case
    using Cons.IH [of "acc @ [(col_name c, x)]"] Cons.prems Cons.hyps(1) by (simp add: wx)
qed simp

lemma decode_wire_row:
  assumes "row_typed rel vals"
  shows "decode_row rel (wire_row vals) = Inr (table_row rel vals)"
proof -
  have "list_all2 (\<lambda>c (w, x). column_value w (type_oid c) = Inr x) (rel_columns rel) (map (\<lambda>v. (wire_value v, v)) vals)"
    using assms by (auto simp: row_typed_def list_all2_map2 intro: list_all2_mono column_value_wire)
  from decode_columns_dict [OF this, of "[]"] show ?thesis
    using assms by (simp add: decode_row_def wire_row_def table_row_def row_typed_def o_def)
qed

lemma decode_wire_toast:
  assumes "row_typed rel vals" "length left_out = length vals"
  shows "decode_row rel (wire_row_toast left_out vals) =
    Inr (table_row rel (map2 (\<lambda>t v. if t then PToast else v) left_out vals))"
proof -
  let ?ws = "map2 (\<lambda>t v. if t then (CToast, PToast) else (wire_value v, v)) left_out vals"
  have "list_all2 (\<lambda>c (w, x). column_value w (type_oid c) = Inr x) (rel_columns rel) ?ws"
    using assms by (auto simp: row_typed_def list_all2_conv_all_nth column_value_wire)
  then have "decode_columns [] (rel_columns rel) (map fst ?ws) =
      Inr ([] @ zip (map col_name (rel_columns rel)) (map snd ?ws))"
    using assms(1) by (intro decode_columns_dict) (simp_all add: row_typed_def)
  moreover have "map fst ?ws = wire_row_toast left_out vals"
    "map snd ?ws = map2 (\<lambda>t v. if t then PToast else v) left_out vals"
    by (auto simp: wire_row_toast_def)
  ultimately show ?thesis by (simp only: decode_row_def table_row_def append_Nil)
qed

lemma has_type_not_toast: "has_type v oid \<Longrightarrow> v \<noteq> PToast"
  by (cases v) auto

text \<open>The substitution restores the row the server left values out of.\<close>

lemma substitute_restores:
  assumes "distinct ns" "length olds = length ns" "length news = length ns" "length left_out = length ns"
    and "PToast \<notin> set news"
    and "\<And>i. i < length ns \<Longrightarrow> left_out ! i \<Longrightarrow> news ! i = olds ! i"
  shows "substitute_toast (zip ns olds) (zip ns (map2 (\<lambda>t v. if t then PToast else v) left_out news)) = Inr (zip ns news)"
proof -
  let ?new = "zip ns (map2 (\<lambda>t v. if t then PToast else v) left_out news)"
  let ?f = "\<lambda>(name, v). if v = PToast then bindE (getitem (zip ns olds) name) (\<lambda>x. Inr (name, x)) else Inr (name, v)"
  have "list_all2 (\<lambda>p q. ?f p = Inr q) ?new (zip ns news)"
    unfolding list_all2_conv_all_nth
  proof (intro conjI allI impI)
    fix i assume "i < length ?new"
    then have i: "i < length ns" by simp
    have "map_of (zip ns olds) (ns ! i) = Some (olds ! i)"
      using i assms(1,2) by (intro map_of_zip_nth) auto
    moreover have "news ! i \<noteq> PToast" using i assms(3,5) by (metis nth_mem)
    ultimately show "?f (?new ! i) = Inr (zip ns news ! i)"
      using i assms by (auto simp: getitem_def)
  qed (use assms in simp)
  then show ?thesis by (simp add: substitute_toast_def mapE_Inr)
qed

text \<open>The views of the table a relation message describes.\<close>

definition table_ops :: "daemon \<Rightarrow> relation \<Rightarrow> row_event \<Rightarrow> op list" where
  "table_ops d rel e = map (\<lambda>v. (view_name v, e)) (rel_views d rel)"

lemma row_ops_table:
  assumes rel: "dict_get (=) (relations d) i = Some rel"
    and typed: "row_typed rel old" "row_typed rel new"
    and toast: "length left_out = length new" "\<forall>j < length new. left_out ! j \<longrightarrow> new ! j = old ! j"
  shows "row_ops d (Insert i (wire_row new)) = Inr (table_ops d rel (Ins (table_row rel new)))"
    and "row_ops d (Delete i (Some (wire_row old)) key) = Inr (table_ops d rel (Del (table_row rel old)))"
    and "row_ops d (Update i (Some (wire_row old)) key (wire_row_toast left_out new))
           = Inr (table_ops d rel (Upd (table_row rel old) (table_row rel new)))"
proof -
  have len: "length old = length (rel_columns rel)" "length new = length (rel_columns rel)"
    using typed by (auto simp: row_typed_def dest: list_all2_lengthD)
  have "PToast \<notin> set new"
    using typed(2) has_type_not_toast by (fastforce simp: row_typed_def list_all2_conv_all_nth in_set_conv_nth)
  then have "substitute_toast (table_row rel old) (table_row rel (map2 (\<lambda>t v. if t then PToast else v) left_out new))
      = Inr (table_row rel new)"
    unfolding table_row_def using typed len toast
    by (intro substitute_restores) (auto simp: row_typed_def)
  then show "row_ops d (Update i (Some (wire_row old)) key (wire_row_toast left_out new))
           = Inr (table_ops d rel (Upd (table_row rel old) (table_row rel new)))"
    using rel decode_wire_row [OF typed(1)] decode_wire_toast [OF typed(2) toast(1)]
    by (simp add: row_ops_def with_relation_def table_ops_def)
  show "row_ops d (Insert i (wire_row new)) = Inr (table_ops d rel (Ins (table_row rel new)))"
    "row_ops d (Delete i (Some (wire_row old)) key) = Inr (table_ops d rel (Del (table_row rel old)))"
    using rel decode_wire_row [OF typed(1)] decode_wire_row [OF typed(2)]
    by (simp_all add: row_ops_def with_relation_def table_ops_def)
qed


section \<open>No missing columns\<close>

lemma decode_columns_names:
  "decode_columns acc cs ws = Inr r \<Longrightarrow> fst ` set r = fst ` set acc \<union> col_name ` set cs"
proof (induction acc cs ws rule: decode_columns.induct)
  case (2 row c cs v vs)
  have "fst ` set (dict_set (=) k x d) = insert k (fst ` set d)" for k x and d :: row
    unfolding dom_map_of_conv_image_fst [symmetric] by simp
  moreover obtain x where "decode_columns (dict_set (=) (col_name c) x row) cs vs = Inr r"
      "fst ` set r = fst ` set (dict_set (=) (col_name c) x row) \<union> col_name ` set cs"
    using 2 by (auto simp: res_simps)
  ultimately show ?case by simp
qed auto

lemma substitute_names: "substitute_toast old new = Inr r \<Longrightarrow> fst ` set r = fst ` set new"
proof -
  assume "substitute_toast old new = Inr r"
  then have "list_all2 (\<lambda>p q. fst p = fst q) new r"
    by (auto simp: substitute_toast_def mapE_Inr res_simps split: if_splits elim!: list_all2_mono)
  then have "map fst new = map fst r" by (induction rule: list_all2_induct) auto
  then show ?thesis by (metis list.set_map)
qed

lemma with_relation_ops:
  "with_relation d i f = Inr ops \<Longrightarrow> x \<in> set ops \<Longrightarrow>
   \<exists>rel. dict_get (=) (relations d) i = Some rel \<and> f rel (rel_views d rel) = Inr ops"
  by (auto simp: with_relation_def split: option.splits if_splits)

lemma map_of_names: "c \<in> fst ` set r \<Longrightarrow> map_of r c \<noteq> None"
  by (simp add: map_of_eq_None_iff)

text \<open>Where a row event comes from: a truncation, or rows of a known relation.\<close>

definition stems_from :: "daemon \<Rightarrow> string \<Rightarrow> row_event \<Rightarrow> relation \<Rightarrow> view_spec \<Rightarrow> bool" where
  "stems_from d n e rel v \<longleftrightarrow> v \<in> set (rel_views d rel) \<and> view_name v = n \<and>
     (\<forall>r \<in> set (event_rows e). (\<exists>i. dict_get (=) (relations d) i = Some rel) \<and> fst ` set r = col_name ` set (rel_columns rel))"

lemma stems_from_view:
  assumes "dict_get (=) (relations d) i = Some rel" "ops = map (\<lambda>v. (view_name v, e)) (rel_views d rel)" "(n, e') \<in> set ops"
    and "\<forall>r \<in> set (event_rows e). fst ` set r = col_name ` set (rel_columns rel)"
  shows "\<exists>rel v. stems_from d n e' rel v"
proof -
  obtain v where "v \<in> set (rel_views d rel)" "view_name v = n" "e' = e" using assms(2,3) by auto
  then show ?thesis unfolding stems_from_def using assms(1,4) by blast
qed

lemma decode_row_names: "decode_row rel ws = Inr r \<Longrightarrow> fst ` set r = col_name ` set (rel_columns rel)"
  using decode_columns_names [of "[]" "rel_columns rel" ws r] by (simp add: decode_row_def)

lemma row_ops_stem:
  assumes ops: "row_ops d msg = Inr ops" "(n, e) \<in> set ops"
  shows "\<exists>rel v. stems_from d n e rel v"
proof (cases msg)
  case (Insert i new)
  then obtain rel where rel: "dict_get (=) (relations d) i = Some rel"
      "bindE (decode_row rel new) (\<lambda>r. Inr (map (\<lambda>v. (view_name v, Ins r)) (rel_views d rel))) = Inr ops"
    using ops with_relation_ops by (fastforce simp: row_ops_def)
  then obtain r where r: "decode_row rel new = Inr r" "ops = map (\<lambda>v. (view_name v, Ins r)) (rel_views d rel)"
    by (auto simp: res_simps)
  show ?thesis by (rule stems_from_view [OF rel(1) r(2) ops(2)]) (simp add: decode_row_names [OF r(1)])
next
  case (Delete i old key)
  then obtain rel where rel: "dict_get (=) (relations d) i = Some rel"
      "(case old of None \<Rightarrow> Inl (SchemaDriftError (WithoutOldRow ''delete'' (namespace rel) (rel_name rel)))
        | Some old \<Rightarrow> bindE (decode_row rel old) (\<lambda>r. Inr (map (\<lambda>v. (view_name v, Del r)) (rel_views d rel)))) = Inr ops"
    using ops with_relation_ops by (fastforce simp: row_ops_def)
  then obtain o_data r where r: "decode_row rel o_data = Inr r" "ops = map (\<lambda>v. (view_name v, Del r)) (rel_views d rel)"
    by (auto simp: res_simps split: option.splits)
  show ?thesis by (rule stems_from_view [OF rel(1) r(2) ops(2)]) (simp add: decode_row_names [OF r(1)])
next
  case (Update i old key new)
  then obtain rel where rel: "dict_get (=) (relations d) i = Some rel"
      "(case old of None \<Rightarrow> Inl (SchemaDriftError (WithoutOldRow ''update'' (namespace rel) (rel_name rel)))
        | Some old \<Rightarrow> bindE (decode_row rel old) (\<lambda>o_row. bindE (decode_row rel new) (\<lambda>n_row.
             bindE (substitute_toast o_row n_row) (\<lambda>n_row.
               Inr (map (\<lambda>v. (view_name v, Upd o_row n_row)) (rel_views d rel)))))) = Inr ops"
    using ops with_relation_ops by (fastforce simp: row_ops_def)
  then obtain o_data r r1 r2 where r: "decode_row rel o_data = Inr r" "decode_row rel new = Inr r1"
      "substitute_toast r r1 = Inr r2" "ops = map (\<lambda>v. (view_name v, Upd r r2)) (rel_views d rel)"
    by (auto simp: res_simps split: option.splits)
  have "fst ` set r2 = col_name ` set (rel_columns rel)"
    using decode_row_names [OF r(2)] substitute_names [OF r(3)] by metis
  then show ?thesis
    by (intro stems_from_view [OF rel(1) r(4) ops(2)]) (simp add: decode_row_names [OF r(1)])
next
  case (Truncate options ids)
  then show ?thesis using ops by (fastforce simp: row_ops_def truncate_ops_def stems_from_def split: option.splits)
qed (use ops in \<open>auto simp: row_ops_def\<close>)

text \<open>C20: Every row event that a row message resolves to names a configured view, and its rows have all the columns that view reads; so a row event the daemon lets through never stops a batch for a missing column.\<close>
theorem row_ops_complete:
  assumes d: "daemon_ok cfg d" and ops: "row_ops d msg = Inr ops" "(n, e) \<in> set ops"
  shows "\<exists>v \<in> set (views cfg). view_name v = n \<and>
    (\<forall>r \<in> set (event_rows e). \<forall>c \<in> set (needed_columns v). map_of r c \<noteq> None)"
proof -
  obtain rel v where v: "v \<in> set (rel_views d rel)" "view_name v = n"
    and rows: "\<And>r. r \<in> set (event_rows e) \<Longrightarrow>
      (\<exists>i. dict_get (=) (relations d) i = Some rel) \<and> fst ` set r = col_name ` set (rel_columns rel)"
    using row_ops_stem [OF ops] unfolding stems_from_def by blast
  have "map_of r c \<noteq> None" if r: "r \<in> set (event_rows e)" and c: "c \<in> set (needed_columns v)" for r c
  proof (rule map_of_names)
    have "set (needed_columns v) \<subseteq> col_name ` set (rel_columns rel)"
      using d rows [OF r] v(1) unfolding daemon_ok_def required_columns_def by blast
    then have "c \<in> col_name ` set (rel_columns rel)" using c by blast
    then show "c \<in> fst ` set r" using rows [OF r] by simp
  qed
  moreover have "v \<in> set (views cfg)" using rel_views_ok [OF d] v(1) by simp
  ultimately show ?thesis using v(2) by blast
qed

end
