(* ===== verification/Loop.thy ===== *)
theory Loop
  imports Daemon "HOL-Library.Sublist"
begin

text \<open>
  The main loop refined to what it is for: it seals the source transactions of the stream, drops
  those at or before the checkpoint it started from, and flushes the others in order, in groups.

  \<open>collect\<close> is the specification of the sealing alone: no checkpoint, no clock, no batches.
  \<open>loop_groups\<close> relates every run of the loop, however it is cut into batches by the clock, the
  wakes and the stop request, to the transactions \<open>collect\<close> seals.
\<close>

section \<open>Sealing transactions\<close>

record collected =
  c_daemon :: daemon
  c_open :: "op list option"
  c_sealed :: "sealed_txn list"

definition collect_message :: "message \<Rightarrow> collected \<Rightarrow> collected res" where
  "collect_message msg c =
     (case msg of
        Begin _ _ _ \<Rightarrow> Inr (c\<lparr>c_open := Some []\<rparr>)
      | Commit _ _ lsn _ \<Rightarrow>
          Inr (c\<lparr>c_open := None,
                 c_sealed := c_sealed c @ [\<lparr>end_lsn = lsn, txn_ops = (case c_open c of None \<Rightarrow> [] | Some ops \<Rightarrow> ops)\<rparr>]\<rparr>)
      | Relation rel \<Rightarrow> bindE (on_relation rel (c_daemon c)) (\<lambda>d. Inr (c\<lparr>c_daemon := d\<rparr>))
      | Origin _ _ \<Rightarrow> Inr c
      | TypeInfo _ _ _ \<Rightarrow> Inr c
      | _ \<Rightarrow>
          (case c_open c of
             None \<Rightarrow> Inl (ProtocolError OutsideTransaction)
           | Some ops \<Rightarrow> bindE (row_ops (c_daemon c) msg) (\<lambda>more. Inr (c\<lparr>c_open := Some (ops @ more)\<rparr>))))"

definition collect :: "bytes list \<Rightarrow> collected \<Rightarrow> collected res" where
  "collect ps c = foldE (\<lambda>c p. bindE (decode_message p) (\<lambda>m. collect_message m c)) c ps"

definition nothing_collected :: "config \<Rightarrow> collected" where
  "nothing_collected cfg = \<lparr>c_daemon = new_daemon cfg 0, c_open = None, c_sealed = []\<rparr>"

lemma collect_append: "collect (ps @ qs) c = bindE (collect ps c) (collect qs)"
  by (simp add: collect_def foldE_append fun_eq_iff [of "collect qs"] cong: bindE_cong)

lemma collect_Cons: "collect (p # ps) c = bindE (collect [p] c) (collect ps)"
  using collect_append [of "[p]" ps c] by simp

fun payloads :: "tick list \<Rightarrow> bytes list" where
  "payloads [] = []"
| "payloads (t # ts) =
     (if stop_requested t then []
      else (case item t of None \<Rightarrow> payloads ts | Some p \<Rightarrow> p # payloads ts))"

definition fresh :: "int \<Rightarrow> sealed_txn list \<Rightarrow> sealed_txn list" where
  "fresh k ts = filter (\<lambda>t. k < end_lsn t) ts"

section \<open>The checkpoint does not matter to sealing\<close>

abbreviation (input) forget :: "daemon \<Rightarrow> daemon" where
  "forget d \<equiv> d\<lparr>checkpoint_lsn := 0\<rparr>"

lemma rel_views_forget: "rel_views (forget d) rel = rel_views d rel"
  by (simp add: rel_views_def)

lemma forget_last:
  "(forget d)\<lparr>relations := r, view_rel_ids := w\<rparr> = forget (d\<lparr>relations := r, view_rel_ids := w\<rparr>)"
  by (cases d) simp

lemma on_relation_forget: "on_relation rel (forget d) = bindE (on_relation rel d) (\<lambda>d. Inr (forget d))"
  by (simp add: on_relation_def Let_def bindE_assoc rel_views_forget forget_last)

lemma truncate_ops_forget: "truncate_ops (forget d) ids = truncate_ops d ids"
  by (simp add: truncate_ops_def rel_views_forget cong: option.case_cong)

lemma row_ops_forget: "row_ops (forget d) msg = row_ops d msg"
  by (cases msg) (simp_all add: row_ops_def with_relation_def truncate_ops_forget rel_views_forget split: option.split)

lemma on_relation_same: "on_relation rel d = Inr d' \<Longrightarrow> d_config d' = d_config d \<and> checkpoint_lsn d' = checkpoint_lsn d"
  by (auto simp: on_relation_def Let_def res_simps split: if_splits)

section \<open>The loop invariant\<close>

definition flush_effs :: "config \<Rightarrow> sealed_txn list \<Rightarrow> effect list \<Rightarrow> bool" where
  "flush_effs cfg g es \<longleftrightarrow> (\<exists>d d'. d_config d = cfg \<and> flush d g = Inr (es, d'))"

definition group_size_ok :: "config \<Rightarrow> sealed_txn list \<Rightarrow> bool" where
  "group_size_ok cfg g \<longleftrightarrow> g \<noteq> [] \<and> int (length g) \<le> batch_max_txns cfg"

definition last_lsn :: "int \<Rightarrow> sealed_txn list \<Rightarrow> int" where
  "last_lsn k ts = (if ts = [] then k else end_lsn (last ts))"

text \<open>\<open>done\<close> are the transactions flushed so far, out of the collected ones.\<close>

definition tracks :: "config \<Rightarrow> int \<Rightarrow> collected \<Rightarrow> sealed_txn list \<Rightarrow> loop_state \<Rightarrow> bool" where
  "tracks cfg k c flushed st \<longleftrightarrow>
     d_config (l_daemon st) = cfg \<and> c_daemon c = forget (l_daemon st) \<and> c_open c = open_ops st \<and>
     fresh k (c_sealed c) = flushed @ pending st \<and>
     checkpoint_lsn (l_daemon st) = last_lsn k flushed \<and>
     (pending st \<noteq> [] \<longrightarrow> oldest st \<noteq> None) \<and>
     sorted_wrt (<) (map end_lsn (c_sealed c))"

lemma start_tracks: "tracks cfg k (nothing_collected cfg) [] (start_state cfg k)"
  by (simp add: tracks_def nothing_collected_def start_state_def new_daemon_def fresh_def last_lsn_def)

lemma fresh_append [simp]: "fresh k (xs @ ys) = fresh k xs @ fresh k ys"
  by (simp add: fresh_def)

lemma last_lsn_append: "last_lsn k (xs @ ys) = (if ys = [] then last_lsn k xs else end_lsn (last ys))"
  by (simp add: last_lsn_def)

text \<open>A later transaction is past the running checkpoint exactly when it is past the first one.\<close>

lemma skip_rule:
  assumes "sorted_wrt (<) (map end_lsn (ts @ [t]))" "set flushed \<subseteq> set (fresh k ts)"
  shows "last_lsn k flushed < end_lsn t \<longleftrightarrow> k < end_lsn t"
proof (cases "flushed = []")
  case False
  then have "last flushed \<in> set (fresh k ts)" using assms(2) last_in_set by blast
  then have "k < end_lsn (last flushed)" "end_lsn (last flushed) < end_lsn t"
    using assms(1) by (auto simp: fresh_def sorted_wrt_append)
  then show ?thesis using False by (simp add: last_lsn_def)
qed (simp add: last_lsn_def)

lemma flush_config: "flush d g = Inr (es, d') \<Longrightarrow> d' = d\<lparr>checkpoint_lsn := end_lsn (last g)\<rparr> \<and> g \<noteq> []"
  by (auto simp: flush_def res_simps Let_def split: if_splits)

text \<open>A flush moves the pending transactions to the flushed ones.\<close>

lemma flush_tracks:
  assumes "tracks cfg k c flushed st" "flush_state st = Inr (es, st')"
  shows "tracks cfg k c (flushed @ pending st) st' \<and> flush_effs cfg (pending st) es \<and> pending st \<noteq> [] \<and> pending st' = []"
proof -
  obtain d where "flush (l_daemon st) (pending st) = Inr (es, d)"
      "st' = st\<lparr>l_daemon := d, pending := [], oldest := None\<rparr>"
    using assms(2) by (auto simp: flush_state_def res_simps)
  then show ?thesis
    using assms flush_config [of "l_daemon st" "pending st" es d]
    by (auto simp: tracks_def last_lsn_append flush_effs_def)
qed

text \<open>A message changes the loop's state the way it changes the collected one.\<close>

lemma message_tracks:
  assumes tr: "tracks cfg k c flushed st" and m: "on_message msg now st = Inr st'"
    and sorted: "\<And>c'. collect_message msg c = Inr c' \<Longrightarrow> sorted_wrt (<) (map end_lsn (c_sealed c'))"
  shows "\<exists>c'. collect_message msg c = Inr c' \<and> tracks cfg k c' flushed st'"
proof -
  have c: "c_daemon c = forget (l_daemon st)" "c_open c = open_ops st"
    using tr by (auto simp: tracks_def)
  show ?thesis
  proof (cases msg)
    case (Commit fl clsn lsn ts)
    let ?t = "\<lparr>end_lsn = lsn, txn_ops = (case open_ops st of None \<Rightarrow> [] | Some ops \<Rightarrow> ops)\<rparr>"
    let ?c = "c\<lparr>c_open := None, c_sealed := c_sealed c @ [?t]\<rparr>"
    have cm: "collect_message msg c = Inr ?c" using Commit c by (simp add: collect_message_def)
    have "set flushed \<subseteq> set (fresh k (c_sealed c))" using tr by (auto simp: tracks_def)
    then have "last_lsn k flushed < lsn \<longleftrightarrow> k < lsn"
      using skip_rule [of "c_sealed c" ?t flushed k] sorted [OF cm] by simp
    then have "tracks cfg k ?c flushed st'"
      using tr m sorted [OF cm] Commit
      by (auto simp: tracks_def on_message_def Let_def fresh_def split: if_splits)
    then show ?thesis using cm by blast
  next
    case (Relation rel)
    then show ?thesis
      using tr m c on_relation_same
      by (auto simp: on_message_def collect_message_def res_simps on_relation_forget tracks_def)
  qed (use tr m c in \<open>auto simp: on_message_def collect_message_def res_simps row_ops_forget tracks_def
        split: option.splits\<close>)
qed

lemma message_pending: "on_message msg now st = Inr st' \<Longrightarrow> length (pending st') \<le> Suc (length (pending st))"
  by (auto simp: on_message_def Let_def res_simps split: message.splits option.splits if_splits)

definition flushes :: "config \<Rightarrow> sealed_txn list list \<Rightarrow> effect list \<Rightarrow> bool" where
  "flushes cfg gs es \<longleftrightarrow> list_all (group_size_ok cfg) gs \<and> (\<exists>ess. list_all2 (flush_effs cfg) gs ess \<and> es = concat ess)"

lemma flushes_Nil: "flushes cfg [] []"
  by (simp add: flushes_def)

lemma flushes_append:
  assumes "flushes cfg gs es" "flushes cfg hs fs"
  shows "flushes cfg (gs @ hs) (es @ fs)"
proof -
  obtain ess fss where "list_all2 (flush_effs cfg) gs ess" "es = concat ess"
      "list_all2 (flush_effs cfg) hs fss" "fs = concat fss"
    using assms by (auto simp: flushes_def)
  then have "list_all2 (flush_effs cfg) (gs @ hs) (ess @ fss) \<and> es @ fs = concat (ess @ fss)"
    by (simp add: list_all2_appendI)
  then show ?thesis using assms unfolding flushes_def list_all_append by blast
qed

text \<open>A flush of the pending transactions, when they are not too many.\<close>

lemma flush_step:
  assumes "tracks cfg k c flushed st" "flush_state st = Inr (es, st')"
    and "int (length (pending st)) \<le> batch_max_txns cfg"
  shows "tracks cfg k c (flushed @ concat [pending st]) st' \<and> flushes cfg [pending st] es \<and> pending st' = []"
  using flush_tracks [OF assms(1,2)] assms(3)
  by (auto simp: flushes_def group_size_ok_def intro!: exI [of _ "[es]"])

lemma tick_step:
  assumes tr: "tracks cfg k c flushed st" and len: "int (length (pending st)) < batch_max_txns cfg"
    and t: "on_tick t st = Inr (es, st')"
    and sorted: "\<And>p c'. item t = Some p \<Longrightarrow> collect [p] c = Inr c' \<Longrightarrow> sorted_wrt (<) (map end_lsn (c_sealed c'))"
  shows "\<exists>c' gs. (case item t of None \<Rightarrow> c' = c | Some p \<Rightarrow> collect [p] c = Inr c') \<and>
           tracks cfg k c' (flushed @ concat gs) st' \<and> int (length (pending st')) < batch_max_txns cfg \<and>
           flushes cfg gs es"
proof (cases "item t")
  case None
  show ?thesis
  proof (cases "pending st = []")
    case True
    then show ?thesis
      using t None tr len by (auto simp: on_tick_def intro!: exI [of _ "[]"] flushes_Nil)
  next
    case False
    then have "flush_state st = Inr (es, st')" using t None by (simp add: on_tick_def)
    from flush_step [OF tr this] len show ?thesis
      using None by (auto intro!: exI [of _ "[pending st]"])
  qed
next
  case (Some p)
  then obtain msg st1 due where msg: "decode_message p = Inr msg" and st1: "on_message msg (sealed_at t) st = Inr st1"
    and due: "flush_due st1 (checked_at t) = Inr due"
    and rest: "(if due then flush_state st1 else Inr ([], st1)) = Inr (es, st')"
    using t by (auto simp: on_tick_def res_simps)
  have one: "collect [p] c = collect_message msg c" by (simp add: collect_def msg bindE_def split: sum.split)
  obtain c' where c': "collect_message msg c = Inr c'" "tracks cfg k c' flushed st1"
    using message_tracks [OF tr st1] sorted [OF Some] one by auto
  have len1: "int (length (pending st1)) \<le> batch_max_txns cfg"
    using message_pending [OF st1] len by simp
  show ?thesis
  proof (cases due)
    case True
    then have "flush_state st1 = Inr (es, st')" using rest by simp
    from flush_step [OF c'(2) this len1] len show ?thesis
      using Some one c'(1) by (auto intro!: exI [of _ c'] exI [of _ "[pending st1]"])
  next
    case False
    then have "pending st1 = [] \<or> int (length (pending st1)) < batch_max_txns cfg"
      using due c'(2) by (auto simp: flush_due_def tracks_def split: if_splits)
    then show ?thesis
      using Some one c' rest False len
      by (auto intro!: exI [of _ c'] exI [of _ "[]"] flushes_Nil)
  qed
qed

section \<open>The loop as a sequence of flushes\<close>

lemma finish_step:
  assumes "tracks cfg k c flushed st" "int (length (pending st)) < batch_max_txns cfg" "finish st = (es, r)"
  shows "\<exists>gs. flushes cfg gs es \<and> prefix (flushed @ concat gs) (fresh k (c_sealed c)) \<and>
    (\<forall>d. r = Inr d \<longrightarrow> flushed @ concat gs = fresh k (c_sealed c) \<and> checkpoint_lsn d = last_lsn k (fresh k (c_sealed c)))"
proof (cases "pending st = []")
  case True
  then show ?thesis
    using assms by (auto simp: finish_def tracks_def intro!: exI [of _ "[]"] flushes_Nil)
next
  case False
  show ?thesis
  proof (cases "flush_state st")
    case (Inl e)
    then show ?thesis
      using assms False by (auto simp: finish_def tracks_def intro!: exI [of _ "[]"] flushes_Nil)
  next
    case (Inr x)
    obtain fs st' where x: "x = (fs, st')" by (cases x)
    then have es: "es = fs" "r = Inr (l_daemon st')" using assms(3) False Inr by (auto simp: finish_def)
    have "flush_state st = Inr (fs, st')" using Inr x by simp
    from flush_step [OF assms(1) this] assms(2) show ?thesis
      unfolding es by (intro exI [of _ "[pending st]"]) (auto simp: tracks_def)
  qed
qed

lemma loop_step:
  assumes "tracks cfg k c flushed st" "int (length (pending st)) < batch_max_txns cfg"
    and "\<And>n c'. collect (take n (payloads ts)) c = Inr c' \<Longrightarrow> sorted_wrt (<) (map end_lsn (c_sealed c'))"
    and "daemon_loop ts st = (es, r)"
  shows "\<exists>n c' gs. collect (take n (payloads ts)) c = Inr c' \<and> flushes cfg gs es \<and>
    prefix (flushed @ concat gs) (fresh k (c_sealed c')) \<and>
    (\<forall>d. r = Inr d \<longrightarrow> length (payloads ts) \<le> n \<and> flushed @ concat gs = fresh k (c_sealed c') \<and>
        checkpoint_lsn d = last_lsn k (fresh k (c_sealed c')))"
  using assms
proof (induction ts arbitrary: c flushed st es)
  case Nil
  then show ?case using finish_step [OF Nil(1,2)] by (force simp: collect_def)
next
  case (Cons t ts)
  consider (stop) "stop_requested t" | (fail) e where "\<not> stop_requested t" "on_tick t st = Inl e"
    | (go) es1 st1 where "\<not> stop_requested t" "on_tick t st = Inr (es1, st1)"
    by (cases "on_tick t st") auto
  then show ?case
  proof cases
    case stop
    then show ?thesis using finish_step [OF Cons.prems(1,2)] Cons.prems(4) by (force simp: collect_def)
  next
    case fail
    then have "es = []" "r = Inl e" using Cons.prems(4) by auto
    then show ?thesis
      using Cons.prems(1) by (auto simp: tracks_def collect_def intro!: exI [of _ 0] exI [of _ c] exI [of _ "[]"] flushes_Nil)
  next
    case go
    obtain es2 where es2: "daemon_loop ts st1 = (es2, r)" "es = es1 @ es2"
      using Cons.prems(4) go by (auto split: prod.splits)
    have pl: "payloads (t # ts) = (case item t of None \<Rightarrow> [] | Some p \<Rightarrow> [p]) @ payloads ts"
      using go by (simp split: option.split)
    have sorted: "sorted_wrt (<) (map end_lsn (c_sealed c'))" if "item t = Some p" "collect [p] c = Inr c'" for p c'
      using Cons.prems(3) [of 1 c'] that pl by simp
    have "\<exists>c' gs. (case item t of None \<Rightarrow> c' = c | Some p \<Rightarrow> collect [p] c = Inr c') \<and>
        tracks cfg k c' (flushed @ concat gs) st1 \<and> int (length (pending st1)) < batch_max_txns cfg \<and> flushes cfg gs es1"
      by (rule tick_step [OF Cons.prems(1,2) go(2)]) (rule sorted)
    then obtain c1 gs1 where c1: "case item t of None \<Rightarrow> c1 = c | Some p \<Rightarrow> collect [p] c = Inr c1"
        "tracks cfg k c1 (flushed @ concat gs1) st1" "int (length (pending st1)) < batch_max_txns cfg" "flushes cfg gs1 es1"
      by blast
    have shift: "collect (take (n + length (payloads (t # ts)) - length (payloads ts)) (payloads (t # ts))) c
        = collect (take n (payloads ts)) c1" for n
      using c1(1) pl collect_Cons [of _ "take n (payloads ts)" c] by (auto split: option.splits)
    obtain n c' gs where IH: "collect (take n (payloads ts)) c1 = Inr c'" "flushes cfg gs es2"
        "prefix ((flushed @ concat gs1) @ concat gs) (fresh k (c_sealed c'))"
        "\<forall>d. r = Inr d \<longrightarrow> length (payloads ts) \<le> n \<and> (flushed @ concat gs1) @ concat gs = fresh k (c_sealed c') \<and>
          checkpoint_lsn d = last_lsn k (fresh k (c_sealed c'))"
      using Cons.IH [OF c1(2,3) _ es2(1)] Cons.prems(3) shift by metis
    show ?thesis
    proof (intro exI conjI)
      show "collect (take (n + length (payloads (t # ts)) - length (payloads ts)) (payloads (t # ts))) c = Inr c'"
        using IH(1) shift by simp
      show "flushes cfg (gs1 @ gs) es" using flushes_append c1(4) IH(2) es2(2) by blast
      show "prefix (flushed @ concat (gs1 @ gs)) (fresh k (c_sealed c'))" using IH(3) by simp
      show "\<forall>d. r = Inr d \<longrightarrow> length (payloads (t # ts)) \<le> n + length (payloads (t # ts)) - length (payloads ts) \<and>
          flushed @ concat (gs1 @ gs) = fresh k (c_sealed c') \<and> checkpoint_lsn d = last_lsn k (fresh k (c_sealed c'))"
        using IH(4) by auto
    qed
  qed
qed

lemma run_groups:
  assumes "run cfg (Row k) ticks = (es, r)" "0 < batch_max_txns cfg"
    and "\<And>n c. collect (take n (payloads ticks)) (nothing_collected cfg) = Inr c \<Longrightarrow> sorted_wrt (<) (map end_lsn (c_sealed c))"
  shows "\<exists>n c gs. collect (take n (payloads ticks)) (nothing_collected cfg) = Inr c \<and> flushes cfg gs es \<and>
    prefix (concat gs) (fresh k (c_sealed c)) \<and>
    (\<forall>d. r = Inr d \<longrightarrow> length (payloads ticks) \<le> n \<and> concat gs = fresh k (c_sealed c) \<and>
        checkpoint_lsn d = last_lsn k (fresh k (c_sealed c)))"
  using loop_step [OF start_tracks _ assms(3), where k = k and es = es and r = r] assms(1,2)
  by (simp add: run_def start_state_def)

text \<open>C7: Whatever the clock, the wakes and the stop request do, the effects of a run are flushes of consecutive groups, none empty and none above batch_max_txns, of the transactions sealed so far whose end LSN is past the starting checkpoint, in order and without gaps; a run that ends without an exception has flushed all of them and its checkpoint is the end LSN of the last.\<close>
theorem run_flushes:
  assumes "run cfg (Row k) ticks = (es, r)" "0 < batch_max_txns cfg"
    and "\<forall>n c. collect (take n (payloads ticks)) (nothing_collected cfg) = Inr c \<longrightarrow> sorted_wrt (<) (map end_lsn (c_sealed c))"
  shows "\<exists>n c gs. collect (take n (payloads ticks)) (nothing_collected cfg) = Inr c \<and> flushes cfg gs es \<and>
    prefix (concat gs) (fresh k (c_sealed c)) \<and>
    (\<forall>d. r = Inr d \<longrightarrow> length (payloads ticks) \<le> n \<and> concat gs = fresh k (c_sealed c) \<and>
        checkpoint_lsn d = last_lsn k (fresh k (c_sealed c)))"
  using run_groups [OF assms(1,2)] assms(3) by simp

end
