(* ===== verification/Maintenance.thy ===== *)
theory Maintenance
  imports GroundTruth
begin

text \<open>
  The maintenance theorem: running a batch's statements turns the result of the view's query on
  the old source table into its result on the new one.

  Three steps.  The decimal arithmetic of a batch is exact while the weights allow it
  (\<open>num_step\<close>, \<open>add_deltas\<close>); hence the groups of a batch add up, for every target row and
  column, to the difference of the aggregates (\<open>accumulates\<close>, kept by \<open>apply_event\<close>); hence the
  upserts and the cleanup leave the new aggregates (\<open>holds_after\<close>).
\<close>

section \<open>Exact arithmetic\<close>

definition num_at :: "nat \<Rightarrow> num \<Rightarrow> int \<Rightarrow> bool" where
  "num_at s x k = (case x of NInt n \<Rightarrow> k = n * 10 ^ s | NDec d \<Rightarrow> at_scale s d k)"

definition num_within :: "nat \<Rightarrow> int \<Rightarrow> num \<Rightarrow> bool" where
  "num_within s B x \<longleftrightarrow> (\<exists>k. num_at s x k \<and> \<bar>k\<bar> \<le> B)"

lemma num_at_rat: "num_at s x k \<Longrightarrow> num_rat x = of_int k / 10 ^ s"
  by (cases x) (auto simp: num_at_def at_scale_val)

lemma num_at_finite: "num_at s x k \<Longrightarrow> num_finite x"
  by (cases x) (auto simp: num_at_def elim: at_scaleE)

lemma at_scale_int: "at_scale s (Fin n 0) (n * 10 ^ s)"
  by (simp add: at_scale_def)

lemma num_within_mono: "num_within s B x \<Longrightarrow> B \<le> C \<Longrightarrow> num_within s C x"
  by (force simp: num_within_def)

lemma num_scale_at:
  assumes "num_at s d k" "\<bar>k\<bar> < 10 ^ 28" "s \<le> 1000000" "sg = 1 \<or> sg = - 1"
  shows "\<exists>d'. num_scale sg d = Inr d' \<and> num_at s d' (sg * k)"
proof (cases d)
  case (NInt n)
  then show ?thesis using assms by (auto simp: num_at_def)
next
  case (NDec a)
  then have "\<exists>a'. dec_mul (Fin sg 0) a = Inr a' \<and> at_scale s a' (sg * k)"
    using assms by (intro dec_mul_at_scale) (auto simp: num_at_def)
  then show ?thesis using NDec by (auto simp: num_at_def)
qed

lemma num_add_at:
  assumes "num_at s x k" "num_at s y l" "\<bar>k + l\<bar> < 10 ^ 28" "s \<le> 1000000"
  shows "\<exists>z. num_add x y = Inr z \<and> num_at s z (k + l)"
proof -
  have add: "\<exists>z. bindE (dec_add a b) (\<lambda>d. Inr (NDec d)) = Inr z \<and> num_at s z (k + l)"
    if "at_scale s a k" "at_scale s b l" for a b
    using dec_add_at_scale [OF that assms(3,4)] by (auto simp: num_at_def)
  show ?thesis
    using assms add at_scale_int
    by (cases x; cases y) (auto simp: num_at_def algebra_simps)
qed

text \<open>\<open>group[index] += sign * delta\<close> within the bounds.\<close>

lemma num_step:
  assumes "num_within s B x" "num_within s W d" "B + W < 10 ^ 28" "s \<le> 1000000" "sg = 1 \<or> sg = - 1"
  shows "\<exists>y z. num_scale sg d = Inr y \<and> num_add x y = Inr z \<and> num_within s (B + W) z \<and>
           num_rat z = num_rat x + of_int sg * num_rat d"
proof -
  obtain k l where k: "num_at s x k" "\<bar>k\<bar> \<le> B" and l: "num_at s d l" "\<bar>l\<bar> \<le> W"
    using assms(1,2) by (auto simp: num_within_def)
  have small: "\<bar>l\<bar> < 10 ^ 28" using l(2) k(2) assms(3) abs_ge_zero [of k] by linarith
  obtain y where y: "num_scale sg d = Inr y" "num_at s y (sg * l)"
    using num_scale_at [OF l(1) small assms(4,5)] by blast
  have kl: "\<bar>k + sg * l\<bar> \<le> B + W" using k(2) l(2) assms(5) by auto
  obtain z where z: "num_add x y = Inr z" "num_at s z (k + sg * l)"
    using num_add_at [OF k(1) y(2) le_less_trans [OF kl assms(3)] assms(4)] by blast
  have "num_rat z = num_rat x + of_int sg * num_rat d"
    unfolding num_at_rat [OF z(2)] num_at_rat [OF k(1)] num_at_rat [OF l(1)]
    by (simp add: add_divide_distrib)
  then show ?thesis using y(1) z kl by (auto simp: num_within_def)
qed

section \<open>The loop over a row's contributions\<close>

definition num_diff :: "int \<Rightarrow> num list \<Rightarrow> nat \<Rightarrow> nat \<Rightarrow> rat" where
  "num_diff sg ds j i = (if j \<le> i \<and> i < j + length ds then of_int sg * num_rat (ds ! (i - j)) else 0)"

lemma add_deltas:
  assumes "j + length ds \<le> length grp" "\<forall>x \<in> set grp. num_within s (B + W) x"
    "\<forall>i. j \<le> i \<longrightarrow> i < length grp \<longrightarrow> num_within s B (grp ! i)" "\<forall>d \<in> set ds. num_within s W d"
    "B + W < 10 ^ 28" "s \<le> 1000000" "sg = 1 \<or> sg = - 1"
  shows "\<exists>grp'. foldE (add_at sg) (grp, j) ds = Inr (grp', j + length ds) \<and> length grp' = length grp \<and>
           (\<forall>x \<in> set grp'. num_within s (B + W) x) \<and>
           (\<forall>i < length grp. num_rat (grp' ! i) = num_rat (grp ! i) + num_diff sg ds j i)"
  using assms(1-4)
proof (induction ds arbitrary: grp j)
  case Nil
  then show ?case by (auto simp: num_diff_def)
next
  case (Cons d ds)
  have j: "j < length grp" using Cons.prems(1) by simp
  obtain y z where yz: "num_scale sg d = Inr y" "num_add (grp ! j) y = Inr z" "num_within s (B + W) z"
      "num_rat z = num_rat (grp ! j) + of_int sg * num_rat d"
    using num_step [of s B "grp ! j" W d sg] Cons.prems j assms(5-7) by auto
  let ?g = "grp[j := z]"
  have step: "add_at sg (grp, j) d = Inr (?g, Suc j)"
    using j yz by (simp add: add_at_def)
  have "\<exists>grp'. foldE (add_at sg) (?g, Suc j) ds = Inr (grp', Suc j + length ds) \<and> length grp' = length ?g \<and>
      (\<forall>x \<in> set grp'. num_within s (B + W) x) \<and>
      (\<forall>i < length ?g. num_rat (grp' ! i) = num_rat (?g ! i) + num_diff sg ds (Suc j) i)"
    using Cons.prems yz(3) set_update_subset_insert [of grp j z] by (intro Cons.IH) auto
  then obtain grp' where g': "foldE (add_at sg) (?g, Suc j) ds = Inr (grp', Suc j + length ds)"
      "length grp' = length grp" "\<forall>x \<in> set grp'. num_within s (B + W) x"
      "\<forall>i < length grp. num_rat (grp' ! i) = num_rat (?g ! i) + num_diff sg ds (Suc j) i"
    by auto
  have "num_rat (?g ! i) + num_diff sg ds (Suc j) i = num_rat (grp ! i) + num_diff sg (d # ds) j i"
    if "i < length grp" for i
    using that yz(4) j by (cases "i = j") (auto simp: num_diff_def nth_Cons' Suc_le_eq)
  then show ?case using step g' by auto
qed

lemma fold_add_agg:
  "mapE (\<lambda>a. agg_deltas a r n) as = Inr dss \<Longrightarrow>
   foldE (add_agg sg r n) gi as = foldE (add_at sg) gi (concat dss)"
  by (induction as arbitrary: dss gi) (auto simp: res_simps add_agg_def foldE_append bindE_def split: sum.splits)

section \<open>A row's contributions\<close>

lemma num_within_int: "\<bar>n\<bar> * 10 ^ s \<le> W \<Longrightarrow> num_within s W (NInt n)"
  by (auto simp: num_within_def num_at_def abs_mult)

lemma pow10_ge_1: "1 \<le> (10 :: int) ^ s"
  by simp

lemma weights_nonneg: "0 \<le> sum_list (map (agg_weight s r) as)"
  by (rule sum_list_nonneg) (auto simp: agg_weight_def split: option.split)

lemma agg_deltas_ok:
  assumes st: "agg_storage a = Inr ss" and fits: "agg_fits s r a"
    and col: "\<And>c. agg_column a = Some c \<Longrightarrow> map_of r c \<noteq> None"
    and W: "10 ^ s + agg_weight s r a \<le> W"
  shows "\<exists>ds. agg_deltas a r n = Inr ds \<and> map num_rat ds = map (\<lambda>f. f {#r#}) (agg_values a) \<and>
           (\<forall>d \<in> set ds. num_within s W d)"
proof -
  have w: "0 \<le> agg_weight s r a" by (auto simp: agg_weight_def split: option.split)
  have one: "num_within s W (NInt 1)" "num_within s W (NInt 0)"
    using W w pow10_ge_1 [of s] by (intro num_within_int; linarith)+
  show ?thesis
  proof (cases "agg_fn a = ''count''")
    case True
    then show ?thesis
      using col one
      by (cases "agg_column a")
         (auto simp: agg_deltas_def agg_values_def getitem_def getv_def sql_count_def sql_count_col_def)
  next
    case False
    then obtain c where c: "agg_column a = Some c"
      using st by (auto simp: agg_storage_def split: if_splits option.splits)
    obtain x where x: "map_of r c = Some x" using col [OF c] by auto
    show ?thesis
    proof (cases "x = PNone")
      case True
      have "num_within s W (NDec (Fin 0 0))"
        using one(2) at_scale_int [of s 0] by (auto simp: num_within_def num_at_def)
      then show ?thesis
        using False c x True one
        by (auto simp: agg_deltas_def agg_values_def getitem_def getv_def sql_sum_def sql_count_col_def)
    next
      case False
      then obtain m e where d: "decimal_of x = Inr (Fin m e)" "- int s \<le> e"
        using fits c x \<open>agg_fn a \<noteq> ''count''\<close>
        by (auto simp: agg_fits_def fits_scale_def getv_def split: sum.splits decimal.splits)
      have "10 ^ s + \<bar>m * 10 ^ nat (e + int s)\<bar> \<le> W"
        using W d x c \<open>agg_fn a \<noteq> ''count''\<close> by (simp add: agg_weight_def scaled_def getv_def)
      then have "\<bar>m * 10 ^ nat (e + int s)\<bar> \<le> W" using pow10_ge_1 [of s] by linarith
      then have "num_within s W (NDec (Fin m e))"
        using d(2) by (auto simp: num_within_def num_at_def at_scale_def)
      then show ?thesis
        using \<open>agg_fn a \<noteq> ''count''\<close> c x False one d
        by (auto simp: agg_deltas_def agg_values_def getitem_def getv_def sql_sum_def sql_count_col_def
            as_decimal_def sql_num_def)
    qed
  qed
qed

lemma row_deltas_ok:
  assumes "mapE agg_storage as = Inr sss" "list_all (agg_fits s r) as"
    and "\<And>a c. a \<in> set as \<Longrightarrow> agg_column a = Some c \<Longrightarrow> map_of r c \<noteq> None"
    and "10 ^ s + sum_list (map (agg_weight s r) as) \<le> W"
  shows "\<exists>dss. mapE (\<lambda>a. agg_deltas a r n) as = Inr dss \<and>
           map num_rat (concat dss) = map (\<lambda>f. f {#r#}) (concat (map agg_values as)) \<and>
           (\<forall>d \<in> set (concat dss). num_within s W d)"
  using assms
proof (induction as arbitrary: sss)
  case (Cons a as)
  have w: "0 \<le> agg_weight s r a'" for a' by (auto simp: agg_weight_def split: option.split)
  have w': "0 \<le> sum_list (map (agg_weight s r) as)" by (rule sum_list_nonneg) (auto simp: w)
  obtain ss sss' where a: "agg_storage a = Inr ss" "mapE agg_storage as = Inr sss'"
    using Cons.prems(1) by (auto simp: res_simps)
  have "\<exists>ds. agg_deltas a r n = Inr ds \<and> map num_rat ds = map (\<lambda>f. f {#r#}) (agg_values a) \<and>
      (\<forall>d \<in> set ds. num_within s W d)"
    using Cons.prems w' by (intro agg_deltas_ok [OF a(1)]) auto
  moreover have "\<exists>dss. mapE (\<lambda>a. agg_deltas a r n) as = Inr dss \<and>
      map num_rat (concat dss) = map (\<lambda>f. f {#r#}) (concat (map agg_values as)) \<and>
      (\<forall>d \<in> set (concat dss). num_within s W d)"
  proof (rule Cons.IH [OF a(2)])
    show "10 ^ s + sum_list (map (agg_weight s r) as) \<le> W" using Cons.prems(4) w [of a] by simp
  qed (use Cons.prems(2,3) in auto)
  ultimately show ?case by (auto simp: ball_Un)
qed simp

lemma foldE_unit: "(\<And>x. x \<in> set xs \<Longrightarrow> f () x = Inr ()) \<Longrightarrow> foldE f () xs = Inr ()"
  by (induction xs) auto

text \<open>What construction guarantees of a view's plan.\<close>

lemma view_plan:
  assumes "batch_ok b" "v \<in> set (views_of b)"
  obtains p sss where "get_plan b (view_name v) = Inr p" "plan_view p = v" "needed p = needed_columns v"
    "mapE agg_storage (aggregates v) = Inr sss" "zeros p = NInt 0 # map st_zero (concat sss)"
    "length (zeros p) = length (delta_columns v)" "length (storage_values v) = length (delta_columns v)"
    "groups_of b (view_name v) = Inr (groups_in b (view_name v))"
proof -
  obtain m p where mp: "(m, p) \<in> set (plans b)" "plan_view p = v"
    using assms(2) by (auto simp: views_of_def)
  then have p: "build_plan v = Inr p" "m = view_name v" and d: "distinct (map fst (plans b))"
    using assms(1) by (auto simp: batch_ok_def)
  then have "get_plan b (view_name v) = Inr p" using mp by (simp add: get_plan_def)
  moreover obtain ss where ss: "view_storage v = Inr ss" "zeros p = NInt 0 # map st_zero ss"
      "storage_names v = map st_name ss"
    using build_planD(4) [OF p(1)] by blast
  moreover obtain sss where "mapE agg_storage (aggregates v) = Inr sss" "ss = concat sss"
    using ss(1) by (auto simp: view_storage_def res_simps)
  ultimately show thesis
    using that [of p sss] build_planD(1,2) [OF p(1)] groups_of_in [OF assms(1) mp(1)] p(2)
      mapE_lengths [of "aggregates v" sss]
    by (auto simp: delta_columns_def storage_values_def)
qed

lemma storage_zero: "agg_storage a = Inr ss \<Longrightarrow> s \<in> set ss \<Longrightarrow> st_zero s = NInt 0 \<or> st_zero s = NDec (Fin 0 0)"
  by (auto simp: agg_storage_def res_simps split: if_splits option.splits)

lemma zeros_zero:
  assumes "mapE agg_storage as = Inr sss" "x \<in> set (NInt 0 # map st_zero (concat sss))"
  shows "num_rat x = 0" "num_within s 0 x"
proof -
  have "x = NInt 0 \<or> x = NDec (Fin 0 0)"
    using assms
  proof (induction as arbitrary: sss)
    case (Cons a as)
    then show ?case by (fastforce simp: res_simps dest: storage_zero)
  qed auto
  then show "num_rat x = 0" "num_within s 0 x"
    by (auto simp: num_within_def num_at_def at_scale_def)
qed

section \<open>One row event\<close>

definition groups_within :: "nat \<Rightarrow> int \<Rightarrow> groups \<Rightarrow> bool" where
  "groups_within s B gs \<longleftrightarrow> (\<forall>(key, ds) \<in> set gs. \<forall>x \<in> set ds. num_within s B x)"

lemma row_weight_pos: "0 < row_weight s v r"
  using pow10_ge_1 [of s] weights_nonneg [of s r "aggregates v"] unfolding row_weight_def by linarith

lemma row_ok_get:
  assumes "row_ok s v r"
  shows "c \<in> set (needed_columns v) \<Longrightarrow> \<exists>x. map_of r c = Some x \<and> x \<noteq> PToast"
    and "c \<in> set (group_by v) \<Longrightarrow> getitem r c = Inr (getv r c)"
    and "a \<in> set (aggregates v) \<Longrightarrow> agg_column a = Some c \<Longrightarrow> map_of r c \<noteq> None"
proof -
  show need: "\<exists>x. map_of r c = Some x \<and> x \<noteq> PToast" if "c \<in> set (needed_columns v)" for c
    using that assms by (auto simp: row_ok_def list_all_iff split: option.splits)
  show "c \<in> set (group_by v) \<Longrightarrow> getitem r c = Inr (getv r c)"
    using need [of c] by (auto simp: needed_columns_def getitem_def getv_def)
  show "map_of r c \<noteq> None" if "a \<in> set (aggregates v)" "agg_column a = Some c"
    using need [of c] that by (force simp: needed_columns_def)
qed

lemma row_ok_check:
  assumes "row_ok s v r" "plan_view p = v" "needed p = needed_columns v"
  shows "check_needed p r = Inr ()" "mapE (getitem r) (group_by v) = Inr (row_key v r)"
proof -
  show "check_needed p r = Inr ()"
    unfolding check_needed_def assms(3)
    by (rule foldE_unit) (use row_ok_get(1) [OF assms(1)] in fastforce)
  show "mapE (getitem r) (group_by v) = Inr (row_key v r)"
    unfolding row_key_def by (rule mapE_total) (rule row_ok_get(2) [OF assms(1)])
qed

text \<open>The group a row goes to: the batch's, or zeros.\<close>

lemma group_before:
  fixes k
  assumes gs: "list_all (group_ok v) gs" "groups_within s B gs"
    and z: "length z = length (delta_columns v)" "\<forall>x \<in> set z. num_within s 0 x" and B: "0 \<le> B"
  defines "grp \<equiv> (case dict_get keys_eq gs k of Some g \<Rightarrow> g | None \<Rightarrow> z)"
  shows "length grp = length (delta_columns v) \<and> (\<forall>x \<in> set grp. num_within s B x)"
proof (cases "dict_get keys_eq gs k")
  case None
  then show ?thesis using z B by (auto simp: grp_def intro: num_within_mono)
next
  case (Some g)
  obtain k where "(k, g) \<in> set gs" using groupdict.get_entry [OF Some] by auto
  then show ?thesis using gs Some by (auto simp: grp_def list_all_iff group_ok_def groups_within_def)
qed

text \<open>What the columns of the group come to.\<close>

lemma group_after:
  assumes ds: "map num_rat ds = map (\<lambda>f. f {#r#}) (concat (map agg_values (aggregates v)))"
    and y: "num_rat y = num_rat x + of_int sg" and len: "1 + length ds = length (x # xs)"
    and g: "\<forall>i < length (y # xs). num_rat (grp' ! i) = num_rat ((y # xs) ! i) + num_diff sg ds 1 i"
    and i: "i < length (x # xs)"
  shows "num_rat (grp' ! i) = num_rat ((x # xs) ! i) + of_int sg * (storage_values v ! i) {#r#}"
proof (cases i)
  case 0
  then show ?thesis using g y by (simp add: num_diff_def storage_values_def sql_count_def)
next
  case (Suc j)
  have j: "j < length ds" using Suc i len by simp
  then have "num_rat (ds ! j) = (concat (map agg_values (aggregates v)) ! j) {#r#}"
    using arg_cong [OF ds, of "\<lambda>l. l ! j"] arg_cong [OF ds, of length] by simp
  then show ?thesis using g Suc i j by (auto simp: num_diff_def storage_values_def)
qed

lemma apply_row_exact:
  assumes b: "batch_ok b" and v: "v \<in> set (views_of b)" and r: "row_ok s v r"
    and B: "0 \<le> B" "groups_within s B (groups_in b (view_name v))"
    and gs: "list_all (group_ok v) (groups_in b (view_name v))"
    and W: "B + row_weight s v r < 10 ^ 28" and s: "s \<le> 1000000" and sg: "sg = 1 \<or> sg = - 1"
  obtains z grp' where
    "apply_row (view_name v) r sg b =
       Inr (set_groups (view_name v) (dict_set keys_eq (row_key v r) grp' (groups_in b (view_name v))) b)"
    "length grp' = length (delta_columns v)" "\<forall>x \<in> set grp'. num_within s (B + row_weight s v r) x"
    "\<And>i. i < length (delta_columns v) \<Longrightarrow> num_rat (z ! i) = 0"
    "\<And>i. i < length (delta_columns v) \<Longrightarrow>
       num_rat (grp' ! i) =
       num_rat ((case dict_get keys_eq (groups_in b (view_name v)) (row_key v r) of Some g \<Rightarrow> g | None \<Rightarrow> z) ! i)
         + of_int sg * (storage_values v ! i) {#r#}"
proof -
  let ?n = "view_name v" and ?W = "row_weight s v r" and ?gs = "groups_in b (view_name v)"
  obtain p sss where p: "get_plan b ?n = Inr p" "plan_view p = v" "needed p = needed_columns v"
    "mapE agg_storage (aggregates v) = Inr sss" "zeros p = NInt 0 # map st_zero (concat sss)"
    "length (zeros p) = length (delta_columns v)" "length (storage_values v) = length (delta_columns v)"
    "groups_of b ?n = Inr ?gs"
    by (rule view_plan [OF b v])
  define grp where "grp = (case dict_get keys_eq ?gs (row_key v r) of Some g \<Rightarrow> g | None \<Rightarrow> zeros p)"
  have zero: "num_rat x = 0 \<and> num_within s 0 x" if "x \<in> set (zeros p)" for x
    using zeros_zero [OF p(4)] that unfolding p(5) by blast
  have grp: "length grp = length (delta_columns v) \<and> (\<forall>x \<in> set grp. num_within s B x)"
    unfolding grp_def using gs B(2) p(6) _ B(1) by (rule group_before) (use zero in blast)
  then obtain x xs where x: "grp = x # xs" by (cases grp) (auto simp: delta_columns_def)
  have W1: "10 ^ s \<le> ?W"
    using weights_nonneg by (simp add: row_weight_def)
  have "num_within s ?W (NInt 1)" using W1 by (intro num_within_int) simp
  then obtain y where y: "num_add x (NInt sg) = Inr y" "num_within s (B + ?W) y"
      "num_rat y = num_rat x + of_int sg"
    using num_step [of s B x ?W "NInt 1" sg] grp x W s sg by auto
  obtain dss where dss: "mapE (\<lambda>a. agg_deltas a r ?n) (aggregates v) = Inr dss"
      "map num_rat (concat dss) = map (\<lambda>f. f {#r#}) (concat (map agg_values (aggregates v)))"
      "\<forall>d \<in> set (concat dss). num_within s ?W d"
    using row_deltas_ok [OF p(4), of s r ?W ?n] r row_ok_get(3) [OF r]
    by (auto simp: row_ok_def row_weight_def)
  let ?ds = "concat dss"
  have len: "1 + length ?ds = length grp"
    using arg_cong [OF dss(2), of length] p(7) grp by (simp add: storage_values_def)
  obtain grp' where g': "foldE (add_at sg) (y # xs, 1) ?ds = Inr (grp', 1 + length ?ds)"
      "length grp' = length (y # xs)" "\<forall>x \<in> set grp'. num_within s (B + ?W) x"
      "\<forall>i < length (y # xs). num_rat (grp' ! i) = num_rat ((y # xs) ! i) + num_diff sg ?ds 1 i"
  proof -
    have "\<forall>x \<in> set (y # xs). num_within s (B + ?W) x"
      using y(2) grp x row_weight_pos [of s v r] by (auto intro: num_within_mono)
    moreover have "\<forall>i. 1 \<le> i \<longrightarrow> i < length (y # xs) \<longrightarrow> num_within s B ((y # xs) ! i)"
      using grp x by (auto simp: nth_Cons' )
    ultimately show thesis
      using add_deltas [of 1 ?ds "y # xs" s B ?W sg] len dss(3) W s sg x that by auto
  qed
  have val: "num_rat (grp' ! i) = num_rat (grp ! i) + of_int sg * (storage_values v ! i) {#r#}"
    if i: "i < length (delta_columns v)" for i
    unfolding x using group_after [OF dss(2) y(3) _ g'(4), of i] len grp x i by simp
  show thesis
  proof (rule that [of grp' "zeros p"])
    show "apply_row ?n r sg b = Inr (set_groups ?n (dict_set keys_eq (row_key v r) grp' ?gs) b)"
      using r p row_ok_check [OF r p(2,3)] x y(1) g'(1) fold_add_agg [OF dss(1)]
      by (simp add: apply_row_def grp_def [symmetric] bump_rows_def row_ok_def)
  qed (use g' grp x val zero p(6) in \<open>auto simp: grp_def\<close>)
qed

section \<open>What a batch accumulates\<close>

lemma keys_eq_class: "keys_eq a b \<Longrightarrow> class_of v a = class_of v b"
  by (auto simp: keys_eq_def class_of_def list_all2_conv_all_nth py_eq_def intro!: nth_equalityI)

lemma total_dict_set:
  "total v (dict_set keys_eq key w gs) k i =
     total v gs k i +
     (if class_of v key = k
      then num_rat (w ! i) - (case dict_get keys_eq gs key of None \<Rightarrow> 0 | Some g \<Rightarrow> num_rat (g ! i)) else 0)"
proof (induction gs)
  case (Cons kd gs)
  obtain l ds where kd: "kd = (l, ds)" by (cases kd)
  show ?case
  proof (cases "keys_eq l key")
    case True
    then show ?thesis using keys_eq_class [OF True, of v] by (simp add: total_def kd)
  next
    case False
    then show ?thesis using Cons by (simp add: total_def kd)
  qed
qed (simp add: total_def)

definition base_rows :: "delta_batch \<Rightarrow> view_spec \<Rightarrow> row multiset \<Rightarrow> row multiset" where
  "base_rows b v S0 = (if view_name v \<in> truncated b then {#} else S0)"

text \<open>
  The batch \<open>b\<close>, started when the source table was \<open>S0\<close>, has brought the view up to \<open>S\<close>: the
  groups of each target row add up to the change since \<open>S0\<close>, or since the last truncation.
\<close>

definition accumulates :: "nat \<Rightarrow> int \<Rightarrow> view_spec \<Rightarrow> row multiset \<Rightarrow> row multiset \<Rightarrow> delta_batch \<Rightarrow> bool" where
  "accumulates s B v S0 S b \<longleftrightarrow>
     batch_ok b \<and> v \<in> set (views_of b) \<and> 0 \<le> B \<and>
     list_all (group_ok v) (groups_in b (view_name v)) \<and> groups_within s B (groups_in b (view_name v)) \<and>
     (\<forall>k. \<forall>i < length (delta_columns v). total v (groups_in b (view_name v)) k i =
        (storage_values v ! i) (members v S k) - (storage_values v ! i) (members v (base_rows b v S0) k)) \<and>
     (group_by v = [] \<and> view_name v \<in> truncated b \<longrightarrow> touches v (groups_in b (view_name v)) (class_of v []))"

definition same_elsewhere :: "string \<Rightarrow> delta_batch \<Rightarrow> delta_batch \<Rightarrow> bool" where
  "same_elsewhere n b b' \<longleftrightarrow>
     batch_ok b' \<and> views_of b' = views_of b \<and>
     (\<forall>m. m \<noteq> n \<longrightarrow> groups_in b' m = groups_in b m \<and> (m \<in> truncated b' \<longleftrightarrow> m \<in> truncated b))"

lemma same_elsewhere_trans: "same_elsewhere n b c \<Longrightarrow> same_elsewhere n c d \<Longrightarrow> same_elsewhere n b d"
  by (auto simp: same_elsewhere_def)

lemma accumulates_elsewhere:
  "accumulates s B v S0 S b \<Longrightarrow> same_elsewhere n b b' \<Longrightarrow> view_name v \<noteq> n \<Longrightarrow> accumulates s B v S0 S b'"
  by (auto simp: accumulates_def same_elsewhere_def base_rows_def)

lemma groups_in_set_groups: "groups_in (set_groups n g b) m = (if m = n then g else groups_in b m)"
  by (simp add: groups_in_def set_groups_def)

lemma set_groups_simps [simp]: "truncated (set_groups n g b) = truncated b" "plans (set_groups n g b) = plans b"
  by (simp_all add: set_groups_def)

lemma touches_dict_set: "touches v gs k \<Longrightarrow> touches v (dict_set keys_eq key w gs) k"
  by (induction gs) (auto simp: touches_def dest: keys_eq_class [of _ _ v])

lemma accumulate_row:
  assumes acc: "accumulates s B v S0 S b" and r: "row_ok s v r"
    and W: "B + row_weight s v r < 10 ^ 28" and s: "s \<le> 1000000" and sg: "sg = 1 \<or> sg = - 1"
    and S': "\<And>f k. sums_up f \<Longrightarrow> f (members v S' k) = f (members v S k) + of_int sg * f (members v {#r#} k)"
  shows "\<exists>b'. apply_row (view_name v) r sg b = Inr b' \<and> accumulates s (B + row_weight s v r) v S0 S' b' \<and>
           same_elsewhere (view_name v) b b'"
proof -
  let ?n = "view_name v" and ?W = "row_weight s v r" and ?gs = "groups_in b (view_name v)"
  have b: "batch_ok b" "v \<in> set (views_of b)" "0 \<le> B" "groups_within s B ?gs" "list_all (group_ok v) ?gs"
    using acc by (auto simp: accumulates_def)
  obtain z grp' where app: "apply_row ?n r sg b = Inr (set_groups ?n (dict_set keys_eq (row_key v r) grp' ?gs) b)"
    and len: "length grp' = length (delta_columns v)" and wi: "\<forall>x \<in> set grp'. num_within s (B + ?W) x"
    and z: "\<And>i. i < length (delta_columns v) \<Longrightarrow> num_rat (z ! i) = 0"
    and val: "\<And>i. i < length (delta_columns v) \<Longrightarrow>
       num_rat (grp' ! i) = num_rat ((case dict_get keys_eq ?gs (row_key v r) of Some g \<Rightarrow> g | None \<Rightarrow> z) ! i)
         + of_int sg * (storage_values v ! i) {#r#}"
    using apply_row_exact [OF b(1,2) r b(3,4,5) W s sg] by metis
  let ?gs' = "dict_set keys_eq (row_key v r) grp' ?gs"
  let ?b = "set_groups ?n ?gs' b"
  have gok: "group_ok v (k, grp')" if "length k = length (group_by v)" for k
    using that len wi by (auto simp: group_ok_def num_within_def list_all_iff dest: num_at_finite)
  have entry: "(k, ds) \<in> set ?gs \<or> ds = grp' \<and> length k = length (group_by v)" if "(k, ds) \<in> set ?gs'" for k ds
    using groupdict.entries_set [OF that] by (auto simp: keys_eq_def row_key_def dest: list_all2_lengthD)
  have "list_all (group_ok v) ?gs'"
    using b(5) gok entry by (fastforce simp: list_all_iff)
  moreover have "groups_within s (B + ?W) ?gs'"
    using b(4) wi entry row_weight_pos [of s v r]
    by (fastforce simp: groups_within_def intro: num_within_mono)
  moreover have "total v ?gs' k i =
      (storage_values v ! i) (members v S' k) - (storage_values v ! i) (members v (base_rows ?b v S0) k)"
    if i: "i < length (delta_columns v)" for k i
  proof -
    let ?f = "storage_values v ! i"
    have "length (storage_values v) = length (delta_columns v)"
      by (rule view_plan [OF b(1,2)]) simp
    then have f: "sums_up ?f" using i by (intro additive_storage [of _ v]) simp
    have "total v ?gs k i = ?f (members v S k) - ?f (members v (base_rows b v S0) k)"
      using acc i by (simp add: accumulates_def)
    moreover have "total v ?gs' k i = total v ?gs k i + of_int sg * ?f (members v {#r#} k)"
      using f val [OF i] z [OF i]
      by (auto simp: total_dict_set members_single sums_up_def split: option.split)
    ultimately show ?thesis
      using S' [OF f, of k] by (simp add: base_rows_def)
  qed
  moreover have ok: "batch_ok ?b \<and> views_of ?b = views_of b"
    using apply_row_ok [OF b(1) app] .
  ultimately have "accumulates s (B + ?W) v S0 S' ?b"
    using acc b row_weight_pos [of s v r]
    by (auto simp: accumulates_def groups_in_set_groups base_rows_def touches_dict_set)
  moreover have "same_elsewhere ?n b ?b"
    using ok by (auto simp: same_elsewhere_def groups_in_set_groups)
  ultimately show ?thesis using app by blast
qed

lemma groups_of_nonempty:
  "batch_ok b \<Longrightarrow> v \<in> set (views_of b) \<Longrightarrow> groups_of b (view_name v) = Inr (groups_in b (view_name v))"
  by (rule view_plan)

lemma members_global: "group_by v = [] \<Longrightarrow> class_of v (row_key v r) = class_of v []"
  by (simp add: row_key_def)

lemma accumulate_truncate:
  assumes acc: "accumulates s B v S0 S b"
  shows "\<exists>b'. apply_truncate (view_name v) b = Inr b' \<and> accumulates s B v S0 {#} b' \<and>
           same_elsewhere (view_name v) b b'"
proof -
  let ?n = "view_name v"
  have b: "batch_ok b" "v \<in> set (views_of b)" "0 \<le> B" using acc by (auto simp: accumulates_def)
  obtain p sss where p: "get_plan b ?n = Inr p" "plan_view p = v" "needed p = needed_columns v"
    "mapE agg_storage (aggregates v) = Inr sss" "zeros p = NInt 0 # map st_zero (concat sss)"
    "length (zeros p) = length (delta_columns v)" "length (storage_values v) = length (delta_columns v)"
    "groups_of b ?n = Inr (groups_in b ?n)"
    by (rule view_plan [OF b(1,2)])
  let ?gs = "if group_by v = [] then [([], zeros p)] else []"
  let ?b = "(set_groups ?n ?gs b)\<lparr>truncated := insert ?n (truncated b)\<rparr>"
  have app: "apply_truncate ?n b = Inr ?b" using p by (simp add: apply_truncate_def)
  have gin: "groups_in ?b m = (if m = ?n then ?gs else groups_in b m)" for m
    using groups_in_set_groups [of ?n ?gs b m] by (simp add: groups_in_def set_groups_def)
  have zero: "num_rat x = 0 \<and> num_within s 0 x" if "x \<in> set (zeros p)" for x
    using zeros_zero [OF p(4)] that unfolding p(5) by blast
  have ok: "batch_ok ?b \<and> views_of ?b = views_of b" using apply_truncate_ok [OF b(1) app] .
  have "list_all (group_ok v) ?gs" "groups_within s B ?gs"
    using zero p(6) b(3)
    by (auto simp: group_ok_def groups_within_def list_all_iff num_within_def intro: num_at_finite num_within_mono
        dest!: zero)
  moreover have "total v ?gs k i = 0" if "i < length (delta_columns v)" for k i
    using that zero p(6) by (auto simp: total_def)
  moreover have "touches v ?gs (class_of v [])" if "group_by v = []"
    using that by (simp add: touches_def)
  ultimately have "accumulates s B v S0 {#} ?b"
    unfolding accumulates_def gin using ok b by (auto simp: base_rows_def)
  moreover have "same_elsewhere ?n b ?b" using ok gin by (auto simp: same_elsewhere_def)
  ultimately show ?thesis using app by blast
qed

definition event_weight :: "nat \<Rightarrow> view_spec \<Rightarrow> row_event \<Rightarrow> int" where
  "event_weight s v e = sum_list (map (row_weight s v) (event_rows e))"

lemma accumulate_event:
  assumes acc: "accumulates s B v S0 S b" and e: "event_possible S e"
    and rows: "list_all (row_ok s v) (event_rows e)"
    and W: "B + event_weight s v e < 10 ^ 28" and s: "s \<le> 1000000"
  shows "\<exists>b'. apply_event (view_name v) e b = Inr b' \<and>
           accumulates s (B + event_weight s v e) v S0 (source_step S e) b' \<and> same_elsewhere (view_name v) b b'"
proof (cases e)
  case (Ins r)
  then show ?thesis
    using accumulate_row [OF acc _ _ s, of r 1 "add_mset r S"] rows W additive_add_mset
    by (simp add: apply_insert_def event_weight_def)
next
  case (Del r)
  then show ?thesis
    using accumulate_row [OF acc _ _ s, of r "- 1" "S - {#r#}"] rows W e additive_member
    by (simp add: apply_delete_def event_weight_def)
next
  case (Upd old new)
  have rw: "row_ok s v old" "row_ok s v new" using rows Upd by auto
  have w1: "B + row_weight s v old < 10 ^ 28" and w2: "B + row_weight s v old + row_weight s v new < 10 ^ 28"
    using W Upd row_weight_pos [of s v new] by (simp_all add: event_weight_def)
  obtain b1 where b1: "apply_row (view_name v) old (- 1) b = Inr b1"
      "accumulates s (B + row_weight s v old) v S0 (S - {#old#}) b1" "same_elsewhere (view_name v) b b1"
    using accumulate_row [OF acc rw(1) w1 s, of "- 1" "S - {#old#}"] additive_member [of _ old S v] e Upd by auto
  obtain b2 where "apply_row (view_name v) new 1 b1 = Inr b2"
      "accumulates s (B + row_weight s v old + row_weight s v new) v S0 (add_mset new (S - {#old#})) b2"
      "same_elsewhere (view_name v) b1 b2"
    using accumulate_row [OF b1(2) rw(2) w2 s, of 1 "add_mset new (S - {#old#})"]
      additive_add_mset [of _ v new "S - {#old#}"] by auto
  then show ?thesis
    using Upd b1 same_elsewhere_trans [OF b1(3)] by (simp add: apply_update_def event_weight_def add.assoc)
next
  case Trunc
  then show ?thesis using accumulate_truncate [OF acc] by (simp add: event_weight_def)
qed

text \<open>A fresh batch has accumulated nothing.\<close>

lemma new_batch_views:
  assumes "new_batch views = Inr b" "distinct (map view_name views)"
  shows "views_of b = views" "groups_in b n = []" "truncated b = {}"
proof -
  obtain ps where ps: "mapE build_plan views = Inr ps"
    and b: "b = (let pd = fold (\<lambda>(v, p) d. dict_set (=) (view_name v) p d) (zip views ps) []
       in \<lparr>plans = pd, deltas = map (\<lambda>(n, p). (n, [])) pd, truncated = {}\<rparr>)"
    using assms(1) by (auto simp: new_batch_def res_simps Let_def)
  have views: "list_all2 (\<lambda>v p. plan_view p = v) views ps"
    using ps by (auto simp: mapE_Inr intro: list_all2_mono build_planD(1))
  have "fold (\<lambda>(v, p) d. dict_set (=) (view_name v) p d) (zip vs qs) d = d @ zip (map view_name vs) qs"
    if "list_all2 (\<lambda>v p. plan_view p = v) vs qs" "distinct (map view_name vs)"
      "\<forall>v \<in> set vs. view_name v \<notin> fst ` set d" for vs and qs :: "plan list" and d
    using that
  proof (induction vs qs arbitrary: d rule: list_all2_induct)
    case (Cons v vs q qs)
    then have "dict_set (=) (view_name v) q d = d @ [(view_name v, q)]" by (intro dict_set_new) simp
    moreover have "\<forall>u \<in> set vs. view_name u \<noteq> view_name v" using Cons.prems(1) by (auto simp: image_iff)
    ultimately show ?case using Cons.IH [of "d @ [(view_name v, q)]"] Cons.prems by auto
  qed simp
  then have "plans b = zip (map view_name views) ps"
    using views assms(2) by (simp add: b Let_def)
  moreover have "map plan_view ps = views" using views by (induction rule: list_all2_induct) auto
  moreover have "length ps = length views" using views by (simp add: list_all2_lengthD)
  ultimately show "views_of b = views"
    by (simp add: views_of_def) (metis (no_types, lifting) length_map list.map_comp map_snd_zip)
  show "groups_in b n = []"
    by (auto simp: b Let_def groups_in_def split: option.split dest!: map_of_SomeD)
  show "truncated b = {}" by (simp add: b Let_def)
qed

lemma accumulates_new:
  assumes "new_batch views = Inr b" "distinct (map view_name views)" "v \<in> set views"
  shows "accumulates s 0 v S S b"
  using new_batch_views [OF assms(1,2)] new_batch_ok [OF assms(1)] assms(3)
  by (simp add: accumulates_def groups_within_def total_def base_rows_def)

section \<open>A sequence of events for several views\<close>

lemma events_weight_Cons: "events_weight s v (e # es) = event_weight s v e + events_weight s v es"
  by (simp add: events_weight_def event_weight_def)

lemma events_weight_nonneg: "0 \<le> events_weight s v es"
  unfolding events_weight_def by (rule sum_list_nonneg) (auto intro: less_imp_le [OF row_weight_pos])

lemma accumulate_ops:
  assumes "distinct (map view_name (views_of b))"
    and "\<And>v. v \<in> set (views_of b) \<Longrightarrow> accumulates s (B v) v (S0 v) (S v) b"
    and "fst ` set ops \<subseteq> view_name ` set (views_of b)" and s: "s \<le> 1000000"
    and "\<And>v. v \<in> set (views_of b) \<Longrightarrow> events_possible (S v) (events_for (view_name v) ops)"
    and "\<And>v. v \<in> set (views_of b) \<Longrightarrow>
           list_all (row_ok s v) (concat (map event_rows (events_for (view_name v) ops)))"
    and "\<And>v. v \<in> set (views_of b) \<Longrightarrow> B v + events_weight s v (events_for (view_name v) ops) < 10 ^ 28"
  shows "\<exists>b'. apply_ops b ops = Inr b' \<and> views_of b' = views_of b \<and>
           (\<forall>v \<in> set (views_of b). \<exists>C. accumulates s C v (S0 v) (source_run (S v) (events_for (view_name v) ops)) b')"
  using assms(1-3,5-7)
proof (induction ops arbitrary: b S B)
  case Nil
  then show ?case by (auto simp: apply_ops_def events_for_def source_run_def)
next
  case (Cons op ops)
  obtain n e where op: "op = (n, e)" by (cases op)
  obtain v where v: "v \<in> set (views_of b)" "view_name v = n" using Cons.prems(3) op by auto
  have ev: "events_for (view_name u) (op # ops) = (if u = v then [e] else []) @ events_for (view_name u) ops"
    if "u \<in> set (views_of b)" for u
    using that v Cons.prems(1) op by (auto simp: events_for_def dest: inj_onD simp: distinct_map)
  have "B v + event_weight s v e < 10 ^ 28"
    using Cons.prems(6) [OF v(1)] ev [OF v(1)] events_weight_nonneg [of s v "events_for n ops"] v(2)
    by (simp add: events_weight_Cons)
  then obtain b1 where b1: "apply_event n e b = Inr b1"
      "accumulates s (B v + event_weight s v e) v (S0 v) (source_step (S v) e) b1" "same_elsewhere n b b1"
    using accumulate_event [OF Cons.prems(2) [OF v(1)], of e] Cons.prems(4,5) [OF v(1)] ev [OF v(1)] s v(2)
    by auto
  have vs: "views_of b1 = views_of b" using b1(3) by (simp add: same_elsewhere_def)
  let ?B = "\<lambda>u. if u = v then B v + event_weight s v e else B u"
  let ?S = "\<lambda>u. if u = v then source_step (S v) e else S u"
  have run: "source_run (S u) (events_for (view_name u) (op # ops)) = source_run (?S u) (events_for (view_name u) ops)"
    if "u \<in> set (views_of b)" for u
    using ev [OF that] by (simp add: source_run_def)
  have "\<exists>b'. apply_ops b1 ops = Inr b' \<and> views_of b' = views_of b1 \<and>
      (\<forall>u \<in> set (views_of b1). \<exists>C. accumulates s C u (S0 u) (source_run (?S u) (events_for (view_name u) ops)) b')"
  proof (rule Cons.IH [where B = ?B])
    show "accumulates s (?B u) u (S0 u) (?S u) b1" if "u \<in> set (views_of b1)" for u
    proof (cases "u = v")
      case False
      then have "view_name u \<noteq> n" using that v vs Cons.prems(1) by (auto simp: distinct_map dest: inj_onD)
      then show ?thesis using False accumulates_elsewhere [OF Cons.prems(2) b1(3)] that vs by simp
    qed (use b1(2) in simp)
    show "events_possible (?S u) (events_for (view_name u) ops)"
      "list_all (row_ok s u) (concat (map event_rows (events_for (view_name u) ops)))"
      "?B u + events_weight s u (events_for (view_name u) ops) < 10 ^ 28"
      if "u \<in> set (views_of b1)" for u
      using that vs ev [of u] Cons.prems(4-6) [of u]
      by (auto simp: events_weight_Cons split: if_splits)
  qed (use Cons.prems(1,3) vs in auto)
  then show ?case using b1(1) vs run op by (fastforce simp: apply_ops_def)
qed

section \<open>The statements of an accumulated batch\<close>

definition values_at :: "view_spec \<Rightarrow> row multiset \<Rightarrow> cell list \<Rightarrow> rat list" where
  "values_at v S k = map (\<lambda>f. f (members v S k)) (storage_values v)"

lemma truth_values: "truth v S k = (if members v S k \<noteq> {#} \<or> group_by v = [] \<and> k = class_of v [] then Some (values_at v S k) else None)"
  by (simp add: truth_def values_at_def)

lemma hd_values: "0 < hd (values_at v S k) \<longleftrightarrow> members v S k \<noteq> {#}"
  by (simp add: values_at_def storage_values_def sql_count_def nonempty_has_size)

lemma values_at_members: "values_at v S k = values_at v S' k \<Longrightarrow> members v S k = {#} \<longleftrightarrow> members v S' k = {#}"
  using hd_values [of v S k] hd_values [of v S' k] by auto

lemma map_of_filter_hd:
  "distinct (map fst G) \<Longrightarrow>
   map_of (filter (\<lambda>(k, w). 0 < hd w) G) k =
     (case map_of G k of None \<Rightarrow> None | Some w \<Rightarrow> if 0 < hd w then Some w else None)" for w :: "rat list"
  by (induction G) (auto split: option.split simp: map_of_eq_None_iff [THEN iffD2] rev_image_eqI)

text \<open>The groups of a target row sum to the new values once the old ones are added.\<close>

lemma upserted_values:
  assumes acc: "accumulates s B v S0 S b"
    and G: "list_all (shaped (key_columns v) (delta_columns v)) G" "distinct (map fst G)"
      "\<forall>k. map_of G k = (if view_name v \<in> truncated b then None else truth v S0 k)"
  defines "gs \<equiv> groups_in b (view_name v)"
  shows "touches v gs k \<Longrightarrow> map_of (upsert_all v gs G) k = Some (values_at v S k)"
    and "\<not> touches v gs k \<Longrightarrow> map_of (upsert_all v gs G) k = map_of G k \<and>
           values_at v S k = values_at v (base_rows b v S0) k"
proof -
  let ?S = "base_rows b v S0" and ?n = "length (delta_columns v)"
  have b: "batch_ok b" "v \<in> set (views_of b)" and gok: "list_all (group_ok v) gs"
    and tot: "\<And>i. i < ?n \<Longrightarrow> total v gs k i = (storage_values v ! i) (members v S k) - (storage_values v ! i) (members v ?S k)"
    using acc by (auto simp: accumulates_def gs_def)
  have len: "length (storage_values v) = ?n" by (rule view_plan [OF b]) simp
  have base: "base G k i = (storage_values v ! i) (members v ?S k)" if "i < ?n" for i
  proof -
    have "sums_up (storage_values v ! i)" using that len by (intro additive_storage [of _ v]) simp
    then show ?thesis
      using G(3) that len by (auto simp: base_def base_rows_def truth_def sums_up_def)
  qed
  show "map_of (upsert_all v gs G) k = Some (values_at v S k)" if "touches v gs k"
  proof -
    have "map (\<lambda>i. base G k i + total v gs k i) [0..<?n] = values_at v S k"
      using len by (intro nth_equalityI) (auto simp: values_at_def base tot)
    then show ?thesis using that map_of_upsert_all [OF gok G(1,2), of k] by simp
  qed
  show "map_of (upsert_all v gs G) k = map_of G k \<and> values_at v S k = values_at v ?S k" if "\<not> touches v gs k"
  proof -
    have "total v gs k i = 0" for i
      using that by (induction gs) (auto simp: total_def touches_def)
    then have "values_at v S k = values_at v ?S k"
      using tot len by (intro nth_equalityI) (auto simp: values_at_def)
    then show ?thesis using that map_of_upsert_all [OF gok G(1,2), of k] by simp
  qed
qed

lemma holds_groups:
  assumes acc: "accumulates s B v S0 S b"
    and G: "list_all (shaped (key_columns v) (delta_columns v)) G" "distinct (map fst G)"
      "\<forall>k. map_of G k = (if view_name v \<in> truncated b then None else truth v S0 k)"
  defines "G2 \<equiv> upsert_all v (groups_in b (view_name v)) G"
  defines "G3 \<equiv> (if needs_cleanup b v then filter (\<lambda>(k, w). 0 < hd w) G2 else G2)"
  assumes d: "distinct (map fst G2)"
  shows "map_of G3 k = truth v S k"
proof -
  let ?gs = "groups_in b (view_name v)"
  note up = upserted_values [OF acc G, of k, folded G2_def]
  have gok: "list_all (group_ok v) ?gs" using acc by (simp add: accumulates_def)
  show ?thesis
  proof (cases "group_by v = []")
    case True
    then have G3: "G3 = G2" by (simp add: G3_def needs_cleanup_def)
    have mem: "members v T k = (if k = class_of v [] then T else {#})" for T
      using members_global [OF True] by (auto simp: members_def intro: multiset_eqI)
    show ?thesis
    proof (cases "touches v ?gs k")
      case t: True
      then obtain key ds where "(key, ds) \<in> set ?gs" "class_of v key = k" by (auto simp: touches_def list_ex_iff)
      then have "k = class_of v []" using gok True by (auto simp: list_all_iff group_ok_def)
      then show ?thesis using up(1) [OF t] True by (simp add: G3 truth_values)
    next
      case False
      note u = up(2) [OF False]
      show ?thesis
      proof (cases "k = class_of v []")
        case k: True
        then have "view_name v \<notin> truncated b" using acc False True by (auto simp: accumulates_def)
        then show ?thesis using u G(3) True k by (simp add: G3 truth_values base_rows_def)
      next
        case False
        then show ?thesis using u G(3) mem by (simp add: G3 truth_values)
      qed
    qed
  next
    case grouped: False
    have t: "truth v T k = (if members v T k \<noteq> {#} then Some (values_at v T k) else None)" for T
      using grouped by (simp add: truth_values)
    have filt: "map_of (filter (\<lambda>(k, w). 0 < hd w) G2) k =
        (case map_of G2 k of None \<Rightarrow> None | Some w \<Rightarrow> if 0 < hd w then Some w else None)"
      by (rule map_of_filter_hd [OF d])
    show ?thesis
    proof (cases "touches v ?gs k")
      case True
      then have "needs_cleanup b v" using grouped by (auto simp: needs_cleanup_def touches_def)
      then show ?thesis using up(1) [OF True] filt by (simp add: G3_def t hd_values)
    next
      case False
      note u = up(2) [OF False]
      have m: "members v S k = {#} \<longleftrightarrow> members v (base_rows b v S0) k = {#}"
        by (rule values_at_members) (use u in blast)
      show ?thesis
        using u G(3) m filt grouped
        by (auto simp: G3_def t base_rows_def hd_values)
    qed
  qed
qed

lemma shaped_filter: "list_all P G \<Longrightarrow> list_all P (filter Q G)"
  by (auto simp: list_all_iff)

lemma distinct_fst_filter: "distinct (map fst G) \<Longrightarrow> distinct (map fst (filter Q G))"
  by (simp add: distinct_map_filter)

lemma holds_after:
  assumes acc: "accumulates s B v S0 S b" and d: "distinct (all_columns v)" and T: "table_holds v T S0"
  shows "table_holds v (fold exec_table (view_stmts b v) T) S"
proof -
  obtain G0 where G0: "T = rows_of (all_columns v) G0" "distinct (map fst G0)"
      "list_all (shaped (key_columns v) (delta_columns v)) G0" "\<forall>k. map_of G0 k = truth v S0 k"
    using T by (auto simp: table_holds_def)
  let ?gs = "groups_in b (view_name v)" and ?c = "all_columns v"
  define G where "G = (if view_name v \<in> truncated b then [] else G0)"
  define G2 where "G2 = upsert_all v ?gs G"
  define G3 where "G3 = (if needs_cleanup b v then filter (\<lambda>(k, w). 0 < hd w) G2 else G2)"
  have G: "list_all (shaped (key_columns v) (delta_columns v)) G" "distinct (map fst G)"
      "\<forall>k. map_of G k = (if view_name v \<in> truncated b then None else truth v S0 k)"
    using G0 by (auto simp: G_def)
  have gok: "list_all (group_ok v) ?gs" using acc by (simp add: accumulates_def)
  have up: "fold exec_table (map (\<lambda>(key, ds). upsert_of v key ds) ?gs) (rows_of ?c G) = rows_of ?c G2"
      "list_all (shaped (key_columns v) (delta_columns v)) G2" "distinct (map fst G2)"
    using exec_upserts [OF d gok G(1,2)] by (simp_all add: G2_def)
  have "filter (\<lambda>r. \<not> cell_le0 (r rows_column)) (rows_of ?c G2) = rows_of ?c (filter (\<lambda>(k, w). 0 < hd w) G2)"
    using cleanup_rows_of [of "key_columns v" "storage_names v" G2] d up(2)
    by (simp add: all_columns_def delta_columns_def)
  moreover have "fold exec_table (if view_name v \<in> truncated b then [DeleteAll (view_name v)] else []) T = rows_of ?c G"
    using G0(1) by (simp add: G_def rows_of_def)
  ultimately have "fold exec_table (view_stmts b v) T = rows_of ?c G3"
    using up(1) by (auto simp: view_stmts_def G3_def)
  moreover have "map_of G3 k = truth v S k" for k
    unfolding G3_def G2_def by (rule holds_groups [OF acc G up(3) [unfolded G2_def]])
  ultimately show ?thesis
    using up(2,3) by (auto simp: table_holds_def G3_def shaped_filter distinct_fst_filter)
qed

lemma statements_defined:
  assumes "batch_ok b"
  shows "\<exists>sts. statements b = Inr sts"
proof -
  have view: "\<exists>p n. (n, p) \<in> set (plans b) \<and> plan_view p = v \<and> build_plan v = Inr p" if "v \<in> set (views_of b)" for v
    using that assms by (fastforce simp: views_of_def batch_ok_def)
  have "\<exists>x. render s = Inr x" if s: "s \<in> set (stmts b)" for s
  proof -
    have "\<exists>v \<in> set (views_of b). s = DeleteAll (view_name v) \<or> (\<exists>key ds. s = upsert_of v key ds) \<or> s = Cleanup (view_name v)"
      using s by (auto simp: stmts_def)
    then obtain v p where v: "build_plan v = Inr p"
        "s = DeleteAll (view_name v) \<or> (\<exists>key ds. s = upsert_of v key ds) \<or> s = Cleanup (view_name v)"
      using view by blast
    moreover obtain t where "target_text (view_name v) = Inr t"
      using build_planD(3) [OF v(1)] by (auto simp: target_is_text)
    moreover obtain q where "quote_ident rows_column = Inr q" using build_plan_rows [OF v(1)] by blast
    ultimately show ?thesis using build_planD(5) [OF v(1)] by auto
  qed
  then have "mapE render (stmts b) = Inr (map (\<lambda>s. projr (render s)) (stmts b))"
    by (intro mapE_total) (metis sum.sel(2))
  then show ?thesis using statements_text [OF assms] by auto
qed

section \<open>The maintenance theorem\<close>

lemma maintains:
  assumes b0: "new_batch views = Inr b0"
    and names: "distinct (map view_name views)" "\<forall>v \<in> set views. distinct (all_columns v)"
    and ops: "fst ` set ops \<subseteq> view_name ` set views"
    and start: "\<forall>v \<in> set views. table_holds v (db (view_name v)) (S v)"
    and possible: "\<forall>v \<in> set views. events_possible (S v) (events_for (view_name v) ops)"
    and exact: "\<forall>v \<in> set views. events_exact s v (events_for (view_name v) ops)"
  shows "\<exists>b sts. apply_ops b0 ops = Inr b \<and> statements b = Inr sts \<and> mapE render (stmts b) = Inr sts \<and>
    (\<forall>v \<in> set views. table_holds v (exec_stmts (stmts b) db (view_name v))
                       (source_run (S v) (events_for (view_name v) ops)))"
proof (cases "views = []")
  case True
  then show ?thesis
    using b0 ops statements_defined [OF new_batch_ok [OF b0]] statements_text [OF new_batch_ok [OF b0]]
    by (auto simp: apply_ops_def)
next
  case False
  note vs = new_batch_views [OF b0 names(1)]
  have s: "s \<le> 1000000" using exact False by (cases views) (auto simp: events_exact_def)
  have "\<exists>b. apply_ops b0 ops = Inr b \<and> views_of b = views_of b0 \<and>
      (\<forall>v \<in> set (views_of b0). \<exists>C. accumulates s C v (S v) (source_run (S v) (events_for (view_name v) ops)) b)"
    using accumulates_new [OF b0 names(1)] names(1) ops possible exact s
    by (intro accumulate_ops [where B = "\<lambda>_. 0"]) (auto simp: vs events_exact_def)
  then obtain b where b: "apply_ops b0 ops = Inr b" "views_of b = views"
      "\<forall>v \<in> set views. \<exists>C. accumulates s C v (S v) (source_run (S v) (events_for (view_name v) ops)) b"
    using vs by auto
  have ok: "batch_ok b" using b(3) False by (cases views) (auto simp: accumulates_def)
  have "table_holds v (exec_stmts (stmts b) db (view_name v)) (source_run (S v) (events_for (view_name v) ops))"
    if v: "v \<in> set views" for v
  proof -
    obtain C where "accumulates s C v (S v) (source_run (S v) (events_for (view_name v) ops)) b"
      using b(3) v by blast
    from holds_after [OF this] names start v show ?thesis
      using stmts_view [of b v] b(2) by (simp add: exec_stmts_table)
  qed
  moreover obtain sts where "statements b = Inr sts" using statements_defined [OF ok] by blast
  ultimately show ?thesis using b(1) statements_text [OF ok] by auto
qed

text \<open>C5: Let every target table hold the result of its view's query on the source tables. If a fresh DeltaBatch is fed any interleaving of inserts, updates, deletes and truncations of the source rows, for any of the views, whose decimal arithmetic stays within 28 digits, then no method raises, statements() succeeds, and executing its statements leaves every target table holding the result of its query on the changed source tables.\<close>
theorem batch_maintains:
  assumes b0: "new_batch views = Inr b0"
    and names: "distinct (map view_name views)" "\<forall>v \<in> set views. distinct (all_columns v)"
    and ops: "fst ` set ops \<subseteq> view_name ` set views"
    and start: "\<forall>v \<in> set views. table_holds v (db (view_name v)) (S v)"
    and possible: "\<forall>v \<in> set views. events_possible (S v) (events_for (view_name v) ops)"
    and exact: "\<forall>v \<in> set views. events_exact s v (events_for (view_name v) ops)"
  shows "\<exists>b sts. apply_ops b0 ops = Inr b \<and> statements b = Inr sts \<and> mapE render (stmts b) = Inr sts \<and>
    (\<forall>v \<in> set views. table_holds v (exec_stmts (stmts b) db (view_name v))
                       (source_run (S v) (events_for (view_name v) ops)))"
  using assms by (rule maintains)

section \<open>An execution\<close>

definition demo_view :: view_spec where
  "demo_view = \<lparr>view_name = ''v'', source_schema = ''public'', source_table = ''t'', group_by = [''g''],
     aggregates = [\<lparr>agg_fn = ''count'', agg_column = None, agg_alias = ''n''\<rparr>,
                   \<lparr>agg_fn = ''sum'', agg_column = Some ''x'', agg_alias = ''s''\<rparr>]\<rparr>"

definition demo_row :: "string \<Rightarrow> pyval \<Rightarrow> row" where
  "demo_row g x = [(''g'', PStr g), (''x'', x)]"

definition demo_ops :: "(string \<times> row_event) list" where
  "demo_ops = [(''v'', Ins (demo_row ''a'' (PDec (Fin 125 (- 2))))), (''v'', Ins (demo_row ''a'' PNone)),
     (''v'', Upd (demo_row ''a'' PNone) (demo_row ''b'' (PDec (Fin (- 3) 0)))),
     (''v'', Del (demo_row ''a'' (PDec (Fin 125 (- 2)))))]"

definition demo_batch :: delta_batch where
  "demo_batch = projr (new_batch [demo_view])"

lemma demo_batch: "new_batch [demo_view] = Inr demo_batch"
proof -
  have "\<not> isl (new_batch [demo_view])" by code_simp
  then show ?thesis by (simp add: demo_batch_def)
qed

lemma demo_group: "group_by demo_view \<noteq> []"
  by (simp add: demo_view_def)

lemma demo_cols: "all_columns demo_view = [''g'', ''__walflux_rows'', ''n'', ''s__sum'', ''s__nn'']"
  by code_simp

lemma holds_empty: "group_by v \<noteq> [] \<Longrightarrow> table_holds v [] {#}"
  by (auto simp: table_holds_def truth_def rows_of_def)

lemma demo_events: "events_for ''v'' demo_ops = map snd demo_ops"
  by (simp add: events_for_def demo_ops_def)

lemma demo_exact: "events_exact 2 demo_view (map snd demo_ops)"
  by (simp add: events_exact_def events_weight_def row_weight_def agg_weight_def scaled_def row_ok_def
      needed_columns_def fromkeys_def row_key_def agg_fits_def fits_scale_def getv_def demo_view_def demo_ops_def
      demo_row_def)

lemma demo_possible: "events_possible {#} (map snd demo_ops)"
  by (simp add: demo_ops_def demo_row_def)


theorem batch_maintains_witness:
  "\<exists>b sts. apply_ops demo_batch demo_ops = Inr b \<and> statements b = Inr sts \<and> mapE render (stmts b) = Inr sts \<and>
     table_holds demo_view (exec_stmts (stmts b) (\<lambda>_. []) ''v'') {#demo_row ''b'' (PDec (Fin (- 3) 0))#}"
proof -
  have n: "view_name demo_view = ''v''" by (simp add: demo_view_def)
  have run: "source_run {#} (map snd demo_ops) = {#demo_row ''b'' (PDec (Fin (- 3) 0))#}"
    by (simp add: source_run_def demo_ops_def demo_row_def)
  have "\<exists>b sts. apply_ops demo_batch demo_ops = Inr b \<and> statements b = Inr sts \<and> mapE render (stmts b) = Inr sts \<and>
    (\<forall>v \<in> set [demo_view]. table_holds v (exec_stmts (stmts b) (\<lambda>_. []) (view_name v))
                       (source_run {#} (events_for (view_name v) demo_ops)))"
  proof (rule batch_maintains [OF demo_batch, where S = "\<lambda>_. {#}" and s = 2])
    show "fst ` set demo_ops \<subseteq> view_name ` set [demo_view]" by (simp add: n demo_ops_def)
  qed (simp_all add: n demo_cols demo_events demo_exact demo_possible holds_empty demo_group)
  then show ?thesis by (simp add: n demo_events run)
qed

text \<open>
  Outside the bound the arithmetic rounds: the delta of one row with a 29-digit value is not the
  value.
\<close>

lemma rounded_delta:
  "num_scale 1 (NDec (Fin 12345678901234567890123456789 0)) = Inr (NDec (Fin 1234567890123456789012345679 1))"
  by code_simp

end
