(* ===== verification/ExactlyOnce.thy ===== *)
theory ExactlyOnce
  imports Loop Maintenance
begin

text \<open>
  Exactly-once application across crashes.

  \<open>world\<close> is what outlives the daemon: the target database, whose tables and checkpoint row a
  transaction changes together, and the position the server has been told is applied.  A session
  is one run of the daemon cut after any number of its effects; an uncommitted transaction is
  lost with it.  The server redelivers everything it has not been told is applied, and may
  redeliver more.
\<close>

section \<open>The durable state\<close>

record target_db =
  tables :: db
  checkpoints :: "string \<Rightarrow> int option"

record world =
  durable :: target_db
  working :: target_db
  confirmed :: int

fun exec_effect :: "effect \<Rightarrow> world \<Rightarrow> world" where
  "exec_effect (Execute s sql params) w =
     w\<lparr>working := (working w)\<lparr>tables := exec_stmt s (tables (working w))\<rparr>\<rparr>"
| "exec_effect (SaveCheckpoint n lsn) w =
     w\<lparr>working := (working w)\<lparr>checkpoints := (checkpoints (working w))(n \<mapsto> lsn)\<rparr>\<rparr>"
| "exec_effect CommitTxn w = w\<lparr>durable := working w\<rparr>"
| "exec_effect (Ack lsn) w = w\<lparr>confirmed := lsn\<rparr>"

definition exec_effects :: "effect list \<Rightarrow> world \<Rightarrow> world" where
  "exec_effects es w = fold exec_effect es w"

definition recover :: "world \<Rightarrow> world" where
  "recover w = w\<lparr>working := durable w\<rparr>"

text \<open>A session that dies after \<open>j\<close> effects; with \<open>j\<close> large enough it runs to its end.\<close>

definition session :: "config \<Rightarrow> tick list \<Rightarrow> nat \<Rightarrow> world \<Rightarrow> world" where
  "session cfg ticks j w =
     recover (exec_effects (take j (fst (run cfg
       (case checkpoints (durable w) (slot cfg) of None \<Rightarrow> NoRow | Some k \<Rightarrow> Row k) ticks))) (recover w))"

lemma exec_effects_append: "exec_effects (es @ fs) w = exec_effects fs (exec_effects es w)"
  by (simp add: exec_effects_def)

section \<open>One flush\<close>

lemma apply_txns: "foldE apply_txn b g = apply_ops b (concat (map txn_ops g))"
  by (induction g arbitrary: b) (simp_all add: apply_txn_def apply_ops_def foldE_append)

lemma exec_executes:
  "length ss = length sts \<Longrightarrow>
   exec_effects (map2 (\<lambda>tree (sql, params). Execute tree sql params) ss sts) w =
     w\<lparr>working := (working w)\<lparr>tables := exec_stmts ss (tables (working w))\<rparr>\<rparr>"
proof (induction ss sts arbitrary: w rule: list_induct2)
  case Nil
  then show ?case by (simp add: exec_effects_def exec_stmts_def)
next
  case (Cons s ss x sts)
  obtain sql params where "x = (sql, params)" by (cases x)
  then show ?case using Cons by (simp add: exec_effects_def exec_stmts_def)
qed

lemma take_executes:
  "exec_effects (take j (map2 (\<lambda>tree (sql, params). Execute tree sql params) ss sts)) w
     = w\<lparr>working := working (exec_effects (take j (map2 (\<lambda>tree (sql, params). Execute tree sql params) ss sts)) w)\<rparr>"
proof -
  have only: "exec_effects es w = w\<lparr>working := working (exec_effects es w)\<rparr>"
    if "\<forall>e \<in> set es. \<exists>s sql params. e = Execute s sql params" for es and w :: world
    using that
  proof (induction es arbitrary: w)
    case (Cons e es)
    obtain s sql params where e: "e = Execute s sql params" using Cons.prems by auto
    let ?w = "exec_effect e w"
    have "exec_effects es ?w = ?w\<lparr>working := working (exec_effects es ?w)\<rparr>" using Cons by simp
    then show ?case by (simp add: e exec_effects_def)
  qed (simp add: exec_effects_def)
  show ?thesis by (rule only) (auto dest!: in_set_takeD)
qed

text \<open>
  A flush cut short: before its commit nothing durable has happened; from the commit on the
  tables and the checkpoint have moved together, and only then is the position confirmed.
\<close>

definition after_flush :: "config \<Rightarrow> sealed_txn list \<Rightarrow> db \<Rightarrow> world \<Rightarrow> world" where
  "after_flush cfg g db w =
     w\<lparr>durable := (durable w)\<lparr>tables := db, checkpoints := (checkpoints (durable w))(slot cfg \<mapsto> end_lsn (last g))\<rparr>\<rparr>"

lemma flush_cut:
  assumes g: "flush_effs cfg g es" and w: "working w = durable w"
  shows "\<exists>b. apply_ops (projr (new_batch (views cfg))) (concat (map txn_ops g)) = Inr b \<and>
    (\<exists>b0. new_batch (views cfg) = Inr b0) \<and>
    exec_effects es w = recover ((after_flush cfg g (exec_stmts (stmts b) (tables (durable w))) w)\<lparr>confirmed := end_lsn (last g)\<rparr>) \<and>
    recover (exec_effects (take j es) w) \<in>
      {w, recover (after_flush cfg g (exec_stmts (stmts b) (tables (durable w))) w),
       recover ((after_flush cfg g (exec_stmts (stmts b) (tables (durable w))) w)\<lparr>confirmed := end_lsn (last g)\<rparr>)}"
proof -
  obtain d d' where d: "d_config d = cfg" "flush d g = Inr (es, d')" using g by (auto simp: flush_effs_def)
  then obtain b0 b sts where b0: "new_batch (views cfg) = Inr b0" and b: "apply_ops b0 (concat (map txn_ops g)) = Inr b"
    and sts: "statements b = Inr sts"
    and es: "es = map2 (\<lambda>tree (sql, params). Execute tree sql params) (stmts b) sts @
               [SaveCheckpoint (slot cfg) (end_lsn (last g)), CommitTxn, Ack (end_lsn (last g))]"
    by (auto simp: flush_def res_simps apply_txns Let_def split: if_splits)
  have ok: "batch_ok b"
  proof -
    have "(\<lambda>b. batch_ok b) b"
      using b new_batch_ok [OF b0] unfolding apply_ops_def
      by (rule foldE_invariant) (auto simp: apply_event_ok)
    then show ?thesis .
  qed
  have len: "length (stmts b) = length sts"
  proof -
    have "mapE render (stmts b) = Inr sts" using statements_text [OF ok] sts by simp
    then show ?thesis by (simp add: mapE_Inr list_all2_lengthD)
  qed
  let ?ex = "map2 (\<lambda>tree (sql, params). Execute tree sql params) (stmts b) sts"
  let ?db = "exec_stmts (stmts b) (tables (durable w))"
  let ?lsn = "end_lsn (last g)"
  let ?w1 = "w\<lparr>working := (durable w)\<lparr>tables := ?db\<rparr>\<rparr>"
  have ex: "exec_effects ?ex w = ?w1" using exec_executes [OF len, of w] w by simp
  have full: "exec_effects es w = recover ((after_flush cfg g ?db w)\<lparr>confirmed := ?lsn\<rparr>)"
    unfolding es exec_effects_append ex by (simp add: exec_effects_def after_flush_def recover_def)
  have w': "recover w = w" using w by (simp add: recover_def)
  have "recover (exec_effects (take j es) w) \<in>
      {w, recover (after_flush cfg g ?db w), recover ((after_flush cfg g ?db w)\<lparr>confirmed := ?lsn\<rparr>)}"
  proof -
    let ?n = "length ?ex"
    consider "j \<le> ?n" | "j = ?n + 1" | "j = ?n + 2" | "?n + 3 \<le> j" by arith
    then show ?thesis
    proof cases
      case 1
      then have "exec_effects (take j es) w = w\<lparr>working := working (exec_effects (take j ?ex) w)\<rparr>"
        using take_executes [of j "stmts b" sts w] by (simp add: es)
      then show ?thesis using w by (simp add: recover_def)
    next
      case 4
      then show ?thesis using full by (simp add: es recover_def)
    qed (simp_all add: es exec_effects_append ex, simp_all add: exec_effects_def recover_def after_flush_def w)
  qed
  then show ?thesis using b0 b full by auto
qed

section \<open>The history of the source\<close>

definition ops_of :: "sealed_txn list \<Rightarrow> op list" where
  "ops_of ts = concat (map txn_ops ts)"

definition applied :: "int \<Rightarrow> sealed_txn list \<Rightarrow> sealed_txn list" where
  "applied k H = filter (\<lambda>t. end_lsn t \<le> k) H"

text \<open>The source rows of a view once exactly the transactions up to \<open>k\<close> have happened.\<close>

definition source_at :: "(view_spec \<Rightarrow> row multiset) \<Rightarrow> sealed_txn list \<Rightarrow> int \<Rightarrow> view_spec \<Rightarrow> row multiset" where
  "source_at S0 H k v = source_run (S0 v) (events_for (view_name v) (ops_of (applied k H)))"

definition usable :: "config \<Rightarrow> bool" where
  "usable cfg \<longleftrightarrow>
     distinct (map view_name (views cfg)) \<and> list_all (\<lambda>v. distinct (all_columns v)) (views cfg) \<and>
     0 < batch_max_txns cfg"

text \<open>
  A history is sound when its end LSNs increase, its row events are possible, and the arithmetic
  of any batch of consecutive transactions is exact.
\<close>

definition history_ok :: "config \<Rightarrow> nat \<Rightarrow> (view_spec \<Rightarrow> row multiset) \<Rightarrow> sealed_txn list \<Rightarrow> bool" where
  "history_ok cfg s S0 H \<longleftrightarrow>
     sorted_wrt (<) (map end_lsn H) \<and> fst ` set (ops_of H) \<subseteq> view_name ` set (views cfg) \<and>
     (\<forall>v \<in> set (views cfg). events_possible (S0 v) (events_for (view_name v) (ops_of H)) \<and>
        (\<forall>g. sublist g H \<longrightarrow> int (length g) \<le> batch_max_txns cfg \<longrightarrow>
           events_exact s v (events_for (view_name v) (ops_of g))))"

definition consistent :: "config \<Rightarrow> (view_spec \<Rightarrow> row multiset) \<Rightarrow> sealed_txn list \<Rightarrow> int \<Rightarrow> world \<Rightarrow> bool" where
  "consistent cfg S0 H k w \<longleftrightarrow>
     working w = durable w \<and> checkpoints (durable w) (slot cfg) = Some k \<and> confirmed w \<le> k \<and>
     (\<forall>v \<in> set (views cfg). table_holds v (tables (durable w) (view_name v)) (source_at S0 H k v))"

lemma ops_of_append: "ops_of (xs @ ys) = ops_of xs @ ops_of ys"
  by (simp add: ops_of_def)

lemma events_for_append: "events_for n (xs @ ys) = events_for n xs @ events_for n ys"
  by (simp add: events_for_def)

lemma source_run_append: "source_run S (xs @ ys) = source_run (source_run S xs) ys"
  by (simp add: source_run_def)

lemma events_possible_append:
  "events_possible S (xs @ ys) \<longleftrightarrow> events_possible S xs \<and> events_possible (source_run S xs) ys"
  by (induction xs arbitrary: S) (auto simp: source_run_def)

lemma applied_fresh:
  assumes "sorted_wrt (<) (map end_lsn H)"
  shows "applied k H @ fresh k H = H"
  using assms
proof (induction H)
  case (Cons t H)
  have "applied k H = []" if "k < end_lsn t"
    using that Cons.prems by (auto simp: applied_def filter_empty_conv)
  then show ?case using Cons by (auto simp: applied_def fresh_def)
qed (simp add: applied_def fresh_def)

text \<open>Advancing the checkpoint over the next group.\<close>

lemma advance_group:
  assumes "sorted_wrt (<) (map end_lsn H)" "fresh k H = g @ rest" "g \<noteq> []"
  shows "applied (end_lsn (last g)) H = applied k H @ g" "fresh (end_lsn (last g)) H = rest" "k < end_lsn (last g)"
proof -
  let ?m = "end_lsn (last g)"
  have H: "H = applied k H @ g @ rest" using applied_fresh [OF assms(1), of k] assms(2) by simp
  have k: "k < end_lsn t" if "t \<in> set (g @ rest)" for t
    using that assms(2) [symmetric] by (auto simp: fresh_def simp flip: set_append)
  then show "k < ?m" using assms(3) by simp
  have s: "sorted_wrt (<) (map end_lsn (applied k H @ g @ rest))" using assms(1) H by simp
  have low: "end_lsn t \<le> ?m" if "t \<in> set g" for t
  proof -
    have "g = butlast g @ [last g]" using assms(3) by simp
    then have "t \<in> set (butlast g) \<or> t = last g" using that by (metis Un_iff empty_iff insert_iff list.set set_append)
    moreover have "sorted_wrt (<) (map end_lsn (butlast g @ [last g]))"
      using s assms(3) by (simp add: sorted_wrt_append)
    ultimately show ?thesis by (auto simp: sorted_wrt_append)
  qed
  have high: "?m < end_lsn t" if "t \<in> set rest" for t
    using that s assms(3) by (auto simp: sorted_wrt_append)
  have old: "end_lsn t \<le> ?m" if "t \<in> set (applied k H)" for t
    using that \<open>k < ?m\<close> by (auto simp: applied_def)
  have "applied ?m (a @ g @ rest) = a @ g \<and> fresh ?m (a @ g @ rest) = rest" if "\<forall>t \<in> set a. end_lsn t \<le> ?m" for a
    using that low high by (fastforce simp: applied_def fresh_def filter_empty_conv not_le not_less)
  from this [of "applied k H"] show "applied ?m H = applied k H @ g" "fresh ?m H = rest"
    using old H by auto
qed

section \<open>Sessions keep the invariant\<close>

lemma flush_consistent:
  assumes cfg: "usable cfg" and H: "history_ok cfg s S0 H" and w: "consistent cfg S0 H k w"
    and next_g: "fresh k H = g @ rest" and size: "group_size_ok cfg g" and es: "flush_effs cfg g es"
  shows "consistent cfg S0 H (end_lsn (last g)) (exec_effects es w) \<and>
    confirmed (exec_effects es w) = end_lsn (last g) \<and>
    (\<exists>m. (m = k \<or> m = end_lsn (last g)) \<and> consistent cfg S0 H m (recover (exec_effects (take j es) w)))"
proof -
  let ?m = "end_lsn (last g)"
  have g: "g \<noteq> []" "int (length g) \<le> batch_max_txns cfg" using size by (auto simp: group_size_ok_def)
  have sorted: "sorted_wrt (<) (map end_lsn H)" using H by (simp add: history_ok_def)
  note adv = advance_group [OF sorted next_g g(1)]
  have Heq: "H = applied k H @ g @ rest" using applied_fresh [OF sorted, of k] next_g by simp
  have ww: "working w = durable w" using w by (simp add: consistent_def)
  obtain b b0 where b: "apply_ops b0 (ops_of g) = Inr b" "new_batch (views cfg) = Inr b0"
    and full: "exec_effects es w = recover ((after_flush cfg g (exec_stmts (stmts b) (tables (durable w))) w)\<lparr>confirmed := ?m\<rparr>)"
    and cut: "recover (exec_effects (take j es) w) \<in>
      {w, recover (after_flush cfg g (exec_stmts (stmts b) (tables (durable w))) w),
       recover ((after_flush cfg g (exec_stmts (stmts b) (tables (durable w))) w)\<lparr>confirmed := ?m\<rparr>)}"
    using flush_cut [OF es ww, of j] by (auto simp: ops_of_def)
  let ?db = "tables (durable w)"
  have sub: "sublist g H" using Heq by (metis sublist_appendI)
  have "\<exists>b' sts. apply_ops b0 (ops_of g) = Inr b' \<and> statements b' = Inr sts \<and> mapE render (stmts b') = Inr sts \<and>
    (\<forall>v \<in> set (views cfg). table_holds v (exec_stmts (stmts b') ?db (view_name v))
                       (source_run (source_at S0 H k v) (events_for (view_name v) (ops_of g))))"
  proof (rule maintains [OF b(2), where s = s])
    show "fst ` set (ops_of g) \<subseteq> view_name ` set (views cfg)"
      using H by (subst (asm) Heq) (auto simp: history_ok_def ops_of_append)
    have "events_possible (S0 v) (events_for (view_name v) (ops_of (applied k H @ g @ rest)))"
      if "v \<in> set (views cfg)" for v
      using H that Heq by (simp add: history_ok_def)
    then show "\<forall>v \<in> set (views cfg). events_possible (source_at S0 H k v) (events_for (view_name v) (ops_of g))"
      by (simp add: ops_of_append events_for_append events_possible_append source_at_def)
  qed (use cfg w H sub g(2) in \<open>auto simp: usable_def list_all_iff consistent_def history_ok_def\<close>)
  then have "\<forall>v \<in> set (views cfg). table_holds v (exec_stmts (stmts b) ?db (view_name v)) (source_at S0 H ?m v)"
    using b(1) adv(1) by (auto simp: source_at_def ops_of_append events_for_append source_run_append)
  then have new: "consistent cfg S0 H ?m (recover ((after_flush cfg g (exec_stmts (stmts b) ?db) w)\<lparr>confirmed := c\<rparr>))"
    if "c \<le> ?m" for c
    using that by (simp add: consistent_def recover_def after_flush_def)
  have "consistent cfg S0 H ?m (recover (after_flush cfg g (exec_stmts (stmts b) ?db) w))"
    using new [of "confirmed w"] w adv(3) by (simp add: consistent_def after_flush_def recover_def)
  then show ?thesis
    using full cut new [of ?m] w by (auto simp: recover_def after_flush_def)
qed

lemma flushes_consistent:
  assumes cfg: "usable cfg" and H: "history_ok cfg s S0 H" and w: "consistent cfg S0 H k w"
    and next_g: "prefix (concat gs) (fresh k H)" and es: "flushes cfg gs es"
  shows "\<exists>m. k \<le> m \<and> consistent cfg S0 H m (recover (exec_effects (take j es) w)) \<and>
    (length es \<le> j \<longrightarrow> m = last_lsn k (concat gs) \<and> (gs \<noteq> [] \<longrightarrow> confirmed (recover (exec_effects (take j es) w)) = m))"
  using w next_g es
proof (induction gs arbitrary: k w es j)
  case Nil
  then have "es = []" by (auto simp: flushes_def)
  then show ?case using Nil by (auto simp: exec_effects_def last_lsn_def recover_def consistent_def)
next
  case (Cons g gs)
  obtain e fs where e: "flush_effs cfg g e" "flushes cfg gs fs" "es = e @ fs" "group_size_ok cfg g"
  proof -
    obtain ess where ess: "list_all2 (flush_effs cfg) (g # gs) ess" "es = concat ess" "group_size_ok cfg g"
        "list_all (group_size_ok cfg) gs"
      using Cons.prems(3) by (auto simp: flushes_def)
    then obtain z zs where "ess = z # zs" "flush_effs cfg g z" "list_all2 (flush_effs cfg) gs zs"
      by (auto simp: list_all2_Cons1)
    with ess show thesis by (intro that [of z "concat zs"]) (auto simp: flushes_def)
  qed
  obtain rest where rest: "fresh k H = g @ rest" "prefix (concat gs) rest"
    using Cons.prems(2) by (auto simp: prefix_def)
  have sorted: "sorted_wrt (<) (map end_lsn H)" using H by (simp add: history_ok_def)
  have gne: "g \<noteq> []" using e(4) by (simp add: group_size_ok_def)
  note adv = advance_group [OF sorted rest(1) gne]
  let ?m = "end_lsn (last g)"
  note one = flush_consistent [OF cfg H Cons.prems(1) rest(1) e(4,1)]
  have rec: "recover (exec_effects e w) = exec_effects e w"
    using one by (simp add: consistent_def recover_def)
  show ?case
  proof (cases "j < length e")
    case True
    then have "take j es = take j e" using e(3) by simp
    then show ?thesis
      using one [of j] adv(3) True e(3) by (auto intro: less_imp_le)
  next
    case False
    let ?j = "j - length e"
    have tk: "exec_effects (take j es) w = exec_effects (take ?j fs) (exec_effects e w)"
      using False by (simp add: e(3) exec_effects_append)
    obtain m where m: "?m \<le> m" "consistent cfg S0 H m (recover (exec_effects (take ?j fs) (exec_effects e w)))"
        "length fs \<le> ?j \<longrightarrow> m = last_lsn ?m (concat gs) \<and>
          (gs \<noteq> [] \<longrightarrow> confirmed (recover (exec_effects (take ?j fs) (exec_effects e w))) = m)"
      using Cons.IH [of ?m "exec_effects e w" fs ?j] one adv(2) rest(2) e(2) by auto
    have last: "last_lsn k (concat (g # gs)) = last_lsn ?m (concat gs)"
      using gne by (simp add: last_lsn_def)
    have "confirmed (recover (exec_effects (take ?j fs) (exec_effects e w))) = m" if "length fs \<le> ?j"
    proof (cases gs)
      case Nil
      then have "fs = []" using e(2) by (auto simp: flushes_def)
      then show ?thesis using m(3) that one rec Nil by (simp add: exec_effects_def last_lsn_def)
    qed (use m(3) that in simp)
    then show ?thesis
      using m adv(3) last tk False e(3) by (intro exI [of _ m]) auto
  qed
qed

section \<open>Any number of sessions\<close>

text \<open>
  What the server delivers to a session: a run of consecutive transactions of the history, from a
  point before which everything is confirmed; the run may begin earlier and end anywhere.
\<close>

definition delivers :: "config \<Rightarrow> sealed_txn list \<Rightarrow> int \<Rightarrow> tick list \<Rightarrow> bool" where
  "delivers cfg H conf ticks \<longleftrightarrow>
     (\<forall>n c. collect (take n (payloads ticks)) (nothing_collected cfg) = Inr c \<longrightarrow>
        (\<exists>j m. c_sealed c = take m (drop j H) \<and> (\<forall>t \<in> set (take j H). end_lsn t \<le> conf)))"

inductive reachable :: "config \<Rightarrow> sealed_txn list \<Rightarrow> world \<Rightarrow> world \<Rightarrow> bool" for cfg H w0 where
  begins: "reachable cfg H w0 w0"
| runs: "reachable cfg H w0 w \<Longrightarrow> delivers cfg H (confirmed w) ticks \<Longrightarrow> reachable cfg H w0 (session cfg ticks j w)"

inductive_cases reachableE: "reachable cfg H w0 w"

lemma fresh_window:
  assumes "\<forall>t \<in> set (take j H). end_lsn t \<le> k"
  shows "prefix (fresh k (take m (drop j H))) (fresh k H)"
proof -
  have "fresh k (take j H) = []" using assms by (auto simp: fresh_def filter_empty_conv not_less)
  then have "fresh k H = fresh k (take m (drop j H)) @ fresh k (drop m (drop j H))"
    using fresh_append [of k "take j H" "drop j H"] fresh_append [of k "take m (drop j H)" "drop m (drop j H)"]
    by (simp only: append_take_drop_id append_Nil)
  then show ?thesis by simp
qed

lemma sorted_window: "sorted_wrt (<) (map end_lsn H) \<Longrightarrow> sorted_wrt (<) (map end_lsn (take m (drop j H)))"
  by (metis append_take_drop_id map_append sorted_wrt_append)

lemma session_run:
  assumes "consistent cfg S0 H k w"
  shows "session cfg ticks j w = recover (exec_effects (take j (fst (run cfg (Row k) ticks))) w)" "recover w = w"
proof -
  show w: "recover w = w" using assms by (simp add: consistent_def recover_def)
  show "session cfg ticks j w = recover (exec_effects (take j (fst (run cfg (Row k) ticks))) w)"
    unfolding session_def w using assms by (simp add: consistent_def)
qed

lemma session_consistent:
  assumes cfg: "usable cfg" and H: "history_ok cfg s S0 H" and w: "consistent cfg S0 H k w"
    and d: "delivers cfg H (confirmed w) ticks"
  shows "\<exists>m \<ge> k. consistent cfg S0 H m (session cfg ticks j w)"
proof -
  obtain es r where run: "run cfg (Row k) ticks = (es, r)" by (cases "run cfg (Row k) ticks")
  have sorted: "sorted_wrt (<) (map end_lsn H)" using H by (simp add: history_ok_def)
  have deliv: "\<exists>j m. c_sealed c = take m (drop j H) \<and> (\<forall>t \<in> set (take j H). end_lsn t \<le> confirmed w)"
    if "collect (take n (payloads ticks)) (nothing_collected cfg) = Inr c" for n c
    using d that by (auto simp: delivers_def)
  have "sorted_wrt (<) (map end_lsn (c_sealed c))"
    if "collect (take n (payloads ticks)) (nothing_collected cfg) = Inr c" for n c
    using deliv [OF that] sorted_window [OF sorted] by auto
  then obtain n c gs where c: "collect (take n (payloads ticks)) (nothing_collected cfg) = Inr c"
      "flushes cfg gs es" "prefix (concat gs) (fresh k (c_sealed c))"
    using run_groups [OF run] cfg by (auto simp: usable_def)
  obtain i m where im: "c_sealed c = take m (drop i H)" "\<forall>t \<in> set (take i H). end_lsn t \<le> confirmed w"
    using deliv [OF c(1)] by blast
  have "\<forall>t \<in> set (take i H). end_lsn t \<le> k" using im(2) w by (auto simp: consistent_def)
  then have "prefix (concat gs) (fresh k H)"
    using c(3) im(1) fresh_window prefix_order.trans by metis
  from flushes_consistent [OF cfg H w this c(2), of j] show ?thesis
    using session_run(1) [OF w] run by auto
qed

lemma exactly_once_run:
  assumes "usable cfg" "history_ok cfg s S0 H" "consistent cfg S0 H k0 w0" "reachable cfg H w0 w"
  shows "\<exists>k \<ge> k0. consistent cfg S0 H k w"
  using assms(4)
proof (induction rule: reachable.induct)
  case begins
  then show ?case using assms(3) by blast
next
  case (runs w ticks j)
  then obtain k where "k0 \<le> k" "consistent cfg S0 H k w" by blast
  with session_consistent [OF assms(1,2) this(2) runs.hyps(2), of j] show ?case by (meson order_trans)
qed

text \<open>C1: Exactly-once delivery. Start from target tables that hold the views of the initial source rows at the checkpoint. After any number of sessions, each redelivering whatever the server has not been told is applied (or more), each cut by a crash after any number of its effects, there is a durable checkpoint k, not before the starting one nor before the position acknowledged to the server, such that every target table holds the result of its view over the source rows after exactly the transactions up to k: each applied once, none lost, none applied twice, and the acknowledged position never runs ahead of what is durable.\<close>
theorem exactly_once:
  assumes "usable cfg" "history_ok cfg s S0 H" "consistent cfg S0 H k0 w0" "reachable cfg H w0 w"
  shows "\<exists>k \<ge> k0. consistent cfg S0 H k w"
  using assms by (rule exactly_once_run)


end
