(* ===== verification/Wire.thy ===== *)
theory Wire
  imports Protocol
begin

text \<open>
  The wire format of pgoutput version 1, as the builders of \<open>tests/test_protocol.py\<close> lay it out,
  and the decoder's correctness against it.

  \<open>reads p a e\<close> is the contract of a reader operation: wherever the cursor stands, \<open>p\<close> reads the
  value \<open>a\<close> from the bytes \<open>e\<close> and moves just past them, and on a buffer that ends inside \<open>e\<close> it
  raises a \<open>ProtocolError\<close> that says the data ran out.  The contract is closed under \<open>bindR\<close>, so
  a decoder is verified by following its text.  A field type is an interpretation of the locale
  \<open>codec\<close>, whose lemma for counted sequences is proved once.
\<close>

section \<open>The format\<close>

fun be_bytes :: "nat \<Rightarrow> int \<Rightarrow> bytes" where
  "be_bytes 0 v = []"
| "be_bytes (Suc n) v = be_bytes n (v div 256) @ [word_of_int v]"

definition str_bytes :: "string \<Rightarrow> bytes" where
  "str_bytes s = map byte_of s"

definition enc_cstring :: "string \<Rightarrow> bytes" where
  "enc_cstring s = str_bytes s @ [0]"

fun enc_value :: "colval \<Rightarrow> bytes" where
  "enc_value CNull = [byte_of (CHR ''n'')]"
| "enc_value CToast = [byte_of (CHR ''u'')]"
| "enc_value (CText s) =
     byte_of (CHR ''t'') # be_bytes 4 (int (length s)) @ str_bytes s"

definition enc_tuple :: "tuple_data \<Rightarrow> bytes" where
  "enc_tuple vs = be_bytes 2 (int (length vs)) @ concat (map enc_value vs)"

definition enc_column :: "column \<Rightarrow> bytes" where
  "enc_column c =
     be_bytes 1 (of_bool (is_key c)) @ enc_cstring (col_name c) @ be_bytes 4 (type_oid c) @
     be_bytes 4 (type_mod c)"

fun enc_old_key :: "tuple_data option \<Rightarrow> tuple_data option \<Rightarrow> bytes" where
  "enc_old_key old key =
     (case key of Some k \<Rightarrow> byte_of (CHR ''K'') # enc_tuple k | None \<Rightarrow> []) @
     (case old of Some t \<Rightarrow> byte_of (CHR ''O'') # enc_tuple t | None \<Rightarrow> [])"

definition enc_body :: "message \<Rightarrow> bytes" where
  "enc_body m =
     (case m of
        Begin lsn ts xid \<Rightarrow> be_bytes 8 lsn @ be_bytes 8 ts @ be_bytes 4 xid
      | Commit fl lsn end_lsn ts \<Rightarrow> be_bytes 1 fl @ be_bytes 8 lsn @ be_bytes 8 end_lsn @ be_bytes 8 ts
      | Relation rel \<Rightarrow>
          be_bytes 4 (rel_id rel) @ enc_cstring (namespace rel) @ enc_cstring (rel_name rel) @
          [byte_of (replica_identity rel)] @ be_bytes 2 (int (length (rel_columns rel))) @
          concat (map enc_column (rel_columns rel))
      | Insert rid new \<Rightarrow> be_bytes 4 rid @ [byte_of (CHR ''N'')] @ enc_tuple new
      | Update rid old key new \<Rightarrow>
          be_bytes 4 rid @ enc_old_key old key @ [byte_of (CHR ''N'')] @ enc_tuple new
      | Delete rid old key \<Rightarrow> be_bytes 4 rid @ enc_old_key old key
      | Truncate options rids \<Rightarrow>
          be_bytes 4 (int (length rids)) @ be_bytes 1 options @ concat (map (be_bytes 4) rids)
      | Origin lsn name \<Rightarrow> be_bytes 8 lsn @ enc_cstring name
      | TypeInfo oid ns name \<Rightarrow> be_bytes 4 oid @ enc_cstring ns @ enc_cstring name)"

definition msg_kind :: "message \<Rightarrow> char" where
  "msg_kind m =
     (case m of
        Begin _ _ _ \<Rightarrow> CHR ''B'' | Commit _ _ _ _ \<Rightarrow> CHR ''C'' | Relation _ \<Rightarrow> CHR ''R''
      | Insert _ _ \<Rightarrow> CHR ''I'' | Update _ _ _ _ \<Rightarrow> CHR ''U'' | Delete _ _ _ \<Rightarrow> CHR ''D''
      | Truncate _ _ \<Rightarrow> CHR ''T'' | Origin _ _ \<Rightarrow> CHR ''O'' | TypeInfo _ _ _ \<Rightarrow> CHR ''Y'')"

definition encode_message :: "message \<Rightarrow> bytes" where
  "encode_message m = byte_of (msg_kind m) # enc_body m"

text \<open>What fits the fields of the format.\<close>

definition fits_u :: "nat \<Rightarrow> int \<Rightarrow> bool" where
  "fits_u n v \<longleftrightarrow> 0 \<le> v \<and> v < 256 ^ n"

definition fits_s :: "nat \<Rightarrow> int \<Rightarrow> bool" where
  "fits_s n v \<longleftrightarrow> - (256 ^ n) \<le> 2 * v \<and> 2 * v < 256 ^ n"

definition wf_str :: "string \<Rightarrow> bool" where
  "wf_str s \<longleftrightarrow> utf8_ok (str_bytes s)"

definition wf_cstr :: "string \<Rightarrow> bool" where
  "wf_cstr s \<longleftrightarrow> wf_str s \<and> CHR 0x00 \<notin> set s"

fun wf_value :: "colval \<Rightarrow> bool" where
  "wf_value (CText s) = (wf_str s \<and> 2 * int (length s) < 256 ^ 4)"
| "wf_value _ = True"

definition wf_tuple :: "tuple_data \<Rightarrow> bool" where
  "wf_tuple vs \<longleftrightarrow> fits_u 2 (int (length vs)) \<and> list_all wf_value vs"

definition wf_column :: "column \<Rightarrow> bool" where
  "wf_column c \<longleftrightarrow> wf_cstr (col_name c) \<and> fits_u 4 (type_oid c) \<and> fits_s 4 (type_mod c)"

definition wf_timestamp :: "int \<Rightarrow> bool" where
  "wf_timestamp t \<longleftrightarrow> min_timestamp \<le> t \<and> t \<le> max_timestamp"

definition wf_message :: "message \<Rightarrow> bool" where
  "wf_message m =
     (case m of
        Begin lsn ts xid \<Rightarrow> fits_u 8 lsn \<and> wf_timestamp ts \<and> fits_u 4 xid
      | Commit fl lsn end_lsn ts \<Rightarrow> fits_u 1 fl \<and> fits_u 8 lsn \<and> fits_u 8 end_lsn \<and> wf_timestamp ts
      | Relation rel \<Rightarrow>
          fits_u 4 (rel_id rel) \<and> wf_cstr (namespace rel) \<and> wf_cstr (rel_name rel) \<and>
          replica_identity rel \<in> set ''dnfi'' \<and> fits_u 2 (int (length (rel_columns rel))) \<and>
          list_all wf_column (rel_columns rel)
      | Insert rid new \<Rightarrow> fits_u 4 rid \<and> wf_tuple new
      | Update rid old key new \<Rightarrow>
          fits_u 4 rid \<and> wf_tuple new \<and> pred_option wf_tuple old \<and> pred_option wf_tuple key \<and>
          (old = None \<or> key = None)
      | Delete rid old key \<Rightarrow>
          fits_u 4 rid \<and> pred_option wf_tuple old \<and> pred_option wf_tuple key \<and>
          (old = None) \<noteq> (key = None)
      | Truncate options rids \<Rightarrow>
          fits_u 1 options \<and> fits_u 4 (int (length rids)) \<and> list_all (fits_u 4) rids
      | Origin lsn name \<Rightarrow> fits_u 8 lsn \<and> wf_cstr name
      | TypeInfo oid ns name \<Rightarrow> fits_u 4 oid \<and> wf_cstr ns \<and> wf_cstr name)"

section \<open>The contract of a read\<close>

fun ran_out :: "exn \<Rightarrow> bool" where
  "ran_out (ProtocolError (TruncatedMessage _ _ _ _)) = True"
| "ran_out (ProtocolError (UnterminatedString _ _)) = True"
| "ran_out _ = False"

definition at_pos :: "reader \<Rightarrow> bytes \<Rightarrow> bytes \<Rightarrow> bool" where
  "at_pos r pre rest \<longleftrightarrow> r_buf r = pre @ rest \<and> r_pos r = int (length pre)"

definition advance :: "reader \<Rightarrow> bytes \<Rightarrow> reader" where
  "advance r e = r\<lparr>r_pos := r_pos r + int (length e)\<rparr>"

definition reads :: "'a reading \<Rightarrow> 'a \<Rightarrow> bytes \<Rightarrow> bool" where
  "reads p a e \<longleftrightarrow>
     (\<forall>r pre post. at_pos r pre (e @ post) \<longrightarrow> p r = Inr (a, advance r e)) \<and>
     (\<forall>r pre k. at_pos r pre (take k e) \<and> k < length e \<longrightarrow> (\<exists>x. p r = Inl x \<and> ran_out x))"

lemma readsI:
  assumes "\<And>r pre post. at_pos r pre (e @ post) \<Longrightarrow> p r = Inr (a, advance r e)"
    and "\<And>r pre k. at_pos r pre (take k e) \<Longrightarrow> k < length e \<Longrightarrow> \<exists>x. p r = Inl x \<and> ran_out x"
  shows "reads p a e"
  using assms by (auto simp: reads_def)

lemma reads_full: "reads p a e \<Longrightarrow> at_pos r pre (e @ post) \<Longrightarrow> p r = Inr (a, advance r e)"
  by (auto simp: reads_def)

lemma reads_cut:
  "reads p a e \<Longrightarrow> at_pos r pre (take k e) \<Longrightarrow> k < length e \<Longrightarrow> \<exists>x. p r = Inl x \<and> ran_out x"
  unfolding reads_def by blast

lemma at_pos_advance: "at_pos r pre (e @ rest) \<Longrightarrow> at_pos (advance r e) (pre @ e) rest"
  by (simp add: at_pos_def advance_def)

lemma advance_append: "advance (advance r e) e' = advance r (e @ e')"
  by (simp add: advance_def)

named_theorems reads_intros \<open>the contract of each reader operation\<close>

lemma reads_ret [reads_intros]: "reads (ret a) a []"
  by (auto intro!: readsI simp: ret_def advance_def)

lemma reads_bind [reads_intros]:
  assumes p: "reads p a e" and f: "reads (f a) b e'"
  shows "reads (bindR p f) b (e @ e')"
proof (rule readsI)
  fix r pre post
  assume at: "at_pos r pre ((e @ e') @ post)"
  then have "p r = Inr (a, advance r e)" by (intro reads_full [OF p]) simp
  moreover have "f a (advance r e) = Inr (b, advance (advance r e) e')"
    using at at_pos_advance [of r pre e "e' @ post"] by (intro reads_full [OF f]) simp
  ultimately show "bindR p f r = Inr (b, advance r (e @ e'))"
    by (simp add: bindR_def advance_append)
next
  fix r pre k
  assume at: "at_pos r pre (take k (e @ e'))" and k: "k < length (e @ e')"
  show "\<exists>x. bindR p f r = Inl x \<and> ran_out x"
  proof (cases "k < length e")
    case True
    then have "at_pos r pre (take k e)" using at by simp
    then show ?thesis using reads_cut [OF p] True by (force simp: bindR_def)
  next
    case False
    then have at': "at_pos r pre (e @ take (k - length e) e')" using at by simp
    then have "p r = Inr (a, advance r e)" by (rule reads_full [OF p])
    moreover have "\<exists>x. f a (advance r e) = Inl x \<and> ran_out x"
      using False k by (intro reads_cut [OF f at_pos_advance [OF at']]) auto
    ultimately show ?thesis by (auto simp: bindR_def)
  qed
qed

text \<open>A decoder that ends by packing what it read.\<close>

lemma reads_pack [reads_intros]: "reads p a e \<Longrightarrow> f a = b \<Longrightarrow> reads (bindR p (\<lambda>x. ret (f x))) b e"
  using reads_bind [of p a e "\<lambda>x. ret (f x)" b "[]"] reads_ret [of b] by simp

lemma lift_Inr: "lift (Inr b) = ret b"
  by (simp add: fun_eq_iff lift_def ret_def)

lemma reads_lift [reads_intros]: "reads p a e \<Longrightarrow> f a = Inr b \<Longrightarrow> reads (bindR p (\<lambda>x. lift (f x))) b e"
  using reads_bind [of p a e "\<lambda>x. lift (f x)" b "[]"] reads_ret [of b] by (simp add: lift_Inr)

lemma reads_take: "int (length e) = n \<Longrightarrow> reads (rd_take n) e e"
proof (rule readsI)
  fix r pre post
  assume n: "int (length e) = n" and at: "at_pos r pre (e @ post)"
  then show "rd_take n r = Inr (e, advance r e)"
    using py_slice_mid [of pre e post] by (simp add: rd_take_def at_pos_def advance_def Let_def)
next
  fix r pre k
  assume "int (length e) = n" "at_pos r pre (take k e)" "k < length e"
  then show "\<exists>x. rd_take n r = Inl x \<and> ran_out x"
    by (auto simp: rd_take_def at_pos_def Let_def)
qed

section \<open>Field codecs\<close>

locale codec =
  fixes rd :: "'a reading" and enc :: "'a \<Rightarrow> bytes" and ok :: "'a \<Rightarrow> bool"
  assumes reads_field [reads_intros]: "ok a \<Longrightarrow> reads rd a (enc a)"
begin

text \<open>A sequence whose length the reader already knows.\<close>

lemma reads_many: "list_all ok xs \<Longrightarrow> reads (rd_many (length xs) rd) xs (concat (map enc xs))"
  by (induction xs) (auto intro!: reads_intros)

text \<open>The same, with the count read as an integer.\<close>

lemma reads_counted: "list_all ok xs \<Longrightarrow> reads (rd_many (nat (int (length xs))) rd) xs (concat (map enc xs))"
  using reads_many by simp

end


lemma length_be_bytes [simp]: "length (be_bytes n v) = n"
  by (induction n arbitrary: v) auto

lemma be_uint_snoc: "be_uint (bs @ [b]) = be_uint bs * 256 + uint b"
  by (simp add: be_uint_def)

lemma be_uint_be_bytes: "be_uint (be_bytes n v) = v mod 256 ^ n"
proof (induction n arbitrary: v)
  case 0
  then show ?case by (simp add: be_uint_def)
next
  case (Suc n)
  have "uint (word_of_int v :: 8 word) = v mod 256"
    by (simp add: uint_word_of_int)
  then have "be_uint (be_bytes (Suc n) v) = (v div 256) mod 256 ^ n * 256 + v mod 256"
    using Suc by (simp add: be_uint_snoc)
  also have "\<dots> = v mod (256 * 256 ^ n)"
    by (subst zmod_zmult2_eq) simp_all
  finally show ?case by simp
qed

lemma unpack_uint: "fits_u n v \<Longrightarrow> unpack n be_uint (be_bytes n v) = Inr v"
  by (simp add: unpack_def be_uint_be_bytes fits_u_def)

lemma be_sint_be_bytes:
  assumes "fits_s n v"
  shows "be_sint (be_bytes n v) = v"
proof -
  let ?m = "256 ^ n :: int"
  have b: "- ?m \<le> 2 * v" "2 * v < ?m" using assms by (auto simp: fits_s_def)
  have "v mod ?m = (if v < 0 then v + ?m else v)"
    using b by (auto simp: mod_pos_pos_trivial intro: mod_pos_pos_trivial [of "v + ?m" ?m, simplified])
  then show ?thesis using b by (auto simp: be_sint_def be_uint_be_bytes Let_def)
qed

lemma unpack_sint: "fits_s n v \<Longrightarrow> unpack n be_sint (be_bytes n v) = Inr v"
  by (simp add: unpack_def be_sint_be_bytes)

lemma reads_byte [reads_intros]: "reads rd_byte b [b]"
  unfolding rd_byte_def by (rule reads_lift [OF reads_take]) auto

interpretation tag: codec rd_tag "\<lambda>c. [byte_of c]" "\<lambda>_. True"
  by unfold_locales (auto simp: rd_tag_def intro!: reads_intros)

lemma be_bytes_1: "be_bytes 1 v = [word_of_int v]"
  by (simp add: One_nat_def)

interpretation uint8: codec rd_uint8 "be_bytes 1" "fits_u 1"
proof unfold_locales
  fix v assume "fits_u 1 v"
  then have "uint (word_of_int v :: 8 word) = v" by (simp add: fits_u_def uint_word_of_int)
  from reads_pack [OF reads_byte, of uint, OF this] show "reads rd_uint8 v (be_bytes 1 v)"
    by (simp only: rd_uint8_def be_bytes_1)
qed

interpretation uint16: codec rd_uint16 "be_bytes 2" "fits_u 2"
  by unfold_locales (auto simp: rd_uint16_def intro!: reads_lift reads_take unpack_uint)

interpretation int32: codec rd_int32 "be_bytes 4" "fits_s 4"
  by unfold_locales (auto simp: rd_int32_def intro!: reads_lift reads_take unpack_sint)

interpretation uint32: codec rd_uint32 "be_bytes 4" "fits_u 4"
  by unfold_locales (auto simp: rd_uint32_def intro!: reads_lift reads_take unpack_uint)

interpretation uint64: codec rd_uint64 "be_bytes 8" "fits_u 8"
  by unfold_locales (auto simp: rd_uint64_def intro!: reads_lift reads_take unpack_uint)

lemma wf_timestamp_fits: "wf_timestamp t \<Longrightarrow> fits_s 8 t"
  by (simp add: wf_timestamp_def fits_s_def min_timestamp_def max_timestamp_def)

lemma bindR_lift_Inr: "f a = Inr b \<Longrightarrow> reads (g b) c e \<Longrightarrow> reads (bindR (lift (f a)) g) c e"
  using reads_bind [of "lift (f a)" b "[]" g c e] reads_ret [of b] by (simp add: lift_Inr)

interpretation timestamp: codec rd_timestamp "be_bytes 8" wf_timestamp
proof unfold_locales
  fix t assume t: "wf_timestamp t"
  then have "pg_timestamp t = Inr t" by (simp add: wf_timestamp_def pg_timestamp_def)
  then have "reads (lift (pg_timestamp t)) t []" by (simp add: lift_Inr reads_ret)
  then have "reads (bindR (lift (unpack 8 be_sint (be_bytes 8 t))) (\<lambda>micros. lift (pg_timestamp micros))) t []"
    using unpack_sint [OF wf_timestamp_fits [OF t]] by (intro bindR_lift_Inr)
  then show "reads rd_timestamp t (be_bytes 8 t)"
    unfolding rd_timestamp_def
    using reads_bind [OF reads_take [of "be_bytes 8 t" 8], where e' = "[]"] by simp
qed


text \<open>Strings: the terminating NUL is the first one, since the text has none.\<close>

lemma decode_utf8_str: "wf_str s \<Longrightarrow> decode_utf8 (str_bytes s) = Inr s"
  by (simp add: decode_utf8_def wf_str_def str_bytes_def o_def)

lemma byte_of_eq_0: "byte_of c = 0 \<longleftrightarrow> c = CHR 0x00"
proof -
  have "byte_of c = byte_of (CHR 0x00) \<longleftrightarrow> c = CHR 0x00"
    by (metis chr_of_byte_of)
  then show ?thesis by (simp add: byte_of_def)
qed

lemma no_nul: "wf_cstr s \<Longrightarrow> 0 \<notin> set (str_bytes s)"
  by (auto simp: wf_cstr_def str_bytes_def byte_of_eq_0)

interpretation cstring: codec rd_cstring enc_cstring wf_cstr
proof unfold_locales
  fix s assume s: "wf_cstr s"
  let ?b = "str_bytes s"
  show "reads rd_cstring s (enc_cstring s)"
  proof (rule readsI)
    fix r pre post
    assume "at_pos r pre (enc_cstring s @ post)"
    then have r: "r_buf r = pre @ ?b @ 0 # post" "r_pos r = int (length pre)"
      by (auto simp: at_pos_def enc_cstring_def)
    have "py_find (r_buf r) 0 (r_pos r) = int (length pre) + int (length ?b)"
      using no_nul [OF s] by (simp add: r py_find_first)
    then show "rd_cstring r = Inr (s, advance r (enc_cstring s))"
      using s py_slice_mid [of pre ?b "0 # post"] decode_utf8_str [of s]
      by (simp add: rd_cstring_def r advance_def enc_cstring_def wf_cstr_def algebra_simps)
  next
    fix r pre k
    assume at: "at_pos r pre (take k (enc_cstring s))" and "k < length (enc_cstring s)"
    then have "r_buf r = pre @ take k ?b" "r_pos r = int (length pre)"
      by (auto simp: at_pos_def enc_cstring_def)
    moreover have "0 \<notin> set (take k ?b)" using no_nul [OF s] by (auto dest: in_set_takeD)
    ultimately show "\<exists>x. rd_cstring r = Inl x \<and> ran_out x"
      by (simp add: rd_cstring_def py_find_absent)
  qed
qed

lemma reads_text [reads_intros]:
  assumes "wf_str s"
  shows "reads (bindR (rd_take (int (length s))) (\<lambda>c. bindR (lift (decode_utf8 c)) (\<lambda>s. ret (CText s))))
           (CText s) (str_bytes s)"
proof -
  have "reads (rd_take (int (length s))) (str_bytes s) (str_bytes s)"
    by (rule reads_take) (simp add: str_bytes_def)
  moreover have "reads (bindR (lift (decode_utf8 (str_bytes s))) (\<lambda>s. ret (CText s))) (CText s) []"
    using decode_utf8_str [OF assms] by (rule bindR_lift_Inr) (rule reads_ret)
  ultimately show ?thesis
    by (rule reads_bind [where e' = "[]", simplified])
qed

lemma fits_s_length: "2 * int n < 256 ^ 4 \<Longrightarrow> fits_s 4 (int n)"
  by (simp add: fits_s_def)

interpretation colval: codec decode_column_value enc_value wf_value
proof unfold_locales
  fix v assume v: "wf_value v"
  show "reads decode_column_value v (enc_value v)"
  proof (cases v)
    case (CText s)
    let ?body = "\<lambda>len. bindR (rd_take len) (\<lambda>c. bindR (lift (decode_utf8 c)) (\<lambda>s. ret (CText s)))"
    have "reads (bindR rd_int32 ?body) (CText s) (be_bytes 4 (int (length s)) @ str_bytes s)"
      using v CText
      by (intro reads_bind [OF int32.reads_field, where f = ?body] reads_text fits_s_length) auto
    then have "reads decode_column_value (CText s)
        ([byte_of (CHR ''t'')] @ be_bytes 4 (int (length s)) @ str_bytes s)"
      unfolding decode_column_value_def
      by (intro reads_bind [OF tag.reads_field [OF TrueI]]) simp
    then show ?thesis using CText by simp
  qed (auto simp: decode_column_value_def intro!: reads_bind [OF tag.reads_field [OF TrueI], where e' = "[]", simplified] reads_ret)
qed

interpretation tuple: codec decode_tuple_data enc_tuple wf_tuple
proof unfold_locales
  fix vs assume "wf_tuple vs"
  then show "reads decode_tuple_data vs (enc_tuple vs)"
    unfolding decode_tuple_data_def enc_tuple_def wf_tuple_def
    using colval.reads_many [of vs] by (intro reads_bind [OF uint16.reads_field]) auto
qed

interpretation column: codec decode_column enc_column wf_column
proof unfold_locales
  fix c assume c: "wf_column c"
  have "fits_u 1 (of_bool (is_key c))" by (simp add: fits_u_def)
  then show "reads decode_column c (enc_column c)"
    using c unfolding decode_column_def enc_column_def wf_column_def
    by (intro reads_bind [OF uint8.reads_field] reads_bind [OF cstring.reads_field]
        reads_bind [OF uint32.reads_field] reads_pack [OF int32.reads_field]) auto
qed


section \<open>The messages\<close>

text \<open>
  \<open>fields\<close> collects the contracts of the fields as introduction rules for a decoder's chain of
  reads: one field, then the rest of the chain.
\<close>

lemmas fields =
  reads_bind [OF uint8.reads_field] reads_bind [OF uint16.reads_field]
  reads_bind [OF uint32.reads_field] reads_bind [OF uint64.reads_field]
  reads_bind [OF timestamp.reads_field] reads_bind [OF cstring.reads_field]
  reads_bind [OF tag.reads_field [OF TrueI]] reads_bind [OF tuple.reads_field]

lemmas last_field =
  reads_pack [OF uint32.reads_field] reads_pack [OF timestamp.reads_field]
  reads_pack [OF cstring.reads_field] reads_pack [OF tuple.reads_field]

lemma reads_expect: "reads (f ()) b e \<Longrightarrow> reads (bindR (expect_tag t t) f) b e"
  using reads_bind [of "ret ()" "()" "[]" f b e] reads_ret [of "()"] by (simp add: expect_tag_def)

lemmas body_defs = enc_body_def wf_message_def message.case

lemma reads_begin: "wf_message (Begin lsn ts xid) \<Longrightarrow> reads decode_begin (Begin lsn ts xid) (enc_body (Begin lsn ts xid))"
  unfolding decode_begin_def body_defs by (blast intro: fields last_field)

lemma reads_commit:
  "wf_message (Commit fl lsn end_lsn ts) \<Longrightarrow>
   reads decode_commit (Commit fl lsn end_lsn ts) (enc_body (Commit fl lsn end_lsn ts))"
  unfolding decode_commit_def body_defs by (blast intro: fields last_field)

lemma reads_origin: "wf_message (Origin lsn name) \<Longrightarrow> reads decode_origin (Origin lsn name) (enc_body (Origin lsn name))"
  unfolding decode_origin_def body_defs by (blast intro: fields last_field)

lemma reads_type:
  "wf_message (TypeInfo oid ns name) \<Longrightarrow> reads decode_type (TypeInfo oid ns name) (enc_body (TypeInfo oid ns name))"
  unfolding decode_type_def body_defs by (blast intro: fields last_field)

lemma reads_insert: "wf_message (Insert rid new) \<Longrightarrow> reads decode_insert (Insert rid new) (enc_body (Insert rid new))"
  unfolding decode_insert_def body_defs by (blast intro: fields reads_expect last_field)

lemma reads_relation: "wf_message (Relation rel) \<Longrightarrow> reads decode_relation (Relation rel) (enc_body (Relation rel))"
  unfolding decode_relation_def body_defs
  using column.reads_many [of "rel_columns rel"]
  by (auto intro!: fields reads_pack simp del: append_Cons)

lemma reads_truncate:
  "wf_message (Truncate options rids) \<Longrightarrow> reads decode_truncate (Truncate options rids) (enc_body (Truncate options rids))"
  unfolding decode_truncate_def body_defs
  by (blast intro: fields reads_pack [OF uint32.reads_counted])

lemma reads_delete:
  assumes "wf_message (Delete rid old key)"
  shows "reads decode_delete (Delete rid old key) (enc_body (Delete rid old key))"
proof -
  have k: "reads decode_delete (Delete rid None (Some k)) (be_bytes 4 rid @ [byte_of (CHR ''K'')] @ enc_tuple k)"
    if "fits_u 4 rid" "wf_tuple k" for k
    unfolding decode_delete_def using that by (intro fields) (auto intro: last_field)
  have o: "reads decode_delete (Delete rid (Some t) None) (be_bytes 4 rid @ [byte_of (CHR ''O'')] @ enc_tuple t)"
    if "fits_u 4 rid" "wf_tuple t" for t
    unfolding decode_delete_def using that by (intro fields) (auto intro: last_field)
  show ?thesis
    using assms k o by (cases old; cases key) (auto simp: body_defs)
qed

lemma reads_update_rest:
  "wf_tuple new \<Longrightarrow>
   reads ((\<lambda>(old, key, tag). bindR (expect_tag (CHR ''N'') tag) (\<lambda>_.
            bindR decode_tuple_data (\<lambda>new. ret (Update rid old key new)))) (old, key, CHR ''N''))
     (Update rid old key new) (enc_tuple new)"
  unfolding prod.case by (blast intro: reads_expect last_field)

lemma reads_update:
  assumes "wf_message (Update rid old key new)"
  shows "reads decode_update (Update rid old key new) (enc_body (Update rid old key new))"
proof -
  have rid: "fits_u 4 rid" and new: "wf_tuple new" using assms by (auto simp: body_defs)
  note step = reads_bind [OF uint32.reads_field [OF rid]] reads_bind [OF tag.reads_field [OF TrueI]]
  note tagged = reads_bind [OF tuple.reads_field reads_pack [OF tag.reads_field [OF TrueI]]]
  have n: "reads decode_update (Update rid None None new)
      (be_bytes 4 rid @ [byte_of (CHR ''N'')] @ [] @ enc_tuple new)"
    unfolding decode_update_def
    by (intro step, rule reads_bind [where a = "(None, None, CHR ''N'')"])
       (simp add: reads_ret tagged, rule reads_update_rest [OF new])
  have k: "reads decode_update (Update rid None (Some k) new)
      (be_bytes 4 rid @ [byte_of (CHR ''K'')] @ (enc_tuple k @ [byte_of (CHR ''N'')]) @ enc_tuple new)"
    if "wf_tuple k" for k
    unfolding decode_update_def
    by (intro step, rule reads_bind [where a = "(None, Some k, CHR ''N'')"])
       (simp add: reads_ret tagged that, rule reads_update_rest [OF new])
  have o: "reads decode_update (Update rid (Some t) None new)
      (be_bytes 4 rid @ [byte_of (CHR ''O'')] @ (enc_tuple t @ [byte_of (CHR ''N'')]) @ enc_tuple new)"
    if "wf_tuple t" for t
    unfolding decode_update_def
    by (intro step, rule reads_bind [where a = "(Some t, None, CHR ''N'')"])
       (simp add: reads_ret tagged that, rule reads_update_rest [OF new])
  show ?thesis
    using assms n k o by (cases old; cases key) (auto simp: body_defs)
qed

text \<open>The decoder the dispatch table gives each message's kind, on that message's body.\<close>

lemma reads_message:
  assumes "wf_message m"
  obtains d where "decoders (msg_kind m) = Some d" "reads d m (enc_body m)"
proof -
  have "\<exists>d. decoders (msg_kind m) = Some d \<and> reads d m (enc_body m)"
    using assms
    by (cases m)
       (simp_all add: msg_kind_def decoders_def reads_begin reads_commit reads_origin reads_type
          reads_relation reads_insert reads_update reads_delete reads_truncate)
  with that show thesis by blast
qed

lemma chr_of_kind: "chr_of (byte_of c) = c"
  by simp

lemma decode_encoded:
  assumes "wf_message m"
  shows "decode_message (encode_message m @ junk) = Inr m"
proof -
  obtain d where d: "decoders (msg_kind m) = Some d" "reads d m (enc_body m)"
    using assms by (rule reads_message)
  let ?r = "\<lparr>r_buf = encode_message m @ junk, r_kind = msg_kind m, r_pos = 1\<rparr>"
  have "at_pos ?r [byte_of (msg_kind m)] (enc_body m @ junk)"
    by (simp add: at_pos_def encode_message_def)
  from reads_full [OF d(2) this] d(1) show ?thesis
    by (simp add: decode_message_def encode_message_def)
qed

text \<open>C12: Every well-formed pgoutput message is decoded to itself, whatever bytes follow it in the buffer.\<close>
theorem decode_encode:
  assumes "wf_message m"
  shows "decode_message (encode_message m @ junk) = Inr m"
  using assms by (rule decode_encoded)

text \<open>C13: A well-formed message cut anywhere short of its end is refused with a ProtocolError that reports the missing bytes; it is never decoded to some other message.\<close>
theorem decode_cut:
  assumes "wf_message m" and "0 < k" "k < length (encode_message m)"
  shows "\<exists>x. decode_message (take k (encode_message m)) = Inl x \<and> ran_out x"
proof -
  obtain d where d: "decoders (msg_kind m) = Some d" "reads d m (enc_body m)"
    using assms(1) by (rule reads_message)
  obtain j where j: "k = Suc j" "j < length (enc_body m)"
    using assms(2,3) by (cases k) (auto simp: encode_message_def)
  let ?r = "\<lparr>r_buf = take k (encode_message m), r_kind = msg_kind m, r_pos = 1\<rparr>"
  have "at_pos ?r [byte_of (msg_kind m)] (take j (enc_body m))"
    using j by (simp add: at_pos_def encode_message_def)
  from reads_cut [OF d(2) this j(2)] d(1) j show ?thesis
    by (auto simp: decode_message_def encode_message_def)
qed

theorem decode_encode_witness:
  "decode_message (encode_message (Update 7 None (Some [CText ''a'', CNull]) [CText ''b'', CToast]) @ [1, 2])
     = Inr (Update 7 None (Some [CText ''a'', CNull]) [CText ''b'', CToast])"
  by (rule decode_encode) code_simp

theorem decode_cut_witness:
  "\<exists>x. decode_message (take 12 (encode_message (Insert 7 [CText ''ab'', CNull]))) = Inl x \<and> ran_out x"
proof (rule decode_cut)
  show "wf_message (Insert 7 [CText ''ab'', CNull])" by code_simp
  show "12 < length (encode_message (Insert 7 [CText ''ab'', CNull]))" by code_simp
qed simp

end
