(* ===== verification/Stream.thy ===== *)
theory Stream
  imports ExactlyOnce Wire
begin

text \<open>
  The stream as the server sends it: what \<open>collect\<close> makes of encoded messages, and when a
  session's payloads are a redelivery of a history.
\<close>

section \<open>Encoded messages\<close>

definition collect_messages :: "message list \<Rightarrow> collected \<Rightarrow> collected res" where
  "collect_messages ms c = foldE (\<lambda>c m. collect_message m c) c ms"

lemma collect_messages_simps [simp]:
  "collect_messages [] c = Inr c"
  "collect_messages (m # ms) c = bindE (collect_message m c) (collect_messages ms)"
  by (simp_all add: collect_messages_def fun_eq_iff [of "collect_messages ms"] cong: bindE_cong)

lemma collect_messages_append:
  "collect_messages (ms @ ns) c = bindE (collect_messages ms c) (collect_messages ns)"
  by (induction ms arbitrary: c) (simp_all add: bindE_assoc cong: bindE_cong)

lemma collect_encoded:
  "list_all wf_message ms \<Longrightarrow> collect (map encode_message ms) c = collect_messages ms c"
proof (induction ms arbitrary: c)
  case (Cons m ms)
  then have "decode_message (encode_message m) = Inr m" using decode_encoded [of m "[]"] by simp
  with Cons show ?case
    by (subst (1) list.map, subst collect_Cons) (simp add: collect_def fun_eq_iff cong: bindE_cong)
qed (simp add: collect_def)

section \<open>Sealing only adds transactions\<close>

lemma collect_message_seals: "collect_message m c = Inr c' \<Longrightarrow> prefix (c_sealed c) (c_sealed c')"
  by (auto simp: collect_message_def Let_def res_simps split: message.splits option.splits)

lemma collect_seals: "collect ps c = Inr c' \<Longrightarrow> prefix (c_sealed c) (c_sealed c')"
proof (induction ps arbitrary: c)
  case (Cons p ps)
  then obtain m c1 where "collect_message m c = Inr c1" "collect ps c1 = Inr c'"
    by (auto simp: collect_Cons [of p ps] res_simps) (auto simp: collect_def res_simps)
  with Cons.IH collect_message_seals show ?case using prefix_order.trans by blast
qed (simp add: collect_def)

lemma collect_take:
  assumes "collect ps c = Inr c1" "collect (take n ps) c = Inr c2"
  shows "prefix (c_sealed c2) (c_sealed c1)"
proof -
  have "collect (drop n ps) c2 = Inr c1"
    using collect_append [of "take n ps" "drop n ps" c] assms by simp
  then show ?thesis by (rule collect_seals)
qed

text \<open>A session whose payloads seal a window of the history that starts at or before the position told to the server.\<close>

lemma delivers_window:
  assumes "collect (payloads ticks) (nothing_collected cfg) = Inr c"
    and "c_sealed c = take m (drop j H)" "\<forall>t \<in> set (take j H). end_lsn t \<le> conf"
  shows "delivers cfg H conf ticks"
  unfolding delivers_def
proof (intro allI impI)
  fix n c' assume "collect (take n (payloads ticks)) (nothing_collected cfg) = Inr c'"
  from collect_take [OF assms(1) this] obtain zs where "take m (drop j H) = c_sealed c' @ zs"
    using assms(2) by (auto simp: prefix_def)
  then have "c_sealed c' = take (min m (length (c_sealed c'))) (drop j H)"
    by (metis append_eq_conv_conj take_take min.commute)
  with assms(3) show "\<exists>j m. c_sealed c' = take m (drop j H) \<and> (\<forall>t \<in> set (take j H). end_lsn t \<le> conf)"
    by blast
qed

end
