(* ===== verification/Scenario.thy ===== *)
theory Scenario
  imports Stream
begin

text \<open>
  A session of the daemon, evaluated: a configuration read from its YAML document, two source
  transactions as pgoutput encodes them, the run over them and the state it leaves.
\<close>

section \<open>Configuration\<close>

definition demo_doc :: yaml where
  "demo_doc = YMap
     [(YStr ''database'', YMap [(YStr ''dsn'', YStr ''postgresql://localhost/demo'')]),
      (YStr ''slot'', YStr ''walflux''),
      (YStr ''batch'', YMap [(YStr ''max_txns'', YInt 2)]),
      (YStr ''views'', YList
        [YMap [(YStr ''name'', YStr ''v''), (YStr ''source'', YStr ''public.t''), (YStr ''group_by'', YList [YStr ''g'']),
           (YStr ''aggregates'', YList
             [YMap [(YStr ''fn'', YStr ''count''), (YStr ''as'', YStr ''n'')],
              YMap [(YStr ''fn'', YStr ''sum''), (YStr ''column'', YStr ''x''), (YStr ''as'', YStr ''s'')]])]])]"

definition demo_cfg :: config where
  "demo_cfg = \<lparr>dsn = ''postgresql://localhost/demo'', slot = ''walflux'', publication = ''walflux'',
     batch_max_ms = 200, batch_max_txns = 2, views = [demo_view]\<rparr>"

lemma demo_load: "load_config (Parsed demo_doc) None = Inr demo_cfg"
  by code_simp

lemma demo_cfg_views [simp]: "views demo_cfg = [demo_view]" "batch_max_txns demo_cfg = 2" "slot demo_cfg = ''walflux''"
  by (simp_all add: demo_cfg_def)

lemma demo_usable: "usable demo_cfg"
  by (simp add: usable_def demo_cols)


section \<open>The stream\<close>

definition demo_rel :: relation where
  "demo_rel = \<lparr>rel_id = 7, namespace = ''public'', rel_name = ''t'', replica_identity = CHR ''f'',
     rel_columns = [\<lparr>col_name = ''g'', type_oid = 25, type_mod = -1, is_key = True\<rparr>,
                    \<lparr>col_name = ''x'', type_oid = numeric_oid, type_mod = -1, is_key = True\<rparr>]\<rparr>"

definition demo_messages :: "message list" where
  "demo_messages =
     [Begin 10 0 1, Relation demo_rel, Insert 7 [CText ''a'', CText ''1.25''], Commit 0 9 10 0,
      Begin 20 0 2, Update 7 (Some [CText ''a'', CText ''1.25'']) None [CText ''b'', CToast], Commit 0 19 20 0]"

definition demo_history :: "sealed_txn list" where
  "demo_history =
     [\<lparr>end_lsn = 10, txn_ops = [(''v'', Ins (demo_row ''a'' (PDec (Fin 125 (- 2)))))]\<rparr>,
      \<lparr>end_lsn = 20, txn_ops = [(''v'', Upd (demo_row ''a'' (PDec (Fin 125 (- 2)))) (demo_row ''b'' (PDec (Fin 125 (- 2)))))]\<rparr>]"

definition demo_tick :: "message \<Rightarrow> tick" where
  "demo_tick m = \<lparr>stop_requested = False, item = Some (encode_message m), sealed_at = 0, checked_at = 1 / 10\<rparr>"

definition demo_ticks :: "tick list" where
  "demo_ticks = map demo_tick demo_messages @ [\<lparr>stop_requested = False, item = None, sealed_at = 1, checked_at = 1\<rparr>]"

lemma demo_payloads: "payloads demo_ticks = map encode_message demo_messages"
  by (simp add: demo_ticks_def demo_messages_def demo_tick_def)

lemma demo_wf: "list_all wf_message demo_messages"
  by code_simp

definition demo_collected :: collected where
  "demo_collected = projr (collect_messages demo_messages (nothing_collected demo_cfg))"

lemma demo_fold: "collect_messages demo_messages (nothing_collected demo_cfg) = Inr demo_collected"
proof -
  have "\<not> isl (collect_messages demo_messages (nothing_collected demo_cfg))" by code_simp
  then show ?thesis by (simp add: demo_collected_def)
qed

lemma demo_sealed: "c_sealed demo_collected = demo_history"
  by code_simp

section \<open>The relation and its rows\<close>

definition demo_daemon :: daemon where
  "demo_daemon = projr (on_relation demo_rel (new_daemon demo_cfg 0))"

lemma demo_daemon: "on_relation demo_rel (new_daemon demo_cfg 0) = Inr demo_daemon"
proof -
  have "\<not> isl (on_relation demo_rel (new_daemon demo_cfg 0))" by code_simp
  then show ?thesis by (simp add: demo_daemon_def)
qed

lemma demo_known: "dict_get (=) (relations demo_daemon) 7 = Some demo_rel"
  by code_simp

theorem on_relation_accepts_witness:
  "(\<exists>d. on_relation demo_rel (new_daemon demo_cfg 0) = Inr d \<and> daemon_ok demo_cfg d) \<and>
   (\<exists>why. on_relation (demo_rel\<lparr>rel_columns := []\<rparr>) (new_daemon demo_cfg 0) = Inl (SchemaDriftError why))"
proof -
  have vs: "rel_views (new_daemon demo_cfg 0) demo_rel = [demo_view]"
      "rel_views (new_daemon demo_cfg 0) (demo_rel\<lparr>rel_columns := []\<rparr>) = [demo_view]" by code_simp+
  have cols: "required_columns demo_view = [''g'', ''x'']" "col_name ` set (rel_columns demo_rel) = {''g'', ''x''}"
    by code_simp (simp add: demo_rel_def)
  show ?thesis
    using on_relation_accepts [OF new_daemon_ok [of demo_cfg 0], of demo_rel]
      on_relation_accepts [OF new_daemon_ok [of demo_cfg 0], of "demo_rel\<lparr>rel_columns := []\<rparr>"]
    by (auto simp: vs cols)
qed


theorem row_ops_complete_witness:
  "\<exists>v \<in> set (views demo_cfg). view_name v = ''v'' \<and> (\<forall>c \<in> set (needed_columns v). map_of (demo_row ''a'' PNone) c \<noteq> None)"
proof -
  have "daemon_ok demo_cfg demo_daemon"
    using on_relation_ok [OF new_daemon_ok demo_daemon] by simp
  moreover have "row_ops demo_daemon (Insert 7 (wire_row [PStr ''a'', PNone])) = Inr [(''v'', Ins (demo_row ''a'' PNone))]"
    by code_simp
  ultimately show ?thesis
    using row_ops_complete [of demo_cfg demo_daemon _ _ "''v''" "Ins (demo_row ''a'' PNone)"] by fastforce
qed

section \<open>The run\<close>

lemma demo_collect: "collect (payloads demo_ticks) (nothing_collected demo_cfg) = Inr demo_collected"
  using collect_encoded [OF demo_wf] demo_fold by (simp add: demo_payloads)

lemma demo_delivers: "delivers demo_cfg demo_history conf demo_ticks"
  by (rule delivers_window [OF demo_collect, where m = 2 and j = 0]) (simp_all add: demo_sealed demo_history_def)

lemma demo_run: "\<not> isl (snd (run demo_cfg (Row 0) demo_ticks))"
  by code_simp

definition demo_effects :: "effect list" where
  "demo_effects = fst (run demo_cfg (Row 0) demo_ticks)"

definition demo_after :: daemon where
  "demo_after = projr (snd (run demo_cfg (Row 0) demo_ticks))"

lemma demo_runs: "run demo_cfg (Row 0) demo_ticks = (demo_effects, Inr demo_after)"
  using demo_run by (simp add: demo_effects_def demo_after_def prod_eq_iff)

lemma demo_fresh: "fresh 0 demo_history = demo_history" "last_lsn 0 demo_history = 20"
  by (simp_all add: fresh_def demo_history_def last_lsn_def)

theorem run_flushes_witness:
  "\<exists>gs. flushes demo_cfg gs demo_effects \<and> concat gs = demo_history \<and> checkpoint_lsn demo_after = 20"
proof -
  have sorted: "sorted_wrt (<) (map end_lsn (c_sealed c))"
    if "collect (take n (payloads demo_ticks)) (nothing_collected demo_cfg) = Inr c" for n c
    using collect_take [OF demo_collect that] 
    by (auto simp: demo_sealed demo_history_def prefix_Cons)
  then obtain n c gs where "collect (take n (payloads demo_ticks)) (nothing_collected demo_cfg) = Inr c"
      "flushes demo_cfg gs demo_effects" "length (payloads demo_ticks) \<le> n" "concat gs = fresh 0 (c_sealed c)"
      "checkpoint_lsn demo_after = last_lsn 0 (fresh 0 (c_sealed c))"
    using run_flushes [OF demo_runs] by auto
  then show ?thesis using demo_collect by (auto simp: demo_sealed demo_fresh)
qed

section \<open>The world\<close>

definition demo_world :: world where
  "demo_world = (let db = \<lparr>tables = \<lambda>_. [], checkpoints = [''walflux'' \<mapsto> 0]\<rparr>
     in \<lparr>durable = db, working = db, confirmed = 0\<rparr>)"

lemma demo_name [simp]: "view_name demo_view = ''v''"
  by (simp add: demo_view_def)

lemma demo_rows_ok: "row_ok 2 demo_view (demo_row g (PDec (Fin 125 (- 2))))"
  "row_weight 2 demo_view (demo_row g (PDec (Fin 125 (- 2)))) = 225"
  by (simp_all add: row_weight_def agg_weight_def scaled_def row_ok_def needed_columns_def fromkeys_def row_key_def
      agg_fits_def fits_scale_def getv_def demo_view_def demo_row_def)

lemma demo_history_ok: "history_ok demo_cfg 2 (\<lambda>_. {#}) demo_history"
proof -
  have "events_exact 2 demo_view (events_for ''v'' (ops_of g))" if "sublist g demo_history" for g
    using that by (auto simp: demo_history_def sublist_Cons_right prefix_Cons events_exact_def events_weight_def
        ops_of_def events_for_def demo_rows_ok)
  then show ?thesis
    by (simp add: history_ok_def) (simp add: demo_history_def ops_of_def events_for_def)
qed

lemma demo_consistent: "consistent demo_cfg (\<lambda>_. {#}) demo_history 0 demo_world"
  by (simp add: consistent_def demo_world_def Let_def source_at_def applied_def demo_history_def ops_of_def events_for_def
      source_run_def holds_empty demo_group)

text \<open>A session cut after two effects, then a whole one.\<close>

theorem exactly_once_witness:
  "\<exists>k. consistent demo_cfg (\<lambda>_. {#}) demo_history k
         (session demo_cfg demo_ticks 2 (session demo_cfg demo_ticks 1 demo_world))"
proof -
  have "reachable demo_cfg demo_history demo_world (session demo_cfg demo_ticks 2 (session demo_cfg demo_ticks 1 demo_world))"
    by (intro reachable.intros demo_delivers)
  from exactly_once [OF demo_usable demo_history_ok demo_consistent this] show ?thesis by blast
qed


end
