(* ===== verification/Server.thy ===== *)
theory Server
  imports PyText
begin

text \<open>
  Talking to a PostgreSQL server.

  A program that sends commands is a \<open>talk\<close>: it maps what was said so far, commands with their
  replies in order, to its result and the longer conversation.  The server is any function from
  the conversation and the next command to a reply; a reply may be lost after the command took
  effect.  \<open>triple\<close> is a Hoare triple over the state the commands change, with an invariant that
  holds after every command, so that it also holds wherever a crash cuts the conversation, and a
  postcondition for the runs that raise.
\<close>

section \<open>Conversations\<close>

text \<open>\<open>Rows rows n\<close> carries the rows and the row count; \<open>Refused\<close> connections raise \<open>OperationalError\<close>.\<close>

datatype reply =
    Rows "pyval list list" int
  | Lost db_error "pyval list list"
  | Fails db_error
  | Refuses string

type_synonym 'c conversation = "('c \<times> reply) list"
type_synonym 'c server = "'c conversation \<Rightarrow> 'c \<Rightarrow> reply"
type_synonym ('c, 'a) talk = "'c conversation \<Rightarrow> 'a res \<times> 'c conversation"

definition say :: "'a \<Rightarrow> ('c, 'a) talk" where
  "say a = (\<lambda>h. (Inr a, h))"

definition throw :: "exn \<Rightarrow> ('c, 'a) talk" where
  "throw e = (\<lambda>h. (Inl e, h))"

definition andthen :: "('c, 'a) talk \<Rightarrow> ('a \<Rightarrow> ('c, 'b) talk) \<Rightarrow> ('c, 'b) talk" where
  "andthen m f = (\<lambda>h. case m h of (Inl e, h) \<Rightarrow> (Inl e, h) | (Inr a, h) \<Rightarrow> f a h)"

definition pure :: "'a res \<Rightarrow> ('c, 'a) talk" where
  "pure r = (\<lambda>h. (r, h))"

fun error_of :: "reply \<Rightarrow> exn + (pyval list list \<times> int)" where
  "error_of (Rows rows n) = Inr (rows, n)"
| "error_of (Lost e rows) = Inl (PgError e)"
| "error_of (Fails e) = Inl (PgError e)"
| "error_of (Refuses text) = Inl (PgError (OtherPgError text))"

definition perform :: "'c server \<Rightarrow> 'c \<Rightarrow> ('c, pyval list list \<times> int) talk" where
  "perform sv c = (\<lambda>h. (error_of (sv h c), h @ [(c, sv h c)]))"

text \<open>A connection attempt, with the driver's refusal as a one-line \<open>WalfluxError\<close>.\<close>

definition connect_with :: "'c server \<Rightarrow> 'c \<Rightarrow> ('c, unit) talk" where
  "connect_with sv c = (\<lambda>h. (case sv h c of
       Refuses text \<Rightarrow> connect (Refused text)
     | r \<Rightarrow> bindE (error_of r) (\<lambda>_. connect Connected), h @ [(c, sv h c)]))"

text \<open>A step that needs no answer from the server and cannot fail.\<close>

definition local :: "'c \<Rightarrow> ('c, unit) talk" where
  "local c = (\<lambda>h. (Inr (), h @ [(c, Rows [] 0)]))"

lemma andthen_eq:
  "andthen m f h = (Inr b, h'') \<longleftrightarrow> (\<exists>a h'. m h = (Inr a, h') \<and> f a h' = (Inr b, h''))"
  by (auto simp: andthen_def split: sum.splits prod.splits)

text \<open>\<open>try\<close> with an \<open>except\<close> clause, and with a \<open>finally\<close> clause.\<close>

definition catch :: "('c, 'a) talk \<Rightarrow> (exn \<Rightarrow> ('c, 'a) talk) \<Rightarrow> ('c, 'a) talk" where
  "catch m f = (\<lambda>h. case m h of (Inl e, h) \<Rightarrow> f e h | (Inr a, h) \<Rightarrow> (Inr a, h))"

definition eventually_do :: "('c, 'a) talk \<Rightarrow> ('c, unit) talk \<Rightarrow> ('c, 'a) talk" where
  "eventually_do m f = (\<lambda>h. case m h of (r, h) \<Rightarrow> (case f h of (Inl e, h) \<Rightarrow> (Inl e, h) | (Inr _, h) \<Rightarrow> (r, h)))"

fun each :: "('a \<Rightarrow> ('c, 'b) talk) \<Rightarrow> 'a list \<Rightarrow> ('c, 'b list) talk" where
  "each f [] = say []"
| "each f (x # xs) = andthen (f x) (\<lambda>y. andthen (each f xs) (\<lambda>ys. say (y # ys)))"

text \<open>\<open>cur.fetchone()[i]\<close>, and \<open>cur.fetchone()\<close> itself.\<close>

definition row_cell :: "nat \<Rightarrow> pyval list \<Rightarrow> pyval res" where
  "row_cell i r = (if i < length r then Inr (r ! i) else Inl IndexError)"

definition fetch_cell :: "nat \<Rightarrow> pyval list list \<times> int \<Rightarrow> pyval res" where
  "fetch_cell i p = (case fst p of [] \<Rightarrow> Inl TypeError | r # _ \<Rightarrow> row_cell i r)"

definition fetch_one :: "pyval list list \<times> int \<Rightarrow> pyval list option" where
  "fetch_one p = (case fst p of [] \<Rightarrow> None | r # _ \<Rightarrow> Some r)"

text \<open>\<open>parse_lsn\<close> of a value that came from the database.\<close>

definition lsn_of :: "pyval \<Rightarrow> int res" where
  "lsn_of v = (case v of PStr s \<Rightarrow> parse_lsn s | _ \<Rightarrow> Inl AttributeError)"

fun py_truthy :: "pyval \<Rightarrow> bool" where
  "py_truthy PNone = False"
| "py_truthy PToast = True"
| "py_truthy (PBool b) = b"
| "py_truthy (PInt n) = (n \<noteq> 0)"
| "py_truthy (PFloat (FFin m e)) = (m \<noteq> 0)"
| "py_truthy (PDec (Fin c e)) = (c \<noteq> 0)"
| "py_truthy (PStr s) = (s \<noteq> [])"
| "py_truthy _ = True"

section \<open>Triples\<close>

definition meets ::
    "('c \<times> reply \<Rightarrow> 's \<Rightarrow> 's) \<Rightarrow> ('s \<Rightarrow> bool) \<Rightarrow> 's \<Rightarrow> 'c conversation \<Rightarrow> ('a \<Rightarrow> 's \<Rightarrow> bool) \<Rightarrow> ('s \<Rightarrow> bool) \<Rightarrow>
     'a res \<times> 'c conversation \<Rightarrow> bool" where
  "meets eff J s h Q E r \<longleftrightarrow>
     (\<exists>t. snd r = h @ t \<and> (\<forall>n. 0 < n \<longrightarrow> n \<le> length t \<longrightarrow> J (fold eff (take n t) s)) \<and>
        (case fst r of Inl e \<Rightarrow> E (fold eff t s) | Inr a \<Rightarrow> Q a (fold eff t s)))"

definition triple ::
    "('c \<times> reply \<Rightarrow> 's \<Rightarrow> 's) \<Rightarrow> ('s \<Rightarrow> bool) \<Rightarrow> ('s \<Rightarrow> bool) \<Rightarrow> ('c, 'a) talk \<Rightarrow> ('a \<Rightarrow> 's \<Rightarrow> bool) \<Rightarrow> ('s \<Rightarrow> bool) \<Rightarrow> bool" where
  "triple eff J P m Q E \<longleftrightarrow> (\<forall>h s. P s \<longrightarrow> meets eff J s h Q E (m h))"

named_theorems talk_rules \<open>rules of the triples\<close>

lemma triple_say [talk_rules]: "(\<And>s. P s \<Longrightarrow> Q a s) \<Longrightarrow> triple eff J P (say a) Q E"
  by (auto simp: triple_def meets_def say_def)

lemma triple_throw [talk_rules]: "(\<And>s. P s \<Longrightarrow> E s) \<Longrightarrow> triple eff J P (throw e) Q E"
  by (auto simp: triple_def meets_def throw_def)

lemma triple_pure [talk_rules]:
  "(\<And>s a. P s \<Longrightarrow> r = Inr a \<Longrightarrow> Q a s) \<Longrightarrow> (\<And>s e. P s \<Longrightarrow> r = Inl e \<Longrightarrow> E s) \<Longrightarrow> triple eff J P (pure r) Q E"
  by (auto simp: triple_def meets_def pure_def split: sum.split)

lemma triple_conseq:
  assumes "triple eff J P m Q E" "\<And>s. P' s \<Longrightarrow> P s" "\<And>a s. Q a s \<Longrightarrow> Q' a s" "\<And>s. E s \<Longrightarrow> E' s"
  shows "triple eff J P' m Q' E'"
  unfolding triple_def
proof (intro allI impI)
  fix h s assume "P' s"
  then have "meets eff J s h Q E (m h)" using assms(1,2) by (simp add: triple_def)
  then show "meets eff J s h Q' E' (m h)"
    unfolding meets_def using assms(3,4) by (elim exE conjE, intro exI conjI) (auto split: sum.splits)
qed

text \<open>The invariant along two conversations, one after the other.\<close>

lemma invariant_append:
  assumes "\<forall>n. 0 < n \<longrightarrow> n \<le> length t \<longrightarrow> J (fold eff (take n t) s)"
    and "\<forall>n. 0 < n \<longrightarrow> n \<le> length u \<longrightarrow> J (fold eff (take n u) (fold eff t s))"
  shows "\<forall>n. 0 < n \<longrightarrow> n \<le> length (t @ u) \<longrightarrow> J (fold eff (take n (t @ u)) s)"
proof (intro allI impI)
  fix n assume n: "0 < n" "n \<le> length (t @ u)"
  show "J (fold eff (take n (t @ u)) s)"
  proof (cases "n \<le> length t")
    case True
    then show ?thesis using assms(1) n by simp
  next
    case False
    then have "take n (t @ u) = t @ take (n - length t) u" by simp
    moreover have "0 < n - length t" "n - length t \<le> length u" using False n by auto
    ultimately show ?thesis using assms(2) by simp
  qed
qed

lemma meets_chain:
  assumes "\<forall>n. 0 < n \<longrightarrow> n \<le> length t \<longrightarrow> J (fold eff (take n t) s)"
    and "meets eff J (fold eff t s) (h @ t) Q E r"
  shows "meets eff J s h Q E r"
proof -
  obtain u where u: "snd r = (h @ t) @ u" "\<forall>n. 0 < n \<longrightarrow> n \<le> length u \<longrightarrow> J (fold eff (take n u) (fold eff t s))"
      "case fst r of Inl e \<Rightarrow> E (fold eff u (fold eff t s)) | Inr b \<Rightarrow> Q b (fold eff u (fold eff t s))"
    using assms(2) unfolding meets_def by blast
  show ?thesis
    unfolding meets_def using u(1,3) invariant_append [OF assms(1) u(2)]
    by (intro exI [of _ "t @ u"]) (auto split: sum.splits)
qed

lemma triple_andthen:
  assumes m: "triple eff J P m R E" and f: "\<And>a. triple eff J (R a) (f a) Q E"
  shows "triple eff J P (andthen m f) Q E"
  unfolding triple_def
proof (intro allI impI)
  fix h s assume "P s"
  with m obtain t where t: "snd (m h) = h @ t" "\<forall>n. 0 < n \<longrightarrow> n \<le> length t \<longrightarrow> J (fold eff (take n t) s)"
      "case fst (m h) of Inl e \<Rightarrow> E (fold eff t s) | Inr a \<Rightarrow> R a (fold eff t s)"
    unfolding triple_def meets_def by blast
  show "meets eff J s h Q E (andthen m f h)"
  proof (cases "fst (m h)")
    case (Inl e)
    then have "andthen m f h = (Inl e, h @ t)" using t(1) by (simp add: andthen_def split_beta)
    with t Inl show ?thesis by (auto simp: meets_def)
  next
    case (Inr a)
    then have "R a (fold eff t s)" and r: "andthen m f h = f a (h @ t)"
      using t(1,3) by (simp_all add: andthen_def split_beta)
    then have "meets eff J (fold eff t s) (h @ t) Q E (f a (h @ t))" using f [of a] by (simp add: triple_def)
    then show ?thesis unfolding r by (rule meets_chain [OF t(2)])
  qed
qed

lemma triple_catch:
  assumes m: "triple eff J P m Q F" and f: "\<And>e. triple eff J F (f e) Q E"
  shows "triple eff J P (catch m f) Q E"
  unfolding triple_def
proof (intro allI impI)
  fix h s assume "P s"
  with m obtain t where t: "snd (m h) = h @ t" "\<forall>n. 0 < n \<longrightarrow> n \<le> length t \<longrightarrow> J (fold eff (take n t) s)"
      "case fst (m h) of Inl e \<Rightarrow> F (fold eff t s) | Inr a \<Rightarrow> Q a (fold eff t s)"
    unfolding triple_def meets_def by blast
  show "meets eff J s h Q E (catch m f h)"
  proof (cases "fst (m h)")
    case (Inr a)
    then have "catch m f h = (Inr a, h @ t)" using t(1) by (simp add: catch_def split_beta)
    with t Inr show ?thesis by (auto simp: meets_def)
  next
    case (Inl e)
    then have "F (fold eff t s)" and r: "catch m f h = f e (h @ t)"
      using t(1,3) by (simp_all add: catch_def split_beta)
    then have "meets eff J (fold eff t s) (h @ t) Q E (f e (h @ t))" using f [of e] by (simp add: triple_def)
    then show ?thesis unfolding r by (rule meets_chain [OF t(2)])
  qed
qed

text \<open>The \<open>finally\<close> clause runs from the states of either outcome.\<close>

lemma triple_eventually:
  assumes m: "triple eff J P m Q F" and fr: "\<And>a. triple eff J (Q a) f (\<lambda>_. Q' a) E" and fe: "triple eff J F f (\<lambda>_. E) E"
  shows "triple eff J P (eventually_do m f) Q' E"
  unfolding triple_def
proof (intro allI impI)
  fix h s assume "P s"
  with m obtain t where t: "snd (m h) = h @ t" "\<forall>n. 0 < n \<longrightarrow> n \<le> length t \<longrightarrow> J (fold eff (take n t) s)"
      "case fst (m h) of Inl e \<Rightarrow> F (fold eff t s) | Inr a \<Rightarrow> Q a (fold eff t s)"
    unfolding triple_def meets_def by blast
  have "meets eff J (fold eff t s) (h @ t) Q' E (eventually_do m f h)"
  proof (cases "fst (m h)")
    case (Inl e)
    then have "F (fold eff t s)" using t(3) by simp
    then have "meets eff J (fold eff t s) (h @ t) (\<lambda>_. E) E (f (h @ t))" using fe by (simp add: triple_def)
    then show ?thesis using Inl t(1) by (auto simp: meets_def eventually_do_def split_beta split: sum.splits)
  next
    case (Inr a)
    then have "Q a (fold eff t s)" using t(3) by simp
    then have "meets eff J (fold eff t s) (h @ t) (\<lambda>_. Q' a) E (f (h @ t))" using fr by (simp add: triple_def)
    then show ?thesis using Inr t(1) by (auto simp: meets_def eventually_do_def split_beta split: sum.splits)
  qed
  then show "meets eff J s h Q' E (eventually_do m f h)" by (rule meets_chain [OF t(2)])
qed

lemma triple_perform:
  assumes "\<And>h s rows n. P s \<Longrightarrow> sv h c = Rows rows n \<Longrightarrow> J (eff (c, Rows rows n) s) \<and> Q (rows, n) (eff (c, Rows rows n) s)"
    and "\<And>h s r e. P s \<Longrightarrow> sv h c = r \<Longrightarrow> error_of r = Inl e \<Longrightarrow> J (eff (c, r) s) \<and> E (eff (c, r) s)"
  shows "triple eff J P (perform sv c) Q E"
  unfolding triple_def
proof (intro allI impI)
  fix h s assume "P s"
  then show "meets eff J s h Q E (perform sv c h)"
    unfolding meets_def using assms [of s h]
    by (intro exI [of _ "[(c, sv h c)]"]) (cases "sv h c"; auto simp: perform_def le_Suc_eq)
qed

lemma triple_connect_with:
  assumes "\<And>h s rows n. P s \<Longrightarrow> sv h c = Rows rows n \<Longrightarrow> J (eff (c, Rows rows n) s) \<and> Q () (eff (c, Rows rows n) s)"
    and "\<And>h s r e. P s \<Longrightarrow> sv h c = r \<Longrightarrow> error_of r = Inl e \<Longrightarrow> J (eff (c, r) s) \<and> E (eff (c, r) s)"
  shows "triple eff J P (connect_with sv c) Q E"
  unfolding triple_def
proof (intro allI impI)
  fix h s assume "P s"
  then show "meets eff J s h Q E (connect_with sv c h)"
    unfolding meets_def using assms [of s h]
    by (intro exI [of _ "[(c, sv h c)]"]) (cases "sv h c"; auto simp: connect_with_def connect_def le_Suc_eq)
qed

lemma triple_each:
  assumes "\<And>x. x \<in> set xs \<Longrightarrow> triple eff J P (f x) (\<lambda>_. P) E"
  shows "triple eff J P (each f xs) (\<lambda>_. P) E"
  using assms
proof (induction xs)
  case (Cons x xs)
  have "triple eff J P (andthen (each f xs) (\<lambda>ys. say (y # ys))) (\<lambda>_. P) E" for y
    by (rule triple_andthen [OF Cons.IH]) (use Cons.prems in \<open>auto intro: triple_say\<close>)
  then show ?case unfolding each.simps using Cons.prems triple_andthen by fastforce
qed (simp add: triple_say)

text \<open>A loop whose assertion depends on the part already done.\<close>

lemma triple_each_prefix:
  assumes "\<And>ys x zs. xs = ys @ x # zs \<Longrightarrow> triple eff J (I ys) (f x) (\<lambda>_. I (ys @ [x])) E"
  shows "triple eff J (I []) (each f xs) (\<lambda>_. I xs) E"
proof -
  have "triple eff J (I ys) (each f zs) (\<lambda>_. I (ys @ zs)) E" if "xs = ys @ zs" for ys zs
    using that
  proof (induction zs arbitrary: ys)
    case (Cons z zs)
    have rest: "triple eff J (I (ys @ [z])) (each f zs) (\<lambda>_. I (ys @ z # zs)) E"
      using Cons.IH [of "ys @ [z]"] Cons.prems by simp
    show ?case
      unfolding each.simps
    proof (rule triple_andthen)
      show "triple eff J (I ys) (f z) (\<lambda>_. I (ys @ [z])) E" by (rule assms [OF Cons.prems])
      show "triple eff J (I (ys @ [z])) (andthen (each f zs) (\<lambda>us. say (y # us))) (\<lambda>_. I (ys @ z # zs)) E" for y
        by (rule triple_andthen [OF rest]) (simp add: triple_say)
    qed
  qed (simp add: triple_say)
  from this [of "[]" xs] show ?thesis by simp
qed

section \<open>Talk that keeps an assertion\<close>

definition keeps :: "('c \<times> reply \<Rightarrow> 's \<Rightarrow> 's) \<Rightarrow> ('s \<Rightarrow> bool) \<Rightarrow> ('c, 'a) talk \<Rightarrow> bool" where
  "keeps eff P m \<longleftrightarrow> triple eff P P m (\<lambda>_. P) P"

named_theorems keeps_rules \<open>rules for talk that keeps an assertion\<close>

lemma keeps_say [keeps_rules]: "keeps eff P (say a)"
  by (simp add: keeps_def triple_say)

lemma keeps_throw [keeps_rules]: "keeps eff P (throw e)"
  by (simp add: keeps_def triple_throw)

lemma keeps_pure [keeps_rules]: "keeps eff P (pure r)"
  by (simp add: keeps_def triple_pure)

lemma keeps_andthen [keeps_rules]: "keeps eff P m \<Longrightarrow> (\<And>a. keeps eff P (f a)) \<Longrightarrow> keeps eff P (andthen m f)"
  unfolding keeps_def by (rule triple_andthen)

lemma keeps_catch [keeps_rules]: "keeps eff P m \<Longrightarrow> (\<And>e. keeps eff P (f e)) \<Longrightarrow> keeps eff P (catch m f)"
  unfolding keeps_def by (rule triple_catch)

lemma keeps_each [keeps_rules]: "(\<And>x. x \<in> set xs \<Longrightarrow> keeps eff P (f x)) \<Longrightarrow> keeps eff P (each f xs)"
  unfolding keeps_def by (rule triple_each)

lemma keeps_if [keeps_rules]: "(b \<Longrightarrow> keeps eff P m) \<Longrightarrow> (\<not> b \<Longrightarrow> keeps eff P m') \<Longrightarrow> keeps eff P (if b then m else m')"
  by simp

lemma keeps_option [keeps_rules]:
  "keeps eff P m \<Longrightarrow> (\<And>x. keeps eff P (f x)) \<Longrightarrow> keeps eff P (case v of None \<Rightarrow> m | Some x \<Rightarrow> f x)"
  by (simp split: option.split)

lemma keeps_list [keeps_rules]:
  "keeps eff P m \<Longrightarrow> (\<And>x xs. keeps eff P (f x xs)) \<Longrightarrow> keeps eff P (case l of [] \<Rightarrow> m | x # xs \<Rightarrow> f x xs)"
  by (simp split: list.split)

lemma keeps_perform: "(\<And>r s. P s \<Longrightarrow> P (eff (c, r) s)) \<Longrightarrow> keeps eff P (perform sv c)"
  unfolding keeps_def by (rule triple_perform) auto

lemma keeps_connect_with: "(\<And>r s. P s \<Longrightarrow> P (eff (c, r) s)) \<Longrightarrow> keeps eff P (connect_with sv c)"
  unfolding keeps_def by (rule triple_connect_with) auto

text \<open>Under a wider invariant, with the same assertion before and after.\<close>

lemma keeps_triple:
  assumes "keeps eff P m" "\<And>s. P s \<Longrightarrow> J s"
  shows "triple eff J P m (\<lambda>_. P) P"
  using assms unfolding keeps_def triple_def meets_def by meson

lemma triple_hang_up:
  assumes "\<And>s. P s \<Longrightarrow> J (eff (c, Rows [] 0) s) \<and> Q (eff (c, Rows [] 0) s)"
  shows "triple eff J P (\<lambda>h. (Inr (), h @ [(c, Rows [] 0)])) (\<lambda>_. Q) E"
  unfolding triple_def meets_def using assms by (auto intro!: exI [of _ "[(c, Rows [] 0)]"] simp: le_Suc_eq)

end
