(* ===== verification/Queries.thy ===== *)
theory Queries
  imports GroundTruth
begin

text \<open>
  The aggregate queries the program sends, as trees: what they are as text and what they return.

  A \<open>query\<close> is a \<open>SELECT\<close> of expressions over one table, with an optional \<open>GROUP BY\<close>;
  \<open>query_rows\<close> is its result.  \<open>backfill_query\<close> is the \<open>SELECT\<close> of \<open>backfill_sql\<close>
  (\<open>aggregates.py\<close>): it fills an empty target table with exactly what \<open>table_holds\<close> asks for.
\<close>

section \<open>Select expressions\<close>

datatype sql_expr =
    LitTrue
  | Col string
  | CountStar
  | CountCol string
  | SumCol string
  | AvgCol string
  | SumOrZero string

fun expr_text :: "sql_expr \<Rightarrow> string res" where
  "expr_text LitTrue = Inr ''true''"
| "expr_text (Col c) = quote_ident c"
| "expr_text CountStar = Inr ''count(*)''"
| "expr_text (CountCol c) = bindE (quote_ident c) (\<lambda>q. Inr (''count('' @ q @ '')''))"
| "expr_text (SumCol c) = bindE (quote_ident c) (\<lambda>q. Inr (''sum('' @ q @ '')''))"
| "expr_text (AvgCol c) = bindE (quote_ident c) (\<lambda>q. Inr (''avg('' @ q @ '')''))"
| "expr_text (SumOrZero c) = bindE (quote_ident c) (\<lambda>q. Inr (''coalesce(sum('' @ q @ ''), 0)''))"

record query =
  q_exprs :: "sql_expr list"
  q_schema :: string
  q_table :: string
  q_groups :: "string list"

definition query_text :: "string \<Rightarrow> query \<Rightarrow> string res" where
  "query_text sep q =
     bindE (mapE expr_text (q_exprs q)) (\<lambda>es.
     bindE (quote_ident (q_schema q)) (\<lambda>s.
     bindE (quote_ident (q_table q)) (\<lambda>t.
     bindE (quoted_list (q_groups q)) (\<lambda>g.
       Inr (''SELECT '' @ py_join '', '' es @ sep @ ''FROM '' @ s @ ''.'' @ t @
            (if q_groups q \<noteq> [] then sep @ ''GROUP BY '' @ g else []))))))"

section \<open>Results\<close>

definition non_null :: "string \<Rightarrow> row list \<Rightarrow> row list" where
  "non_null c xs = filter (\<lambda>r. getv r c \<noteq> PNone) xs"

definition col_sum :: "string \<Rightarrow> row list \<Rightarrow> rat" where
  "col_sum c xs = sum_list (map (\<lambda>r. sql_num (getv r c)) (non_null c xs))"

text \<open>The value of an expression over the rows of one group; a grouping column is the same in all of them.\<close>

fun eval_expr :: "sql_expr \<Rightarrow> row list \<Rightarrow> cell" where
  "eval_expr LitTrue xs = eq_key (PBool True)"
| "eval_expr (Col c) xs = (case xs of [] \<Rightarrow> sql_null | r # _ \<Rightarrow> eq_key (getv r c))"
| "eval_expr CountStar xs = Some (KNum (of_nat (length xs)))"
| "eval_expr (CountCol c) xs = Some (KNum (of_nat (length (non_null c xs))))"
| "eval_expr (SumCol c) xs = (if non_null c xs = [] then sql_null else Some (KNum (col_sum c xs)))"
| "eval_expr (AvgCol c) xs =
     (if non_null c xs = [] then sql_null else Some (KNum (col_sum c xs / of_nat (length (non_null c xs)))))"
| "eval_expr (SumOrZero c) xs = Some (KNum (col_sum c xs))"

definition group_cells :: "string list \<Rightarrow> row \<Rightarrow> cell list" where
  "group_cells gs r = map (\<lambda>c. eq_key (getv r c)) gs"

text \<open>Without \<open>GROUP BY\<close> there is one group, also when there are no rows.\<close>

definition query_groups :: "string list \<Rightarrow> row list \<Rightarrow> row list list" where
  "query_groups gs xs =
     (if gs = [] then [xs]
      else map (\<lambda>k. filter (\<lambda>r. group_cells gs r = k) xs) (remdups (map (group_cells gs) xs)))"

definition query_rows :: "query \<Rightarrow> row list \<Rightarrow> cell list list" where
  "query_rows q xs = map (\<lambda>g. map (\<lambda>e. eval_expr e g) (q_exprs q)) (query_groups (q_groups q) xs)"

section \<open>The backfill\<close>

fun agg_exprs :: "agg_spec \<Rightarrow> sql_expr list" where
  "agg_exprs a =
     (case agg_column a of
        None \<Rightarrow> [CountStar]
      | Some c \<Rightarrow> if agg_fn a = ''count'' then [CountCol c] else [SumOrZero c, CountCol c])"

definition backfill_query :: "view_spec \<Rightarrow> query" where
  "backfill_query view =
     \<lparr>q_exprs = (if group_by view \<noteq> [] then map Col (group_by view) else [LitTrue]) @
                CountStar # concat (map agg_exprs (aggregates view)),
      q_schema = source_schema view, q_table = source_table view, q_groups = group_by view\<rparr>"

text \<open>\<open>INSERT INTO target (columns) SELECT ...\<close>.\<close>

definition backfill_table :: "view_spec \<Rightarrow> row list \<Rightarrow> table \<Rightarrow> table" where
  "backfill_table view xs old = old @ map (cells_row (all_columns view)) (query_rows (backfill_query view) xs)"

lemma agg_storage_exprs:
  assumes "agg_storage a = Inr ss"
  shows "mapE expr_text (agg_exprs a) = Inr (map backfill_expr ss)"
  using assms
  by (auto simp: agg_storage_def bindE_eq_Inr split: option.splits if_splits)

lemma storage_exprs:
  assumes "mapE agg_storage as = Inr sss"
  shows "mapE expr_text (concat (map agg_exprs as)) = Inr (map backfill_expr (concat sss))"
  using assms
  by (induction as arbitrary: sss) (auto simp: bindE_eq_Inr mapE_append agg_storage_exprs simp del: agg_exprs.simps)

lemma mapE_Col: "mapE expr_text (map Col cs) = mapE quote_ident cs"
  by (induction cs) simp_all

lemma backfill_text:
  assumes "backfill_sql v = Inr text"
  shows "\<exists>t cols sel. target v = Inr t \<and> quoted_list (all_columns v) = Inr cols \<and>
    query_text [newline] (backfill_query v) = Inr sel \<and>
    text = ''INSERT INTO '' @ t @ '' ('' @ cols @ '')'' @ [newline] @ sel"
proof -
  obtain sss ks sch tab t cols g where
    sss: "mapE agg_storage (aggregates v) = Inr sss"
    and ks: "(if group_by v \<noteq> [] then mapE quote_ident (group_by v) else Inr [''true'']) = Inr ks"
    and st: "quote_ident (source_schema v) = Inr sch" "quote_ident (source_table v) = Inr tab" "target v = Inr t"
    and cols: "quoted_list (insert_columns v (concat sss)) = Inr cols"
    and g: "(if group_by v \<noteq> [] then bindE (quoted_list (group_by v)) (\<lambda>g. Inr (newline # ''GROUP BY '' @ g)) else Inr []) = Inr g"
    and body: "text = ''INSERT INTO '' @ t @ '' ('' @ cols @ '')'' @ newline #
            ''SELECT '' @ py_join '', '' (ks @ ''count(*)'' # map backfill_expr (concat sss)) @ newline #
            ''FROM '' @ sch @ ''.'' @ tab @ g"
    using assms by (auto simp: backfill_sql_def view_storage_def bindE_eq_Inr)
  have cols': "quoted_list (all_columns v) = Inr cols"
    using cols sss by (simp add: all_columns_def delta_columns_def storage_names_def view_storage_def insert_columns_def)
  have "mapE expr_text (q_exprs (backfill_query v)) = Inr (ks @ ''count(*)'' # map backfill_expr (concat sss))"
    using ks storage_exprs [OF sss] by (auto simp: backfill_query_def mapE_append mapE_Col bindE_eq_Inr split: if_splits)
  moreover have "\<exists>gs. quoted_list (group_by v) = Inr gs \<and> g = (if group_by v \<noteq> [] then newline # ''GROUP BY '' @ gs else [])"
    using g by (auto simp: bindE_eq_Inr quoted_list_def split: if_splits)
  ultimately have "query_text [newline] (backfill_query v) =
      Inr (''SELECT '' @ py_join '', '' (ks @ ''count(*)'' # map backfill_expr (concat sss)) @ [newline] @
           ''FROM '' @ sch @ ''.'' @ tab @ g)"
    using st by (auto simp: query_text_def backfill_query_def)
  with st cols' body show ?thesis by simp
qed

section \<open>The backfill is the truth\<close>

lemma eval_storage:
  "map (\<lambda>e. eval_expr e g) (CountStar # concat (map agg_exprs (aggregates v))) =
   num_cells (map (\<lambda>f. f (mset g)) (storage_values v))"
proof -
  have one: "map (\<lambda>e. eval_expr e g) (agg_exprs a) = num_cells (map (\<lambda>f. f (mset g)) (agg_values a))" for a
    by (auto simp: agg_values_def num_cells_def sql_count_def sql_count_col_def sql_sum_def col_sum_def non_null_def
        sum_mset_sum_list [symmetric] split: option.split simp flip: mset_filter mset_map)
  have "map (\<lambda>e. eval_expr e g) (concat (map agg_exprs as)) = num_cells (map (\<lambda>f. f (mset g)) (concat (map agg_values as)))" for as
    using one by (induction as) (simp_all add: num_cells_def del: agg_exprs.simps)
  then show ?thesis by (simp add: storage_values_def num_cells_def sql_count_def del: agg_exprs.simps)
qed

lemma class_of_row:
  "class_of v (row_key v r) = (if group_by v = [] then class_of v [] else group_cells (group_by v) r)"
  by (simp add: class_of_def row_key_def group_cells_def)

lemma members_mset: "members v (mset xs) k = mset (filter (\<lambda>r. class_of v (row_key v r) = k) xs)"
  by (simp add: members_def)

lemma truth_mset:
  "truth v (mset xs) k =
     (if filter (\<lambda>r. class_of v (row_key v r) = k) xs \<noteq> [] \<or> group_by v = [] \<and> k = class_of v []
      then Some (map (\<lambda>f. f (mset (filter (\<lambda>r. class_of v (row_key v r) = k) xs))) (storage_values v)) else None)"
  unfolding truth_def members_mset mset_zero_iff by (rule refl)

definition backfill_groups :: "view_spec \<Rightarrow> row list \<Rightarrow> (cell list \<times> rat list) list" where
  "backfill_groups v xs =
     map (\<lambda>k. (k, map (\<lambda>f. f (mset (filter (\<lambda>r. class_of v (row_key v r) = k) xs))) (storage_values v)))
       (if group_by v = [] then [class_of v []] else remdups (map (group_cells (group_by v)) xs))"

lemma backfill_groups_truth: "map_of (backfill_groups v xs) k = truth v (mset xs) k"
proof (cases "group_by v = []")
  case True
  then have "class_of v (row_key v r) = class_of v []" for r by (simp add: class_of_row)
  with True show ?thesis by (auto simp: backfill_groups_def truth_mset)
next
  case False
  then have c: "class_of v (row_key v r) = group_cells (group_by v) r" for r by (simp add: class_of_row)
  have "filter (\<lambda>r. class_of v (row_key v r) = k) xs \<noteq> [] \<longleftrightarrow> k \<in> set (remdups (map (group_cells (group_by v)) xs))"
    by (auto simp: c filter_empty_conv)
  with False show ?thesis
    by (simp add: backfill_groups_def truth_mset map_of_map_restrict restrict_map_def)
qed

lemma backfill_groups_row:
  "query_rows (backfill_query v) xs = map (\<lambda>kv. fst kv @ num_cells (snd kv)) (backfill_groups v xs)"
proof (cases "group_by v = []")
  case True
  then have c: "class_of v (row_key v r) = class_of v []" for r by (simp add: class_of_row)
  have "class_of v [] = [eq_key (PBool True)]" using True by (simp add: class_of_def)
  then show ?thesis
    using True eval_storage [of xs v]
    by (simp add: query_rows_def query_groups_def backfill_query_def backfill_groups_def c)
next
  case False
  let ?gs = "group_by v"
  let ?g = "\<lambda>k. filter (\<lambda>r. group_cells ?gs r = k) xs"
  have c: "class_of v (row_key v r) = group_cells ?gs r" for r using False by (simp add: class_of_row)
  have key: "map (\<lambda>e. eval_expr e (?g k)) (map Col ?gs) = k" if "k \<in> set (map (group_cells ?gs) xs)" for k
  proof -
    have "?g k \<noteq> []" using that by (auto simp: filter_empty_conv)
    then obtain r rs where g: "?g k = r # rs" by (meson neq_Nil_conv)
    then have "r \<in> set (?g k)" by simp
    then have "group_cells ?gs r = k" by simp
    with g show ?thesis by (simp add: group_cells_def o_def)
  qed
  show ?thesis
    using False key eval_storage [of "?g k" v for k]
    by (auto simp: query_rows_def query_groups_def backfill_query_def backfill_groups_def c o_def)
qed

lemma backfill_holds:
  assumes "view_storage v = Inr ss"
  shows "table_holds v (backfill_table v xs []) (mset xs)"
  unfolding table_holds_def
proof (intro exI [of _ "backfill_groups v xs"] conjI allI)
  show "backfill_table v xs [] = rows_of (all_columns v) (backfill_groups v xs)"
    by (simp add: backfill_table_def backfill_groups_row rows_of_def group_row_def o_def)
  show "distinct (map fst (backfill_groups v xs))" by (simp add: backfill_groups_def o_def)
  have "length (storage_values v) = length (delta_columns v)"
    using assms by (auto simp: storage_values_def delta_columns_def storage_names_def view_storage_def bindE_eq_Inr
        dest: mapE_lengths)
  then show "list_all (shaped (key_columns v) (delta_columns v)) (backfill_groups v xs)"
    by (auto simp: list_all_iff shaped_def backfill_groups_def key_columns_def class_of_def group_cells_def)
  show "map_of (backfill_groups v xs) k = truth v (mset xs) k" for k by (rule backfill_groups_truth)
qed

end
