(* ===== verification/Bootstrap.thy ===== *)
theory Bootstrap
  imports Server Queries ExactlyOnce
begin

text \<open>
  \<open>walflux/bootstrap.py\<close> and the table of \<open>walflux/checkpoint.py\<close>: \<open>setup\<close> and \<open>teardown\<close> as
  conversations with the server.

  A \<open>command\<close> is a statement sent, with its text where the code builds one; \<open>command_sql\<close> gives
  the text and parameters of the others.  \<open>setup_step\<close> is what a command that took effect changes:
  the slot, the durable tables and checkpoint, and the open transaction with the snapshot it is
  pinned to.  \<open>rows_at k\<close> are the source rows committed up to position \<open>k\<close>, \<open>live\<close> what a
  transaction without the snapshot would read.
\<close>

section \<open>Commands\<close>

datatype command =
    ConnectMain
  | ConnectRepl
  | Query string "pyval list"
  | SetReplicaFull string
  | CreateCheckpoint string
  | EditPublication string
  | DropSlot string
  | DeleteCheckpoint string
  | CreateSlot string string
  | BeginSnapshot
  | SetSnapshot pyval
  | TargetDdl nat view_spec string
  | Backfill view_spec string
  | SaveRow string int
  | CommitSetup
  | TerminateBackend pyval
  | DropPublication string
  | DropSchema
  | Sleep rat
  | CloseRepl
  | CloseMain

fun command_sql :: "command \<Rightarrow> string \<times> pyval list" where
  "command_sql (Query text params) = (text, params)"
| "command_sql (SetReplicaFull text) = (text, [])"
| "command_sql (CreateCheckpoint text) = (text, [])"
| "command_sql (EditPublication text) = (text, [])"
| "command_sql (DropSlot n) = (''SELECT pg_drop_replication_slot(%s)'', [PStr n])"
| "command_sql (DeleteCheckpoint n) = (''DELETE FROM walflux.checkpoint WHERE slot = %s'', [PStr n])"
| "command_sql (CreateSlot n text) = (text, [])"
| "command_sql BeginSnapshot = (''BEGIN ISOLATION LEVEL REPEATABLE READ'', [])"
| "command_sql (SetSnapshot v) = (''SET TRANSACTION SNAPSHOT %s'', [v])"
| "command_sql (TargetDdl i v text) = (text, [])"
| "command_sql (Backfill v text) = (text, [])"
| "command_sql (SaveRow n lsn) = write_checkpoint n lsn"
| "command_sql CommitSetup = (''COMMIT'', [])"
| "command_sql (TerminateBackend pid) = (''SELECT pg_terminate_backend(%s)'', [pid])"
| "command_sql (DropPublication text) = (text, [])"
| "command_sql DropSchema = (''DROP SCHEMA IF EXISTS walflux CASCADE'', [])"
| "command_sql _ = ([], [])"

text \<open>Closing a connection, and sleeping, do not fail.\<close>

definition hang_up :: "'c \<Rightarrow> ('c, unit) talk" where
  "hang_up c = (\<lambda>h. (Inr (), h @ [(c, Rows [] 0)]))"

section \<open>Checks\<close>

definition privilege_hint :: string where
  "privilege_hint =
     ''walflux setup needs three things: the REPLICATION attribute (RDS instead: '' @
     ''GRANT rds_replication TO your_role), CREATE on the database, and ownership '' @
     ''of each source table '' @ [CHR 0xE2, CHR 0x80, CHR 0x94] @ '' see the README's Requirements section''"

definition check_server_version :: "command server \<Rightarrow> (command, unit) talk" where
  "check_server_version sv =
     andthen (perform sv (Query ''SHOW server_version_num'' [])) (\<lambda>r.
     andthen (pure (bindE (fetch_cell 0 r) as_int)) (\<lambda>version_num.
       if version_num < 150000
       then andthen (perform sv (Query ''SHOW server_version'' [])) (\<lambda>r.
            andthen (pure (fetch_cell 0 r)) (\<lambda>version.
              throw (SetupError (''Postgres '' @ py_str version @ '' detected; WalFlux needs 15+ '' @
                ''(target upserts use UNIQUE ... NULLS NOT DISTINCT)''))))
       else say ()))"

definition check_wal_level :: "command server \<Rightarrow> (command, unit) talk" where
  "check_wal_level sv =
     andthen (perform sv (Query ''SHOW wal_level'' [])) (\<lambda>r.
     andthen (pure (fetch_cell 0 r)) (\<lambda>level.
       if level \<noteq> PStr ''logical''
       then throw (SetupError (''wal_level is '' @ py_repr (py_str level) @
              ''; logical replication requires wal_level=logical '' @
              ''(change it in postgresql.conf and restart Postgres)''))
       else say ()))"

definition source_tables :: "view_spec list \<Rightarrow> (string \<times> string) list" where
  "source_tables vs = fromkeys (map (\<lambda>v. (source_schema v, source_table v)) vs)"

definition qual_name :: "string \<Rightarrow> string \<Rightarrow> string res" where
  "qual_name s t = bindE (quote_ident s) (\<lambda>qs. bindE (quote_ident t) (\<lambda>qt. Inr (qs @ ''.'' @ qt)))"

definition ensure_source :: "command server \<Rightarrow> string \<times> string \<Rightarrow> (command, unit) talk" where
  "ensure_source sv st =
     (let (schema, tab) = st
      in andthen (perform sv (Query
            (''SELECT c.relreplident FROM pg_class c '' @
             ''JOIN pg_namespace n ON n.oid = c.relnamespace '' @
             ''WHERE n.nspname = %s AND c.relname = %s AND c.relkind = 'r' '') [PStr schema, PStr tab])) (\<lambda>r.
         (case fetch_one r of
            None \<Rightarrow> throw (SetupError (''source table '' @ schema @ ''.'' @ tab @ '' does not exist''))
          | Some rw \<Rightarrow>
              andthen (pure (row_cell 0 rw)) (\<lambda>ident.
                if ident \<noteq> PStr ''f''
                then andthen (pure (qual_name schema tab)) (\<lambda>q.
                     andthen (perform sv (SetReplicaFull (''ALTER TABLE '' @ q @ '' REPLICA IDENTITY FULL''))) (\<lambda>_. say ()))
                else say ()))))"

definition ensure_sources :: "command server \<Rightarrow> view_spec list \<Rightarrow> (command, unit) talk" where
  "ensure_sources sv vs = andthen (each (ensure_source sv) (source_tables vs)) (\<lambda>_. say ())"

definition checkpoint_ddl :: "string list" where
  "checkpoint_ddl =
     [''CREATE SCHEMA IF NOT EXISTS walflux'',
      ''CREATE TABLE IF NOT EXISTS walflux.checkpoint ('' @ [newline] @
      ''  slot        text PRIMARY KEY,'' @ [newline] @
      ''  commit_lsn  bigint NOT NULL,'' @ [newline] @
      ''  updated_at  timestamptz NOT NULL DEFAULT now()'' @ [newline] @ '')'']"

definition ensure_checkpoint_table :: "command server \<Rightarrow> (command, unit) talk" where
  "ensure_checkpoint_table sv =
     andthen (each (\<lambda>statement. perform sv (CreateCheckpoint statement)) checkpoint_ddl) (\<lambda>_. say ())"

definition ensure_publication :: "command server \<Rightarrow> config \<Rightarrow> (command, unit) talk" where
  "ensure_publication sv cfg =
     andthen (pure (mapE (\<lambda>(s, t). qual_name s t) (source_tables (views cfg)))) (\<lambda>qs.
     andthen (perform sv (Query ''SELECT 1 FROM pg_publication WHERE pubname = %s'' [PStr (publication cfg)])) (\<lambda>r.
     andthen (pure (quote_ident (publication cfg))) (\<lambda>p.
     andthen (perform sv (EditPublication
         (if fetch_one r = None
          then ''CREATE PUBLICATION '' @ p @ '' FOR TABLE '' @ py_join '', '' qs
          else ''ALTER PUBLICATION '' @ p @ '' SET TABLE '' @ py_join '', '' qs))) (\<lambda>_. say ()))))"

definition slot_query :: "string \<Rightarrow> command" where
  "slot_query n = Query ''SELECT active, active_pid FROM pg_replication_slots WHERE slot_name = %s'' [PStr n]"

definition prepare_slot :: "command server \<Rightarrow> string \<Rightarrow> bool \<Rightarrow> (command, unit) talk" where
  "prepare_slot sv n force =
     andthen (perform sv (slot_query n)) (\<lambda>r.
       (case fetch_one r of
          None \<Rightarrow> say ()
        | Some rw \<Rightarrow>
            if \<not> force
            then throw (SetupError (''replication slot '' @ py_repr n @ '' already exists; re-run with --force to drop and '' @
                   ''recreate it (this re-runs the backfill), or remove everything with `walflux teardown`''))
            else (case rw of
                    [active, pid] \<Rightarrow>
                      if py_truthy active
                      then throw (SetupError (''replication slot '' @ py_repr n @ '' is in use by pid '' @ py_str pid @
                             ''; stop the daemon before running setup --force''))
                      else andthen (perform sv (DropSlot n)) (\<lambda>_. say ())
                  | _ \<Rightarrow> throw ValueError)))"

section \<open>The backfill\<close>

definition source_columns :: "command server \<Rightarrow> view_spec \<Rightarrow> (command, (string \<times> string) list) talk" where
  "source_columns sv view =
     andthen (perform sv (Query
       (''SELECT a.attname, format_type(a.atttypid, a.atttypmod) '' @
        ''FROM pg_attribute a '' @
        ''JOIN pg_class c ON c.oid = a.attrelid '' @
        ''JOIN pg_namespace n ON n.oid = c.relnamespace '' @
        ''WHERE n.nspname = %s AND c.relname = %s AND c.relkind = 'r' '' @
        ''AND a.attnum > 0 AND NOT a.attisdropped'') [PStr (source_schema view), PStr (source_table view)])) (\<lambda>r.
     andthen (pure (mapE (\<lambda>rw. case rw of [PStr n, ty] \<Rightarrow> Inr (n, py_str ty) | [_, _] \<Rightarrow> Inl TypeError | _ \<Rightarrow> Inl ValueError) (fst r))) (\<lambda>ps.
       say (fold (\<lambda>(n, ty) d. dict_set (=) n ty d) ps [])))"

definition group_types :: "view_spec \<Rightarrow> (string \<times> string) list \<Rightarrow> (string \<times> string) list res" where
  "group_types view columns =
     mapE (\<lambda>n. case map_of columns n of None \<Rightarrow> Inl KeyError | Some ty \<Rightarrow> Inr (n, ty)) (group_by view)"

definition setup_columns :: "view_spec \<Rightarrow> string list" where
  "setup_columns view = fromkeys (group_by view @ List.map_filter agg_column (aggregates view))"

definition lacking :: "view_spec \<Rightarrow> (string \<times> string) list \<Rightarrow> string list" where
  "lacking view columns = sort (filter (\<lambda>c. c \<notin> fst ` set columns) (setup_columns view))"

definition backfill_view :: "command server \<Rightarrow> view_spec \<Rightarrow> (command, string \<times> int) talk" where
  "backfill_view sv view =
     andthen (source_columns sv view) (\<lambda>columns.
       if lacking view columns \<noteq> []
       then throw (SetupError (''source table '' @ source_schema view @ ''.'' @ source_table view @ '' is missing column(s) '' @
              py_join '', '' (lacking view columns) @ '' needed by view '' @ py_repr (view_name view)))
       else
         andthen (pure (bindE (group_types view columns) (target_ddl view))) (\<lambda>ddl.
         andthen (each (\<lambda>(i, text). perform sv (TargetDdl i view text)) (enumerate 0 ddl)) (\<lambda>_.
         andthen (pure (backfill_sql view)) (\<lambda>sql.
         andthen (perform sv (Backfill view sql)) (\<lambda>r. say (view_name view, snd r))))))"

text \<open>The lines printed once the transaction has committed.\<close>

definition setup_report :: "config \<Rightarrow> pyval \<Rightarrow> (string \<times> int) list \<Rightarrow> string list" where
  "setup_report cfg point counts =
     (''setup complete: publication '' @ py_repr (publication cfg) @ '', slot '' @ py_repr (slot cfg) @
      '', checkpoint '' @ py_str point) #
     map (\<lambda>(n, count). ''  backfilled walflux.'' @ n @ '': '' @ int_text 10 count @ '' row(s)'') counts"

definition snapshot_backfill :: "command server \<Rightarrow> config \<Rightarrow> (command, string list) talk" where
  "snapshot_backfill sv cfg =
     andthen (pure (quote_ident (slot cfg))) (\<lambda>q.
     andthen (perform sv (CreateSlot (slot cfg) (''CREATE_REPLICATION_SLOT '' @ q @ '' LOGICAL pgoutput EXPORT_SNAPSHOT''))) (\<lambda>r.
       (case fetch_one r of
          None \<Rightarrow> throw (SetupError ''CREATE_REPLICATION_SLOT returned no result row'')
        | Some rw \<Rightarrow>
            andthen (pure (row_cell 1 rw)) (\<lambda>point.
            andthen (pure (row_cell 2 rw)) (\<lambda>snapshot.
            andthen (perform sv BeginSnapshot) (\<lambda>_.
            andthen (perform sv (SetSnapshot snapshot)) (\<lambda>_.
            andthen (each (backfill_view sv) (views cfg)) (\<lambda>counts.
            andthen (pure (lsn_of point)) (\<lambda>k.
            andthen (perform sv (SaveRow (slot cfg) k)) (\<lambda>_.
            andthen (perform sv CommitSetup) (\<lambda>_. say (setup_report cfg point counts))))))))))))"

section \<open>Setup\<close>

definition exn_text :: "exn \<Rightarrow> string" where
  "exn_text e =
     (case e of
        WalfluxError (CannotConnect s) \<Rightarrow> ''cannot connect to database: '' @ s
      | ConfigError s \<Rightarrow> s
      | SetupError s \<Rightarrow> s
      | _ \<Rightarrow> [])"

definition connect_replication :: "command server \<Rightarrow> (command, unit) talk" where
  "connect_replication sv =
     catch (connect_with sv ConnectRepl) (\<lambda>e.
       if is_walflux_error e \<and> contains ''replication'' (lower (exn_text e))
       then throw (SetupError (one_line (exn_text e) @ ''; '' @ privilege_hint))
       else throw e)"

definition setup_body :: "command server \<Rightarrow> config \<Rightarrow> bool \<Rightarrow> (command, string list) talk" where
  "setup_body sv cfg force =
     andthen (check_server_version sv) (\<lambda>_.
     andthen (check_wal_level sv) (\<lambda>_.
     andthen (ensure_sources sv (views cfg)) (\<lambda>_.
     andthen (ensure_checkpoint_table sv) (\<lambda>_.
     andthen (ensure_publication sv cfg) (\<lambda>_.
     andthen (prepare_slot sv (slot cfg) force) (\<lambda>_.
     andthen (perform sv (DeleteCheckpoint (slot cfg))) (\<lambda>_.
     andthen (connect_replication sv) (\<lambda>_.
       eventually_do (snapshot_backfill sv cfg) (hang_up CloseRepl)))))))))"

definition privilege_error :: "exn \<Rightarrow> ('c, 'a) talk" where
  "privilege_error e =
     (case e of
        PgError (NoPrivilege text) \<Rightarrow> throw (SetupError (one_line text @ ''; '' @ privilege_hint))
      | _ \<Rightarrow> throw e)"

text \<open>
  \<open>finally\<close> closes the replication connection, where there is one, before the main one; here its
  close stands right after the part that uses it, with no command in between.
\<close>

definition setup_database :: "command server \<Rightarrow> config \<Rightarrow> bool \<Rightarrow> (command, string list) talk" where
  "setup_database sv cfg force =
     andthen (connect_with sv ConnectMain) (\<lambda>_.
       eventually_do (catch (setup_body sv cfg force) privilege_error) (hang_up CloseMain))"

section \<open>Teardown\<close>

text \<open>The attempts that are left; the last one lets the error through.\<close>

fun drop_slot_with_retry :: "command server \<Rightarrow> string \<Rightarrow> nat \<Rightarrow> (command, unit) talk" where
  "drop_slot_with_retry sv n 0 = say ()"
| "drop_slot_with_retry sv n (Suc left) =
     catch (andthen (perform sv (DropSlot n)) (\<lambda>_. say ()))
       (\<lambda>e. case e of
              PgError _ \<Rightarrow> if left = 0 then throw e
                           else andthen (hang_up (Sleep (3 / 10))) (\<lambda>_. drop_slot_with_retry sv n left)
            | _ \<Rightarrow> throw e)"

definition active_query :: "string \<Rightarrow> command" where
  "active_query n = Query ''SELECT active_pid FROM pg_replication_slots WHERE slot_name = %s'' [PStr n]"

definition teardown_slot :: "command server \<Rightarrow> string \<Rightarrow> pyval list \<Rightarrow> (command, unit) talk" where
  "teardown_slot sv n rw =
     andthen (pure (row_cell 0 rw)) (\<lambda>pid.
     andthen (if pid \<noteq> PNone then andthen (perform sv (TerminateBackend pid)) (\<lambda>_. say ()) else say ()) (\<lambda>_.
       drop_slot_with_retry sv n 10))"

definition teardown :: "command server \<Rightarrow> config \<Rightarrow> (command, unit) talk" where
  "teardown sv cfg =
     andthen (connect_with sv ConnectMain) (\<lambda>_.
       eventually_do
         (andthen (perform sv (active_query (slot cfg))) (\<lambda>r.
          andthen (case fetch_one r of None \<Rightarrow> say () | Some rw \<Rightarrow> teardown_slot sv (slot cfg) rw) (\<lambda>_.
          andthen (pure (quote_ident (publication cfg))) (\<lambda>q.
          andthen (perform sv (DropPublication (''DROP PUBLICATION IF EXISTS '' @ q))) (\<lambda>_.
          andthen (perform sv DropSchema) (\<lambda>_. say ()))))))
         (hang_up CloseMain))"

end
