(* ===== verification/Handshake.thy ===== *)
theory Handshake
  imports Bootstrap
begin

text \<open>
  What \<open>setup\<close> establishes and what a crash in the middle of it leaves.

  \<open>setup_step\<close> says what each command changes once it takes effect, with PostgreSQL's documented
  transactions and snapshots: outside a transaction a change is durable at once; inside, at the
  commit; a transaction that adopted the exported snapshot reads the rows at its position.  The
  exported snapshot is lost when the replication connection is used again or closed.
\<close>

section \<open>The state setup works on\<close>

datatype slot_state = NoSlot | SlotAt int | SlotUnknown

record setup_state =
  main_open :: bool
  repl_open :: bool
  slot_at :: slot_state
  exported :: "(pyval \<times> int) option"
  durable_db :: target_db
  txn :: "(target_db \<times> int option) option"

type_synonym source_rows = "string \<times> string \<Rightarrow> row list"

definition change_db :: "(target_db \<Rightarrow> target_db) \<Rightarrow> setup_state \<Rightarrow> setup_state" where
  "change_db f s =
     (case txn s of
        None \<Rightarrow> s\<lparr>durable_db := f (durable_db s)\<rparr>
      | Some (d, snap) \<Rightarrow> s\<lparr>txn := Some (f d, snap)\<rparr>)"

definition set_table :: "string \<Rightarrow> (table \<Rightarrow> table) \<Rightarrow> target_db \<Rightarrow> target_db" where
  "set_table n f d = d\<lparr>tables := (tables d)(n := f (tables d n))\<rparr>"

definition set_checkpoint :: "string \<Rightarrow> int option \<Rightarrow> target_db \<Rightarrow> target_db" where
  "set_checkpoint n k d = d\<lparr>checkpoints := (checkpoints d)(n := k)\<rparr>"

definition source_of :: "view_spec \<Rightarrow> string \<times> string" where
  "source_of v = (source_schema v, source_table v)"

text \<open>The result row of \<open>CREATE_REPLICATION_SLOT\<close>: the position and the snapshot's name.\<close>

definition slot_row :: "pyval list list \<Rightarrow> (pyval \<times> int) option" where
  "slot_row rows =
     (case rows of
        rw # _ \<Rightarrow> if 2 < length rw then (case lsn_of (rw ! 1) of Inl _ \<Rightarrow> None | Inr k \<Rightarrow> Some (rw ! 2, k)) else None
      | [] \<Rightarrow> None)"

fun obey :: "(int \<Rightarrow> source_rows) \<Rightarrow> source_rows \<Rightarrow> pyval list list \<Rightarrow> command \<Rightarrow> setup_state \<Rightarrow> setup_state" where
  "obey rows_at live rows ConnectMain s = s\<lparr>main_open := True\<rparr>"
| "obey rows_at live rows ConnectRepl s = s\<lparr>repl_open := True\<rparr>"
| "obey rows_at live rows (DropSlot n) s = s\<lparr>slot_at := NoSlot\<rparr>"
| "obey rows_at live rows (DeleteCheckpoint n) s = change_db (set_checkpoint n None) s"
| "obey rows_at live rows (CreateSlot n text) s =
     s\<lparr>slot_at := (case slot_row rows of None \<Rightarrow> SlotUnknown | Some (_, k) \<Rightarrow> SlotAt k), exported := slot_row rows\<rparr>"
| "obey rows_at live rows BeginSnapshot s = s\<lparr>txn := Some (durable_db s, None)\<rparr>"
| "obey rows_at live rows (SetSnapshot v) s =
     (case (txn s, exported s) of
        (Some (d, _), Some (name, k)) \<Rightarrow> if v = name then s\<lparr>txn := Some (d, Some k)\<rparr> else s
      | _ \<Rightarrow> s)"
| "obey rows_at live rows (TargetDdl i v text) s =
     (if i < 2 then change_db (set_table (view_name v) (\<lambda>_. [])) s else s)"
| "obey rows_at live rows (Backfill v text) s =
     (let src = (case txn s of Some (_, Some k) \<Rightarrow> rows_at k | _ \<Rightarrow> live)
      in change_db (set_table (view_name v) (backfill_table v (src (source_of v)))) s)"
| "obey rows_at live rows (SaveRow n k) s = change_db (set_checkpoint n (Some k)) s"
| "obey rows_at live rows CommitSetup s =
     (case txn s of None \<Rightarrow> s | Some (d, _) \<Rightarrow> s\<lparr>durable_db := d, txn := None\<rparr>)"
| "obey rows_at live rows DropSchema s = change_db (\<lambda>d. d\<lparr>tables := \<lambda>_. [], checkpoints := Map.empty\<rparr>) s"
| "obey rows_at live rows CloseRepl s = s\<lparr>repl_open := False, exported := None\<rparr>"
| "obey rows_at live rows CloseMain s = s\<lparr>main_open := False, txn := None\<rparr>"
| "obey rows_at live rows _ s = s"

text \<open>A connection whose confirmation is lost is not open; any other command may have taken effect.\<close>

definition setup_step :: "(int \<Rightarrow> source_rows) \<Rightarrow> source_rows \<Rightarrow> command \<times> reply \<Rightarrow> setup_state \<Rightarrow> setup_state" where
  "setup_step rows_at live cr s =
     (case snd cr of
        Rows rows n \<Rightarrow> obey rows_at live rows (fst cr) s
      | Lost e rows \<Rightarrow> if fst cr \<in> {ConnectMain, ConnectRepl} then s else obey rows_at live rows (fst cr) s
      | _ \<Rightarrow> s)"

section \<open>What must hold at every moment\<close>

definition stored :: "config \<Rightarrow> setup_state \<Rightarrow> int option" where
  "stored cfg s = checkpoints (durable_db s) (slot cfg)"

definition filled :: "(int \<Rightarrow> source_rows) \<Rightarrow> int \<Rightarrow> view_spec list \<Rightarrow> target_db \<Rightarrow> bool" where
  "filled rows_at k vs d \<longleftrightarrow> (\<forall>v \<in> set vs. tables d (view_name v) = backfill_table v (rows_at k (source_of v)) [])"

text \<open>The slot streams from the position of the checkpoint, and the tables hold the views there.\<close>

definition established :: "(int \<Rightarrow> source_rows) \<Rightarrow> config \<Rightarrow> setup_state \<Rightarrow> bool" where
  "established rows_at cfg s \<longleftrightarrow>
     (\<exists>k. slot_at s = SlotAt k \<and> stored cfg s = Some k \<and> filled rows_at k (views cfg) (durable_db s))"

text \<open>Before the commit: never a new slot beside an old checkpoint, and the old tables untouched.\<close>

definition unfinished :: "config \<Rightarrow> setup_state \<Rightarrow> setup_state \<Rightarrow> bool" where
  "unfinished cfg s0 s \<longleftrightarrow>
     tables (durable_db s) = tables (durable_db s0) \<and>
     (slot_at s = slot_at s0 \<and> stored cfg s = stored cfg s0 \<or> slot_at s = NoSlot \<or> stored cfg s = None)"

definition crash_safe :: "(int \<Rightarrow> source_rows) \<Rightarrow> config \<Rightarrow> setup_state \<Rightarrow> setup_state \<Rightarrow> bool" where
  "crash_safe rows_at cfg s0 s \<longleftrightarrow> unfinished cfg s0 s \<or> established rows_at cfg s"

section \<open>The phases\<close>

lemma keeps_inert:
  assumes "\<And>rows s. obey rows_at live rows c s = s"
  shows "keeps (setup_step rows_at live) P (perform sv c)"
  by (rule keeps_perform) (simp add: setup_step_def assms split: reply.split)

lemmas inert_commands [keeps_rules] =
  keeps_inert [where c = "Query t p" for t p, simplified] keeps_inert [where c = "SetReplicaFull t" for t, simplified]
  keeps_inert [where c = "CreateCheckpoint t" for t, simplified] keeps_inert [where c = "EditPublication t" for t, simplified]

lemma checks_keep:
  "keeps (setup_step rows_at live) P (check_server_version sv)"
  "keeps (setup_step rows_at live) P (check_wal_level sv)"
  "keeps (setup_step rows_at live) P (ensure_sources sv vs)"
  "keeps (setup_step rows_at live) P (ensure_checkpoint_table sv)"
  "keeps (setup_step rows_at live) P (ensure_publication sv cfg)"
  "keeps (setup_step rows_at live) P (source_columns sv v)"
  unfolding check_server_version_def check_wal_level_def ensure_sources_def ensure_source_def ensure_checkpoint_table_def
    ensure_publication_def source_columns_def Let_def
  by (auto intro!: keeps_rules split: prod.split)

definition conns :: "bool \<Rightarrow> bool \<Rightarrow> setup_state \<Rightarrow> bool" where
  "conns m r s \<longleftrightarrow> main_open s = m \<and> repl_open s = r"

definition untouched :: "config \<Rightarrow> setup_state \<Rightarrow> setup_state \<Rightarrow> bool" where
  "untouched cfg s0 s \<longleftrightarrow>
     tables (durable_db s) = tables (durable_db s0) \<and> stored cfg s = stored cfg s0 \<and>
     (slot_at s = slot_at s0 \<or> slot_at s = NoSlot) \<and> txn s = None"

definition cleared :: "config \<Rightarrow> setup_state \<Rightarrow> setup_state \<Rightarrow> bool" where
  "cleared cfg s0 s \<longleftrightarrow> tables (durable_db s) = tables (durable_db s0) \<and> stored cfg s = None"

lemma phases_safe:
  "untouched cfg s0 s \<Longrightarrow> crash_safe rows_at cfg s0 s"
  "cleared cfg s0 s \<Longrightarrow> crash_safe rows_at cfg s0 s"
  "established rows_at cfg s \<Longrightarrow> crash_safe rows_at cfg s0 s"
  by (auto simp: crash_safe_def unfinished_def untouched_def cleared_def)

lemmas step_simps = setup_step_def change_db_def set_table_def set_checkpoint_def stored_def conns_def

lemma prepare_keeps:
  "keeps (setup_step rows_at live) (\<lambda>s. untouched cfg s0 s \<and> conns True False s) (prepare_slot sv n force)"
proof -
  have "keeps (setup_step rows_at live) (\<lambda>s. untouched cfg s0 s \<and> conns True False s) (perform sv (DropSlot n))"
    by (rule keeps_perform) (auto simp: step_simps untouched_def split: reply.split)
  then show ?thesis
    unfolding prepare_slot_def slot_query_def by (intro keeps_rules)
qed

lemma delete_clears:
  "triple (setup_step rows_at live) (crash_safe rows_at cfg s0) (\<lambda>s. untouched cfg s0 s \<and> conns True False s)
     (perform sv (DeleteCheckpoint (slot cfg)))
     (\<lambda>_ s. cleared cfg s0 s \<and> txn s = None \<and> conns True False s)
     (\<lambda>s. crash_safe rows_at cfg s0 s \<and> conns True False s)"
proof (rule triple_perform, goal_cases)
  case (1 h s rows n)
  then have "cleared cfg s0 (setup_step rows_at live (DeleteCheckpoint (slot cfg), Rows rows n) s)"
    by (simp add: step_simps untouched_def cleared_def)
  with 1 show ?case by (simp add: phases_safe) (simp add: step_simps untouched_def)
next
  case (2 h s r e)
  then show ?case
    by (cases r) (auto simp: step_simps untouched_def cleared_def crash_safe_def unfinished_def)
qed

lemma connect_keeps:
  "triple (setup_step rows_at live) (crash_safe rows_at cfg s0) (\<lambda>s. cleared cfg s0 s \<and> txn s = None \<and> conns True False s)
     (connect_replication sv)
     (\<lambda>_ s. cleared cfg s0 s \<and> txn s = None \<and> conns True True s)
     (\<lambda>s. crash_safe rows_at cfg s0 s \<and> conns True False s)"
  unfolding connect_replication_def
proof (rule triple_catch [where F = "\<lambda>s. crash_safe rows_at cfg s0 s \<and> conns True False s"], rule triple_connect_with)
  fix s h rows and n :: int
  assume "cleared cfg s0 s \<and> txn s = None \<and> conns True False s"
  then have "cleared cfg s0 (setup_step rows_at live (ConnectRepl, Rows rows n) s)"
    by (simp add: step_simps cleared_def)
  then show "crash_safe rows_at cfg s0 (setup_step rows_at live (ConnectRepl, Rows rows n) s) \<and>
      cleared cfg s0 (setup_step rows_at live (ConnectRepl, Rows rows n) s) \<and>
      txn (setup_step rows_at live (ConnectRepl, Rows rows n) s) = None \<and>
      conns True True (setup_step rows_at live (ConnectRepl, Rows rows n) s)"
    using \<open>cleared cfg s0 s \<and> txn s = None \<and> conns True False s\<close> by (simp add: phases_safe) (simp add: step_simps)
next
  fix s h r e
  assume "cleared cfg s0 s \<and> txn s = None \<and> conns True False s" "error_of r = Inl e"
  then show "crash_safe rows_at cfg s0 (setup_step rows_at live (ConnectRepl, r) s) \<and>
      (crash_safe rows_at cfg s0 (setup_step rows_at live (ConnectRepl, r) s) \<and>
       conns True False (setup_step rows_at live (ConnectRepl, r) s))"
    by (cases r) (auto simp: setup_step_def phases_safe)
qed (auto intro: triple_throw)

section \<open>Inside the snapshot\<close>

text \<open>The transaction is pinned to the position of the slot, and has filled the tables of \<open>ys\<close>.\<close>

definition filling :: "(int \<Rightarrow> source_rows) \<Rightarrow> config \<Rightarrow> setup_state \<Rightarrow> pyval \<Rightarrow> view_spec list \<Rightarrow> setup_state \<Rightarrow> bool" where
  "filling rows_at cfg s0 point ys s \<longleftrightarrow>
     cleared cfg s0 s \<and> conns True True s \<and>
     (\<exists>d snap. txn s = Some (d, snap) \<and>
        (\<forall>k. lsn_of point = Inr k \<longrightarrow> slot_at s = SlotAt k \<and> snap = Some k \<and> filled rows_at k ys d))"

lemma filling_safe: "filling rows_at cfg s0 point ys s \<Longrightarrow> crash_safe rows_at cfg s0 s \<and> conns True True s"
  by (simp add: filling_def phases_safe)

lemma filling_change:
  assumes "filling rows_at cfg s0 point ys s"
    and "\<And>k d. filled rows_at k ys d \<Longrightarrow> filled rows_at k zs (f d)"
  shows "filling rows_at cfg s0 point zs (change_db f s)"
  using assms by (fastforce simp: filling_def change_db_def cleared_def stored_def conns_def)

lemma ddl_fills:
  assumes "view_name v \<notin> view_name ` set ys"
  shows "filling rows_at cfg s0 point ys s \<Longrightarrow> filling rows_at cfg s0 point ys (setup_step rows_at live (TargetDdl i v text, r) s)"
proof -
  have other: "filled rows_at k ys d \<Longrightarrow> filled rows_at k ys (set_table (view_name v) f d)" for k d f
    using assms by (auto simp: filled_def set_table_def image_iff)
  show "filling rows_at cfg s0 point ys s \<Longrightarrow> filling rows_at cfg s0 point ys (setup_step rows_at live (TargetDdl i v text, r) s)"
    by (auto simp: setup_step_def intro!: filling_change [OF _ other] split: reply.split)
qed

lemma target_ddl_three: "target_ddl v types = Inr ddl \<Longrightarrow> length ddl = 3"
  by (auto simp: target_ddl_def Let_def bindE_eq_Inr)

definition emptied :: "view_spec \<Rightarrow> setup_state \<Rightarrow> bool" where
  "emptied v s \<longleftrightarrow> (\<forall>d snap. txn s = Some (d, snap) \<longrightarrow> tables d (view_name v) = [])"

lemma ddl_empties:
  assumes "txn s \<noteq> None"
  shows "emptied v s \<or> i = 0 \<Longrightarrow> emptied v (setup_step rows_at live (TargetDdl i v text, Rows rows n) s)"
  using assms by (auto simp: setup_step_def emptied_def change_db_def set_table_def split: option.split)

lemma run_ddl:
  assumes new: "view_name v \<notin> view_name ` set ys" and len: "length ddl = 3"
  shows "triple (setup_step rows_at live) (crash_safe rows_at cfg s0) (filling rows_at cfg s0 point ys)
    (each (\<lambda>(i, text). perform sv (TargetDdl i v text)) (enumerate 0 ddl))
    (\<lambda>_ s. filling rows_at cfg s0 point ys s \<and> emptied v s)
    (\<lambda>s. crash_safe rows_at cfg s0 s \<and> conns True True s)"
proof -
  let ?I = "\<lambda>(zs :: (nat \<times> string) list) s. filling rows_at cfg s0 point ys s \<and> (zs \<noteq> [] \<longrightarrow> emptied v s)"
  have "triple (setup_step rows_at live) (crash_safe rows_at cfg s0) (?I [])
    (each (\<lambda>(i, text). perform sv (TargetDdl i v text)) (enumerate 0 ddl)) (\<lambda>_. ?I (enumerate 0 ddl))
    (\<lambda>s. crash_safe rows_at cfg s0 s \<and> conns True True s)"
  proof (rule triple_each_prefix [where I = ?I])
    fix zs x us assume x: "enumerate 0 ddl = zs @ x # us"
    obtain i tx where it: "x = (i, tx)" by (cases x)
    have first: "i = 0" if "zs = []" using x it that by (cases ddl) auto
    show "triple (setup_step rows_at live) (crash_safe rows_at cfg s0) (?I zs)
      (case x of (i, text) \<Rightarrow> perform sv (TargetDdl i v text)) (\<lambda>_. ?I (zs @ [x]))
      (\<lambda>s. crash_safe rows_at cfg s0 s \<and> conns True True s)"
      unfolding it prod.case
    proof (rule triple_perform)
      fix s h rows and n :: int assume s: "?I zs s"
      then have "txn s \<noteq> None" by (auto simp: filling_def)
      then have "emptied v (setup_step rows_at live (TargetDdl i v tx, Rows rows n) s)"
        using s first by (intro ddl_empties) auto
      with s show "crash_safe rows_at cfg s0 (setup_step rows_at live (TargetDdl i v tx, Rows rows n) s) \<and>
          ?I (zs @ [(i, tx)]) (setup_step rows_at live (TargetDdl i v tx, Rows rows n) s)"
        using ddl_fills [OF new] filling_safe by blast
    next
      fix s h r e assume "?I zs s"
      then show "crash_safe rows_at cfg s0 (setup_step rows_at live (TargetDdl i v tx, r) s) \<and>
          (crash_safe rows_at cfg s0 (setup_step rows_at live (TargetDdl i v tx, r) s) \<and>
           conns True True (setup_step rows_at live (TargetDdl i v tx, r) s))"
        using ddl_fills [OF new] filling_safe by blast
    qed
  qed
  moreover have "enumerate 0 ddl \<noteq> []" using len by (cases ddl) auto
  ultimately show ?thesis by simp
qed

lemma backfill_fills:
  assumes "view_name v \<notin> view_name ` set ys" "filling rows_at cfg s0 point ys s" "emptied v s"
  shows "filling rows_at cfg s0 point (ys @ [v]) (setup_step rows_at live (Backfill v sql, Rows rows n) s)"
    and "crash_safe rows_at cfg s0 (setup_step rows_at live (Backfill v sql, r) s) \<and>
         conns True True (setup_step rows_at live (Backfill v sql, r) s)"
proof -
  have fills: "filling rows_at cfg s0 point (ys @ [v]) (obey rows_at live rows (Backfill v sql) s)" for rows
  proof -
    obtain d snap where d: "txn s = Some (d, snap)"
        "\<forall>k. lsn_of point = Inr k \<longrightarrow> slot_at s = SlotAt k \<and> snap = Some k \<and> filled rows_at k ys d"
      using assms(2) by (auto simp: filling_def)
    let ?src = "case snap of Some k \<Rightarrow> rows_at k | None \<Rightarrow> live"
    have step: "obey rows_at live rows (Backfill v sql) s =
        s\<lparr>txn := Some (set_table (view_name v) (backfill_table v (?src (source_of v))) d, snap)\<rparr>"
      using d(1) by (simp add: change_db_def split: option.split)
    have "filled rows_at k (ys @ [v]) (set_table (view_name v) (backfill_table v (?src (source_of v))) d)"
      if "lsn_of point = Inr k" for k
      using d that assms(1,3) by (auto simp: filled_def set_table_def emptied_def image_iff)
    then show ?thesis
      using assms(2) d unfolding step filling_def by (auto simp: cleared_def stored_def conns_def)
  qed
  then show "filling rows_at cfg s0 point (ys @ [v]) (setup_step rows_at live (Backfill v sql, Rows rows n) s)"
    by (simp add: setup_step_def)
  show "crash_safe rows_at cfg s0 (setup_step rows_at live (Backfill v sql, r) s) \<and>
         conns True True (setup_step rows_at live (Backfill v sql, r) s)"
    using filling_safe [OF fills] filling_safe [OF assms(2)]
    by (cases r) (simp_all add: setup_step_def del: obey.simps)
qed

abbreviation (input) fills ::
    "(int \<Rightarrow> source_rows) \<Rightarrow> source_rows \<Rightarrow> config \<Rightarrow> setup_state \<Rightarrow> pyval \<Rightarrow> view_spec list \<Rightarrow> view_spec \<Rightarrow>
     (setup_state \<Rightarrow> bool) \<Rightarrow> (command, string \<times> int) talk \<Rightarrow> bool" where
  "fills rows_at live cfg s0 point ys v P m \<equiv>
     triple (setup_step rows_at live) (crash_safe rows_at cfg s0) P m (\<lambda>_. filling rows_at cfg s0 point (ys @ [v]))
       (\<lambda>s. crash_safe rows_at cfg s0 s \<and> conns True True s)"

lemma fill_emptied:
  assumes "view_name v \<notin> view_name ` set ys"
  shows "fills rows_at live cfg s0 point ys v (\<lambda>s. filling rows_at cfg s0 point ys s \<and> emptied v s)
    (andthen (pure (backfill_sql v)) (\<lambda>sql. andthen (perform sv (Backfill v sql)) (\<lambda>r. say (view_name v, snd r))))"
proof (rule triple_andthen [where R = "\<lambda>_ s. filling rows_at cfg s0 point ys s \<and> emptied v s"])
  show "fills rows_at live cfg s0 point ys v (\<lambda>s. filling rows_at cfg s0 point ys s \<and> emptied v s)
      (andthen (perform sv (Backfill v sql)) (\<lambda>r. say (view_name v, snd r)))" for sql
  proof (rule triple_andthen [where R = "\<lambda>_. filling rows_at cfg s0 point (ys @ [v])"], rule triple_perform)
    show "fills rows_at live cfg s0 point ys v (filling rows_at cfg s0 point (ys @ [v])) (say (view_name v, snd r))"
      for r :: "pyval list list \<times> int"
      by (simp add: triple_say)
  qed (use backfill_fills [OF assms] in \<open>auto simp del: obey.simps\<close>)
qed (rule triple_pure, use filling_safe in auto)

lemma fill_from_ddl:
  assumes "view_name v \<notin> view_name ` set ys"
  shows "fills rows_at live cfg s0 point ys v (filling rows_at cfg s0 point ys)
      (andthen (pure (bindE (group_types v columns) (target_ddl v))) (\<lambda>ddl.
       andthen (each (\<lambda>(i, text). perform sv (TargetDdl i v text)) (enumerate 0 ddl)) (\<lambda>_.
       andthen (pure (backfill_sql v)) (\<lambda>sql.
       andthen (perform sv (Backfill v sql)) (\<lambda>r. say (view_name v, snd r))))))"
proof (rule triple_andthen [where R = "\<lambda>ddl s. length ddl = 3 \<and> filling rows_at cfg s0 point ys s"])
  fix ddl
  show "fills rows_at live cfg s0 point ys v (\<lambda>s. length ddl = 3 \<and> filling rows_at cfg s0 point ys s)
      (andthen (each (\<lambda>(i, text). perform sv (TargetDdl i v text)) (enumerate 0 ddl)) (\<lambda>_.
       andthen (pure (backfill_sql v)) (\<lambda>sql.
       andthen (perform sv (Backfill v sql)) (\<lambda>r. say (view_name v, snd r)))))"
  proof (cases "length ddl = 3")
    case True
    show ?thesis
      by (rule triple_andthen [where R = "\<lambda>_ s. filling rows_at cfg s0 point ys s \<and> emptied v s"],
          rule triple_conseq [OF run_ddl [OF assms True]]) (auto intro: fill_emptied [OF assms])
  qed (simp add: triple_def)
qed (rule triple_pure, use filling_safe in \<open>auto simp: bindE_eq_Inr target_ddl_three\<close>)

lemma backfill_view_fills:
  assumes "view_name v \<notin> view_name ` set ys"
  shows "fills rows_at live cfg s0 point ys v (filling rows_at cfg s0 point ys) (backfill_view sv v)"
  unfolding backfill_view_def
proof (rule triple_andthen)
  show "triple (setup_step rows_at live) (crash_safe rows_at cfg s0) (filling rows_at cfg s0 point ys)
      (source_columns sv v) (\<lambda>_. filling rows_at cfg s0 point ys) (\<lambda>s. crash_safe rows_at cfg s0 s \<and> conns True True s)"
    by (rule triple_conseq [OF keeps_triple [OF checks_keep(6) [where P = "filling rows_at cfg s0 point ys"]]]) (use filling_safe in blast)+
next
  fix columns
  show "fills rows_at live cfg s0 point ys v (filling rows_at cfg s0 point ys)
      (if lacking v columns \<noteq> [] then throw (SetupError (''source table '' @ source_schema v @ ''.'' @ source_table v @ '' is missing column(s) '' @
              py_join '', '' (lacking v columns) @ '' needed by view '' @ py_repr (view_name v)))
       else andthen (pure (bindE (group_types v columns) (target_ddl v))) (\<lambda>ddl.
         andthen (each (\<lambda>(i, text). perform sv (TargetDdl i v text)) (enumerate 0 ddl)) (\<lambda>_.
         andthen (pure (backfill_sql v)) (\<lambda>sql.
         andthen (perform sv (Backfill v sql)) (\<lambda>r. say (view_name v, snd r))))))"
    using filling_safe fill_from_ddl [OF assms] by (auto intro!: triple_throw)
qed

section \<open>The replication connection\<close>

definition ready :: "config \<Rightarrow> setup_state \<Rightarrow> pyval \<Rightarrow> pyval \<Rightarrow> setup_state \<Rightarrow> bool" where
  "ready cfg s0 point snapshot s \<longleftrightarrow>
     cleared cfg s0 s \<and> conns True True s \<and>
     (\<forall>k. lsn_of point = Inr k \<longrightarrow> slot_at s = SlotAt k \<and> exported s = Some (snapshot, k))"

definition saved :: "(int \<Rightarrow> source_rows) \<Rightarrow> config \<Rightarrow> setup_state \<Rightarrow> setup_state \<Rightarrow> bool" where
  "saved rows_at cfg s0 s \<longleftrightarrow>
     cleared cfg s0 s \<and> conns True True s \<and>
     (\<exists>k d snap. txn s = Some (d, snap) \<and> slot_at s = SlotAt k \<and> checkpoints d (slot cfg) = Some k \<and>
        filled rows_at k (views cfg) d)"

text \<open>The assertions at each command, and that they are all safe to crash in.\<close>

definition failed :: "(int \<Rightarrow> source_rows) \<Rightarrow> config \<Rightarrow> setup_state \<Rightarrow> bool \<Rightarrow> setup_state \<Rightarrow> bool" where
  "failed rows_at cfg s0 r s \<longleftrightarrow> crash_safe rows_at cfg s0 s \<and> conns True r s"

lemma failed_fun: "(\<lambda>s. crash_safe rows_at cfg s0 s \<and> conns True r s) = failed rows_at cfg s0 r"
  by (simp add: failed_def fun_eq_iff)

lemma asserted_safe:
  "cleared cfg s0 s \<Longrightarrow> conns True r s \<Longrightarrow> failed rows_at cfg s0 r s"
  "ready cfg s0 point snapshot s \<Longrightarrow> failed rows_at cfg s0 True s"
  "saved rows_at cfg s0 s \<Longrightarrow> failed rows_at cfg s0 True s"
  "filling rows_at cfg s0 point ys s \<Longrightarrow> failed rows_at cfg s0 True s"
  "established rows_at cfg s \<Longrightarrow> conns True r s \<Longrightarrow> failed rows_at cfg s0 r s"
  by (auto simp: failed_def ready_def saved_def filling_def phases_safe)

lemma failed_cases:
  assumes "P s \<Longrightarrow> \<forall>rows. failed rows_at cfg s0 True (obey rows_at live rows c s)" "P s" "failed rows_at cfg s0 True s"
  shows "failed rows_at cfg s0 True (setup_step rows_at live (c, r) s)"
  using assms by (cases r) (auto simp: setup_step_def simp del: obey.simps)

text \<open>A command that leads from \<open>P\<close> to \<open>Q\<close>, whatever it returns.\<close>

lemma triple_command:
  assumes "\<And>rows s. P s \<Longrightarrow> Q rows (obey rows_at live rows c s)"
    and "\<And>s. P s \<Longrightarrow> failed rows_at cfg s0 True s" "\<And>rows s. Q rows s \<Longrightarrow> failed rows_at cfg s0 True s"
    and "c \<noteq> ConnectMain" "c \<noteq> ConnectRepl"
  shows "triple (setup_step rows_at live) (crash_safe rows_at cfg s0) P (perform sv c)
    (\<lambda>r. Q (fst r)) (failed rows_at cfg s0 True)"
proof (rule triple_perform)
  fix s h rows and n :: int assume "P s"
  then show "crash_safe rows_at cfg s0 (setup_step rows_at live (c, Rows rows n) s) \<and>
      Q (fst (rows, n)) (setup_step rows_at live (c, Rows rows n) s)"
    using assms(1) [of s rows] assms(3) by (auto simp: setup_step_def failed_def simp del: obey.simps)
next
  fix s h r e assume "P s"
  then have "failed rows_at cfg s0 True (setup_step rows_at live (c, r) s)"
    by (intro failed_cases [where P = P]) (use assms(1-3) in \<open>blast+\<close>)
  then show "crash_safe rows_at cfg s0 (setup_step rows_at live (c, r) s) \<and> failed rows_at cfg s0 True (setup_step rows_at live (c, r) s)"
    by (simp add: failed_def)
qed

lemma create_slot_ready:
  "triple (setup_step rows_at live) (crash_safe rows_at cfg s0) (\<lambda>s. cleared cfg s0 s \<and> txn s = None \<and> conns True True s)
     (perform sv (CreateSlot n text))
     (\<lambda>r s. txn s = None \<and> cleared cfg s0 s \<and> conns True True s \<and>
        (\<forall>rw rws. fst r = rw # rws \<longrightarrow> 2 < length rw \<longrightarrow> ready cfg s0 (rw ! 1) (rw ! 2) s))
     (failed rows_at cfg s0 True)"
  by (rule triple_command)
     (auto simp: ready_def cleared_def conns_def stored_def slot_row_def asserted_safe split: sum.splits list.splits)

lemma begin_ready:
  "triple (setup_step rows_at live) (crash_safe rows_at cfg s0) (\<lambda>s. ready cfg s0 point snapshot s)
     (perform sv BeginSnapshot) (\<lambda>_ s. ready cfg s0 point snapshot s \<and> txn s \<noteq> None) (failed rows_at cfg s0 True)"
  by (rule triple_command) (auto intro: asserted_safe simp: ready_def cleared_def conns_def stored_def)

lemma set_snapshot_filling:
  "triple (setup_step rows_at live) (crash_safe rows_at cfg s0) (\<lambda>s. ready cfg s0 point snapshot s \<and> txn s \<noteq> None)
     (perform sv (SetSnapshot snapshot)) (\<lambda>_. filling rows_at cfg s0 point []) (failed rows_at cfg s0 True)"
proof (rule triple_command)
  fix rows s assume s: "ready cfg s0 point snapshot s \<and> txn s \<noteq> None"
  then obtain d sn where "txn s = Some (d, sn)" by auto
  then show "filling rows_at cfg s0 point [] (obey rows_at live rows (SetSnapshot snapshot) s)"
    using s by (auto simp: filling_def ready_def cleared_def conns_def stored_def filled_def split: option.splits)
qed (auto intro: asserted_safe)

lemma save_row_saved:
  assumes "lsn_of point = Inr k"
  shows "triple (setup_step rows_at live) (crash_safe rows_at cfg s0) (filling rows_at cfg s0 point (views cfg))
     (perform sv (SaveRow (slot cfg) k)) (\<lambda>_. saved rows_at cfg s0) (failed rows_at cfg s0 True)"
  by (rule triple_command)
     (use assms in \<open>auto intro: asserted_safe simp: filling_def saved_def cleared_def conns_def stored_def filled_def
        change_db_def set_checkpoint_def\<close>)

lemma commit_establishes:
  "triple (setup_step rows_at live) (crash_safe rows_at cfg s0) (saved rows_at cfg s0)
     (perform sv CommitSetup) (\<lambda>_ s. established rows_at cfg s \<and> txn s = None \<and> conns True True s) (failed rows_at cfg s0 True)"
  by (rule triple_command)
     (auto intro: asserted_safe simp: saved_def established_def stored_def conns_def)

lemma views_filled:
  assumes "distinct (map view_name (views cfg))"
  shows "triple (setup_step rows_at live) (crash_safe rows_at cfg s0) (filling rows_at cfg s0 point [])
    (each (backfill_view sv) (views cfg)) (\<lambda>_. filling rows_at cfg s0 point (views cfg)) (failed rows_at cfg s0 True)"
proof (rule triple_each_prefix)
  fix ys v zs assume "views cfg = ys @ v # zs"
  then have "view_name v \<notin> view_name ` set ys" using assms by auto
  note fills = backfill_view_fills [OF this]
  have f: "failed rows_at cfg s0 True = (\<lambda>s. crash_safe rows_at cfg s0 s \<and> conns True True s)"
    by (simp add: failed_def fun_eq_iff)
  show "triple (setup_step rows_at live) (crash_safe rows_at cfg s0) (filling rows_at cfg s0 point ys) (backfill_view sv v)
      (\<lambda>_. filling rows_at cfg s0 point (ys @ [v])) (failed rows_at cfg s0 True)"
    unfolding f by (rule fills)
qed

text \<open>What setup does under the exported snapshot.\<close>

abbreviation (input) under_snapshot :: "command server \<Rightarrow> config \<Rightarrow> pyval \<Rightarrow> pyval \<Rightarrow> (command, string list) talk" where
  "under_snapshot sv cfg point snapshot \<equiv>
     andthen (perform sv BeginSnapshot) (\<lambda>_.
     andthen (perform sv (SetSnapshot snapshot)) (\<lambda>_.
     andthen (each (backfill_view sv) (views cfg)) (\<lambda>counts.
     andthen (pure (lsn_of point)) (\<lambda>k.
     andthen (perform sv (SaveRow (slot cfg) k)) (\<lambda>_.
     andthen (perform sv CommitSetup) (\<lambda>_. say (setup_report cfg point counts)))))))"

abbreviation (input) backfills ::
    "(int \<Rightarrow> source_rows) \<Rightarrow> source_rows \<Rightarrow> config \<Rightarrow> setup_state \<Rightarrow> (setup_state \<Rightarrow> bool) \<Rightarrow>
     (command, string list) talk \<Rightarrow> bool" where
  "backfills rows_at live cfg s0 P m \<equiv>
     triple (setup_step rows_at live) (crash_safe rows_at cfg s0) P m
       (\<lambda>_ s. established rows_at cfg s \<and> txn s = None \<and> conns True True s) (failed rows_at cfg s0 True)"

lemma saves_establish:
  assumes "lsn_of point = Inr k"
  shows "backfills rows_at live cfg s0 (filling rows_at cfg s0 point (views cfg))
    (andthen (perform sv (SaveRow (slot cfg) k)) (\<lambda>_. andthen (perform sv CommitSetup) (\<lambda>_. say report)))"
  by (rule triple_andthen [OF save_row_saved [OF assms]], rule triple_andthen [OF commit_establishes], rule triple_say) simp

lemma under_snapshot_establishes:
  assumes "distinct (map view_name (views cfg))"
  shows "backfills rows_at live cfg s0 (\<lambda>s. ready cfg s0 point snapshot s) (under_snapshot sv cfg point snapshot)"
proof (rule triple_andthen [OF begin_ready], rule triple_andthen [OF set_snapshot_filling],
    rule triple_andthen [OF views_filled [OF assms]])
  fix counts
  show "backfills rows_at live cfg s0 (filling rows_at cfg s0 point (views cfg))
      (andthen (pure (lsn_of point)) (\<lambda>k. andthen (perform sv (SaveRow (slot cfg) k)) (\<lambda>_.
       andthen (perform sv CommitSetup) (\<lambda>_. say (setup_report cfg point counts)))))"
  proof (rule triple_andthen [where R = "\<lambda>k s. lsn_of point = Inr k \<and> filling rows_at cfg s0 point (views cfg) s"])
    fix k
    show "backfills rows_at live cfg s0 (\<lambda>s. lsn_of point = Inr k \<and> filling rows_at cfg s0 point (views cfg) s)
        (andthen (perform sv (SaveRow (slot cfg) k)) (\<lambda>_. andthen (perform sv CommitSetup) (\<lambda>_. say (setup_report cfg point counts))))"
    proof (cases "lsn_of point = Inr k")
      case True
      show ?thesis by (rule triple_conseq [OF saves_establish [OF True]]) auto
    qed (simp add: triple_def)
  qed (rule triple_pure, auto intro: asserted_safe)
qed

lemma slot_row_establishes:
  assumes "distinct (map view_name (views cfg))"
  shows "backfills rows_at live cfg s0
    (\<lambda>s. txn s = None \<and> cleared cfg s0 s \<and> conns True True s \<and> (2 < length rw \<longrightarrow> ready cfg s0 (rw ! 1) (rw ! 2) s))
    (andthen (pure (row_cell 1 rw)) (\<lambda>point. andthen (pure (row_cell 2 rw)) (\<lambda>snapshot. under_snapshot sv cfg point snapshot)))"
proof (rule triple_andthen [where R = "\<lambda>point s. cleared cfg s0 s \<and> conns True True s \<and> point = rw ! 1 \<and>
      (2 < length rw \<longrightarrow> ready cfg s0 (rw ! 1) (rw ! 2) s)"])
  fix point
  show "backfills rows_at live cfg s0
     (\<lambda>s. cleared cfg s0 s \<and> conns True True s \<and> point = rw ! 1 \<and> (2 < length rw \<longrightarrow> ready cfg s0 (rw ! 1) (rw ! 2) s))
     (andthen (pure (row_cell 2 rw)) (\<lambda>snapshot. under_snapshot sv cfg point snapshot))"
    by (rule triple_andthen [where R = "\<lambda>snapshot s. ready cfg s0 point snapshot s"], rule triple_pure)
       (auto simp: row_cell_def intro: asserted_safe under_snapshot_establishes [OF assms] split: if_splits)
qed (rule triple_pure, auto simp: row_cell_def intro: asserted_safe split: if_splits)

lemma snapshot_backfill_establishes:
  assumes "distinct (map view_name (views cfg))"
  shows "backfills rows_at live cfg s0 (\<lambda>s. cleared cfg s0 s \<and> txn s = None \<and> conns True True s) (snapshot_backfill sv cfg)"
  unfolding snapshot_backfill_def
proof (rule triple_andthen [where R = "\<lambda>_ s. cleared cfg s0 s \<and> txn s = None \<and> conns True True s"],
    rule triple_pure, simp, simp add: asserted_safe, rule triple_andthen [OF create_slot_ready])
  fix r :: "pyval list list \<times> int"
  show "backfills rows_at live cfg s0
    (\<lambda>s. txn s = None \<and> cleared cfg s0 s \<and> conns True True s \<and>
      (\<forall>rw rws. fst r = rw # rws \<longrightarrow> 2 < length rw \<longrightarrow> ready cfg s0 (rw ! 1) (rw ! 2) s))
    (case fetch_one r of
        None \<Rightarrow> throw (SetupError ''CREATE_REPLICATION_SLOT returned no result row'')
      | Some rw \<Rightarrow> andthen (pure (row_cell 1 rw)) (\<lambda>point. andthen (pure (row_cell 2 rw)) (\<lambda>snapshot. under_snapshot sv cfg point snapshot)))"
  proof (cases "fst r")
    case Nil
    then show ?thesis by (auto simp: fetch_one_def intro!: triple_throw asserted_safe(1))
  next
    case (Cons rw rws)
    show ?thesis
      unfolding fetch_one_def Cons list.case option.case
      by (rule triple_conseq [OF slot_row_establishes [where rw = rw, OF assms]]) auto
  qed
qed

section \<open>All of setup\<close>

definition at_rest :: "setup_state \<Rightarrow> bool" where
  "at_rest s \<longleftrightarrow> \<not> main_open s \<and> \<not> repl_open s \<and> txn s = None"

lemma hang_up_repl:
  "triple (setup_step rows_at live) (crash_safe rows_at cfg s0) (\<lambda>s. established rows_at cfg s \<and> txn s = None \<and> conns True True s)
     (hang_up CloseRepl) (\<lambda>_ s. established rows_at cfg s \<and> conns True False s) (failed rows_at cfg s0 False)"
  "triple (setup_step rows_at live) (crash_safe rows_at cfg s0) (failed rows_at cfg s0 True)
     (hang_up CloseRepl) (\<lambda>_. failed rows_at cfg s0 False) (failed rows_at cfg s0 False)"
  unfolding hang_up_def
  by (rule triple_hang_up;
      auto simp: setup_step_def established_def stored_def conns_def crash_safe_def unfinished_def failed_def)+

lemma hang_up_main:
  "triple (setup_step rows_at live) (crash_safe rows_at cfg s0) (\<lambda>s. established rows_at cfg s \<and> conns True False s)
     (hang_up CloseMain) (\<lambda>_ s. established rows_at cfg s \<and> at_rest s) (\<lambda>s. crash_safe rows_at cfg s0 s \<and> at_rest s)"
  "triple (setup_step rows_at live) (crash_safe rows_at cfg s0) (failed rows_at cfg s0 False)
     (hang_up CloseMain) (\<lambda>_ s. crash_safe rows_at cfg s0 s \<and> at_rest s) (\<lambda>s. crash_safe rows_at cfg s0 s \<and> at_rest s)"
  unfolding hang_up_def
  by (rule triple_hang_up;
      auto simp: setup_step_def established_def stored_def conns_def crash_safe_def unfinished_def failed_def at_rest_def)+

lemma untouched_keep:
  assumes "keeps (setup_step rows_at live) (\<lambda>s. untouched cfg s0 s \<and> conns True False s) m"
  shows "triple (setup_step rows_at live) (crash_safe rows_at cfg s0) (\<lambda>s. untouched cfg s0 s \<and> conns True False s)
    m (\<lambda>_ s. untouched cfg s0 s \<and> conns True False s) (failed rows_at cfg s0 False)"
  by (rule triple_conseq [OF keeps_triple [OF assms]]) (auto simp: failed_def phases_safe)

lemma setup_body_establishes:
  assumes "distinct (map view_name (views cfg))"
  shows "triple (setup_step rows_at live) (crash_safe rows_at cfg s0) (\<lambda>s. untouched cfg s0 s \<and> conns True False s)
    (setup_body sv cfg force) (\<lambda>_ s. established rows_at cfg s \<and> conns True False s) (failed rows_at cfg s0 False)"
  unfolding setup_body_def
  by (rule triple_andthen [OF untouched_keep [OF checks_keep(1)]], rule triple_andthen [OF untouched_keep [OF checks_keep(2)]],
      rule triple_andthen [OF untouched_keep [OF checks_keep(3)]], rule triple_andthen [OF untouched_keep [OF checks_keep(4)]],
      rule triple_andthen [OF untouched_keep [OF checks_keep(5)]], rule triple_andthen [OF untouched_keep [OF prepare_keeps]],
      rule triple_andthen [OF delete_clears [unfolded failed_fun]], rule triple_andthen [OF connect_keeps [unfolded failed_fun]],
      rule triple_eventually [OF snapshot_backfill_establishes [OF assms] hang_up_repl])

lemma setup_establishes:
  assumes "distinct (map view_name (views cfg))"
  shows "triple (setup_step rows_at live) (crash_safe rows_at cfg s0) (\<lambda>s. untouched cfg s0 s \<and> at_rest s)
    (setup_database sv cfg force) (\<lambda>_ s. established rows_at cfg s \<and> at_rest s) (\<lambda>s. crash_safe rows_at cfg s0 s \<and> at_rest s)"
  unfolding setup_database_def
proof (rule triple_andthen [where R = "\<lambda>_ s. untouched cfg s0 s \<and> conns True False s"], rule triple_connect_with)
  fix s h rows and n :: int assume s: "untouched cfg s0 s \<and> at_rest s"
  then have "untouched cfg s0 (setup_step rows_at live (ConnectMain, Rows rows n) s)"
    by (simp add: setup_step_def untouched_def stored_def)
  with s show "crash_safe rows_at cfg s0 (setup_step rows_at live (ConnectMain, Rows rows n) s) \<and>
      untouched cfg s0 (setup_step rows_at live (ConnectMain, Rows rows n) s) \<and>
      conns True False (setup_step rows_at live (ConnectMain, Rows rows n) s)"
    by (simp add: phases_safe) (simp add: setup_step_def conns_def at_rest_def)
next
  fix s h r e assume "untouched cfg s0 s \<and> at_rest s" "error_of r = Inl e"
  then show "crash_safe rows_at cfg s0 (setup_step rows_at live (ConnectMain, r) s) \<and>
      (crash_safe rows_at cfg s0 (setup_step rows_at live (ConnectMain, r) s) \<and> at_rest (setup_step rows_at live (ConnectMain, r) s))"
    by (cases r) (auto simp: setup_step_def phases_safe)
next
  fix u :: unit
  have "triple (setup_step rows_at live) (crash_safe rows_at cfg s0) (failed rows_at cfg s0 False) (privilege_error e)
      (\<lambda>_ s. established rows_at cfg s \<and> conns True False s) (failed rows_at cfg s0 False)" for e
    by (auto simp: privilege_error_def intro: triple_throw split: exn.split db_error.split)
  then show "triple (setup_step rows_at live) (crash_safe rows_at cfg s0) (\<lambda>s. untouched cfg s0 s \<and> conns True False s)
      (eventually_do (catch (setup_body sv cfg force) privilege_error) (hang_up CloseMain))
      (\<lambda>_ s. established rows_at cfg s \<and> at_rest s) (\<lambda>s. crash_safe rows_at cfg s0 s \<and> at_rest s)"
    by (intro triple_eventually [OF triple_catch [OF setup_body_establishes [OF assms]] hang_up_main])
qed

section \<open>What setup promises\<close>

text \<open>The state after the first \<open>n\<close> commands of a setup, as a crash there leaves it.\<close>

definition setup_cut ::
    "(int \<Rightarrow> source_rows) \<Rightarrow> source_rows \<Rightarrow> command server \<Rightarrow> config \<Rightarrow> bool \<Rightarrow> setup_state \<Rightarrow> nat \<Rightarrow> setup_state" where
  "setup_cut rows_at live sv cfg force s0 n =
     fold (setup_step rows_at live) (take n (snd (setup_database sv cfg force []))) s0"

definition setup_end ::
    "(int \<Rightarrow> source_rows) \<Rightarrow> source_rows \<Rightarrow> command server \<Rightarrow> config \<Rightarrow> bool \<Rightarrow> setup_state \<Rightarrow> setup_state" where
  "setup_end rows_at live sv cfg force s0 = fold (setup_step rows_at live) (snd (setup_database sv cfg force [])) s0"

lemma triple_run:
  assumes "triple eff J P m Q E" "P s" "J s"
  shows "J (fold eff (take n (snd (m []))) s)"
    and "case fst (m []) of Inl e \<Rightarrow> E (fold eff (snd (m [])) s) | Inr a \<Rightarrow> Q a (fold eff (snd (m [])) s)"
proof -
  obtain t where t: "snd (m []) = [] @ t" "\<forall>n. 0 < n \<longrightarrow> n \<le> length t \<longrightarrow> J (fold eff (take n t) s)"
      "case fst (m []) of Inl e \<Rightarrow> E (fold eff t s) | Inr a \<Rightarrow> Q a (fold eff t s)"
    using assms(1,2) unfolding triple_def meets_def by blast
  show "case fst (m []) of Inl e \<Rightarrow> E (fold eff (snd (m [])) s) | Inr a \<Rightarrow> Q a (fold eff (snd (m [])) s)"
    using t(1,3) by (auto split: sum.splits)
  have "J (fold eff (take (min n (length t)) t) s)"
    using t(2) assms(3) by (cases "min n (length t) = 0") auto
  moreover have "take (min n (length t)) t = take n t" by (simp add: min_def)
  ultimately show "J (fold eff (take n (snd (m []))) s)" using t(1) by simp
qed

lemma rest_untouched: "at_rest s \<Longrightarrow> untouched cfg s s"
  by (simp add: at_rest_def untouched_def)

text \<open>C4: Wherever a crash, a lost reply or an error cuts setup, the database is safe to start from: either the target tables are as before and there is no slot, no checkpoint row, or the slot and the checkpoint from before; or the new slot, the checkpoint at its position and the backfilled tables are all in place. A new slot never stands beside an old checkpoint.\<close>
theorem setup_crash_safe:
  assumes "at_rest s0" "distinct (map view_name (views cfg))"
  shows "crash_safe rows_at cfg s0 (setup_cut rows_at live sv cfg force s0 n)"
  unfolding setup_cut_def
  using triple_run(1) [OF setup_establishes [OF assms(2)], where s = s0] rest_untouched [OF assms(1)] assms(1)
  by (simp add: phases_safe)

lemma setup_ends:
  assumes "at_rest s0" "distinct (map view_name (views cfg))"
  shows "at_rest (setup_end rows_at live sv cfg force s0) \<and>
    (\<forall>out. fst (setup_database sv cfg force []) = Inr out \<longrightarrow> established rows_at cfg (setup_end rows_at live sv cfg force s0))"
  unfolding setup_end_def
  using triple_run(2) [OF setup_establishes [OF assms(2)], where s = s0] rest_untouched [OF assms(1)] assms(1)
  by (fastforce simp: phases_safe split: sum.splits)

text \<open>C10: Whatever setup meets, it leaves no connection and no transaction open; and when it returns without an exception, the slot streams from some position, the checkpoint is that position, and every target table holds its backfill over the source rows committed up to it, although the rows may change all the while.\<close>
theorem setup_outcome:
  assumes "at_rest s0" "distinct (map view_name (views cfg))"
  shows "at_rest (setup_end rows_at live sv cfg force s0) \<and>
    (\<forall>out. fst (setup_database sv cfg force []) = Inr out \<longrightarrow>
       (\<exists>k. slot_at (setup_end rows_at live sv cfg force s0) = SlotAt k \<and>
            checkpoints (durable_db (setup_end rows_at live sv cfg force s0)) (slot cfg) = Some k \<and>
            (\<forall>v \<in> set (views cfg). tables (durable_db (setup_end rows_at live sv cfg force s0)) (view_name v) =
               backfill_table v (rows_at k (source_of v)) [])))"
  using setup_ends [OF assms, of rows_at live sv force] by (simp add: established_def stored_def filled_def)

section \<open>Refusals\<close>

definition frozen :: "setup_state \<Rightarrow> setup_state \<Rightarrow> bool" where
  "frozen s0 s \<longleftrightarrow> durable_db s = durable_db s0 \<and> slot_at s = slot_at s0 \<and> txn s = None"

lemma prepare_refuses:
  assumes "\<forall>h. sv h (slot_query n) = Rows [[active, pid]] 1" "\<not> force \<or> py_truthy active"
  shows "triple (setup_step rows_at live) (frozen s0) (frozen s0) (prepare_slot sv n force) (\<lambda>_ _. False) (frozen s0)"
  unfolding prepare_slot_def
proof (rule triple_andthen [where R = "\<lambda>r s. frozen s0 s \<and> r = ([[active, pid]], 1)"], rule triple_perform)
  fix r :: "pyval list list \<times> int"
  show "triple (setup_step rows_at live) (frozen s0) (\<lambda>s. frozen s0 s \<and> r = ([[active, pid]], 1))
     (case fetch_one r of
          None \<Rightarrow> say ()
        | Some rw \<Rightarrow>
            if \<not> force
            then throw (SetupError (''replication slot '' @ py_repr n @ '' already exists; re-run with --force to drop and '' @
                   ''recreate it (this re-runs the backfill), or remove everything with `walflux teardown`''))
            else (case rw of
                    [active, pid] \<Rightarrow>
                      if py_truthy active
                      then throw (SetupError (''replication slot '' @ py_repr n @ '' is in use by pid '' @ py_str pid @
                             ''; stop the daemon before running setup --force''))
                      else andthen (perform sv (DropSlot n)) (\<lambda>_. say ())
                  | _ \<Rightarrow> throw ValueError)) (\<lambda>_ _. False) (frozen s0)"
  proof (cases "r = ([[active, pid]], 1)")
    case True
    then have "fetch_one r = Some [active, pid]" by (simp add: fetch_one_def)
    then show ?thesis using assms(2) by (auto intro!: triple_throw)
  qed (simp add: triple_def)
qed (use assms(1) in \<open>auto simp: setup_step_def frozen_def slot_query_def\<close>)

lemma setup_refused:
  assumes "\<forall>h. sv h (slot_query (slot cfg)) = Rows [[active, pid]] 1" "\<not> force \<or> py_truthy active"
  shows "triple (setup_step rows_at live) (frozen s0) (frozen s0) (setup_database sv cfg force) (\<lambda>_ _. False) (frozen s0)"
  unfolding setup_database_def
proof (rule triple_andthen [where R = "\<lambda>_. frozen s0"])
  show "triple (setup_step rows_at live) (frozen s0) (frozen s0) (connect_with sv ConnectMain) (\<lambda>_. frozen s0) (frozen s0)"
    by (rule keeps_connect_with [unfolded keeps_def]) (auto simp: setup_step_def frozen_def split: reply.split)
  note keep = checks_keep [where P = "frozen s0", unfolded keeps_def]
  have body: "triple (setup_step rows_at live) (frozen s0) (frozen s0) (setup_body sv cfg force) (\<lambda>_ _. False) (frozen s0)"
    unfolding setup_body_def
    by (rule triple_andthen [OF keep(1)], rule triple_andthen [OF keep(2)], rule triple_andthen [OF keep(3)],
        rule triple_andthen [OF keep(4)], rule triple_andthen [OF keep(5)],
        rule triple_andthen [OF prepare_refuses [where n = "slot cfg" and sv = sv and active = active and pid = pid, OF assms]])
       (simp add: triple_def)
  have "triple (setup_step rows_at live) (frozen s0) (frozen s0) (privilege_error e) (\<lambda>_ _. False) (frozen s0)" for e
    by (auto simp: privilege_error_def intro: triple_throw split: exn.split db_error.split)
  then have "triple (setup_step rows_at live) (frozen s0) (frozen s0) (catch (setup_body sv cfg force) privilege_error) (\<lambda>_ _. False) (frozen s0)"
    by (rule triple_catch [OF body])
  then show "triple (setup_step rows_at live) (frozen s0) (frozen s0)
      (eventually_do (catch (setup_body sv cfg force) privilege_error) (hang_up CloseMain)) (\<lambda>_ _. False) (frozen s0)"
    by (rule triple_eventually)
       (simp add: triple_def, unfold hang_up_def, rule triple_hang_up, simp add: setup_step_def frozen_def)
qed

text \<open>C11: If the slot already exists, setup without --force, and also with it while the slot is in use, ends with an exception and changes nothing: at every moment the slot, the checkpoints and the target tables are the ones from before.\<close>
theorem setup_refuses:
  assumes "at_rest s0" "\<forall>h. sv h (slot_query (slot cfg)) = Rows [[active, pid]] 1" "\<not> force \<or> py_truthy active"
  shows "isl (fst (setup_database sv cfg force [])) \<and>
    durable_db (setup_cut rows_at live sv cfg force s0 n) = durable_db s0 \<and>
    slot_at (setup_cut rows_at live sv cfg force s0 n) = slot_at s0"
proof -
  have s0: "frozen s0 s0" using assms(1) by (simp add: frozen_def at_rest_def)
  note refused = setup_refused [where sv = sv and cfg = cfg and active = active and pid = pid and rows_at = rows_at and
      live = live, OF assms(2,3)]
  have "frozen s0 (fold (setup_step rows_at live) (take n (snd (setup_database sv cfg force []))) s0)"
    by (rule triple_run(1) [OF refused s0 s0])
  moreover have "case fst (setup_database sv cfg force []) of
      Inl e \<Rightarrow> frozen s0 (fold (setup_step rows_at live) (snd (setup_database sv cfg force [])) s0) | Inr a \<Rightarrow> False"
    using triple_run(2) [OF refused s0 s0] by simp
  ultimately show ?thesis
    by (auto simp: setup_cut_def frozen_def isl_def split: sum.splits)
qed

section \<open>From setup to the daemon\<close>

text \<open>The world the first session finds: the server counts the slot's own position as confirmed.\<close>

definition world_after :: "int \<Rightarrow> setup_state \<Rightarrow> world" where
  "world_after k s = \<lparr>durable = durable_db s, working = durable_db s, confirmed = k\<rparr>"

lemma setup_consistent:
  assumes "at_rest s0" "distinct (map view_name (views cfg))" "new_batch (views cfg) = Inr b"
    and "fst (setup_database sv cfg force []) = Inr out"
    and "slot_at (setup_end rows_at live sv cfg force s0) = SlotAt k"
    and "\<forall>x \<in> set H. k < end_lsn x"
  shows "consistent cfg (\<lambda>v. mset (rows_at k (source_of v))) H k (world_after k (setup_end rows_at live sv cfg force s0))"
proof -
  let ?s = "setup_end rows_at live sv cfg force s0"
  have est: "stored cfg ?s = Some k" "filled rows_at k (views cfg) (durable_db ?s)"
    using setup_ends [OF assms(1,2), of rows_at live sv force] assms(4,5) by (auto simp: established_def)
  have H: "applied k H = []" using assms(6) by (auto simp: applied_def filter_empty_conv not_le)
  have storage: "\<exists>ss. view_storage v = Inr ss" if "v \<in> set (views cfg)" for v
  proof -
    obtain ps where ps: "mapE build_plan (views cfg) = Inr ps" using assms(3) by (auto simp: new_batch_def bindE_eq_Inr)
    from mapE_Inr [THEN iffD1, OF ps] that obtain p where "build_plan v = Inr p"
      by (auto simp: list_all2_conv_all_nth in_set_conv_nth)
    then show ?thesis by (auto simp: build_plan_def bindE_eq_Inr)
  qed
  have "table_holds v (tables (durable_db ?s) (view_name v)) (mset (rows_at k (source_of v)))" if v: "v \<in> set (views cfg)" for v
  proof -
    obtain ss where "view_storage v = Inr ss" using storage [OF v] by blast
    then have "table_holds v (backfill_table v (rows_at k (source_of v)) []) (mset (rows_at k (source_of v)))"
      by (rule backfill_holds)
    then show ?thesis using est(2) v by (simp add: filled_def)
  qed
  then show ?thesis
    using est(1) H by (simp add: consistent_def world_after_def stored_def source_at_def ops_of_def events_for_def source_run_def)
qed

text \<open>C3: From setup to any later moment: after a setup that returned, the daemon's sessions, however often they crash, keep every target table equal to its view over the source rows at the slot's position followed by exactly the transactions up to the durable checkpoint.\<close>
theorem setup_then_exactly_once:
  assumes "at_rest s0" "usable cfg" "new_batch (views cfg) = Inr b"
    and "fst (setup_database sv cfg force []) = Inr out"
    and "slot_at (setup_end rows_at live sv cfg force s0) = SlotAt k"
    and "history_ok cfg s (\<lambda>v. mset (rows_at k (source_of v))) H" "\<forall>x \<in> set H. k < end_lsn x"
    and "reachable cfg H (world_after k (setup_end rows_at live sv cfg force s0)) w"
  shows "\<exists>k' \<ge> k. consistent cfg (\<lambda>v. mset (rows_at k (source_of v))) H k' w"
proof -
  have "distinct (map view_name (views cfg))" using assms(2) by (simp add: usable_def)
  from exactly_once_run [OF assms(2,6) setup_consistent [OF assms(1) this assms(3,4,5,7)] assms(8)] show ?thesis .
qed

section \<open>Teardown\<close>

text \<open>The conversation of a number of attempts to drop the slot, with their replies.\<close>

fun attempts :: "string \<Rightarrow> reply list \<Rightarrow> command conversation" where
  "attempts n [] = []"
| "attempts n [r] = [(DropSlot n, r)]"
| "attempts n (r # s # rs) = (DropSlot n, r) # (Sleep (3 / 10), Rows [] 0) # attempts n (s # rs)"

lemma error_of_pg: "error_of r = Inl e \<Longrightarrow> \<exists>d. e = PgError d"
  by (cases r) auto

lemma drop_slot_attempts:
  "\<exists>rs. snd (drop_slot_with_retry sv n (Suc left) h) = h @ attempts n rs \<and> rs \<noteq> [] \<and> length rs \<le> Suc left \<and>
     list_all (\<lambda>r. isl (error_of r)) (butlast rs) \<and>
     (case fst (drop_slot_with_retry sv n (Suc left) h) of
        Inr _ \<Rightarrow> \<not> isl (error_of (last rs))
      | Inl e \<Rightarrow> length rs = Suc left \<and> error_of (last rs) = Inl e)"
proof (induction left arbitrary: h)
  case 0
  show ?case
    using error_of_pg [of "sv h (DropSlot n)"]
    by (intro exI [of _ "[sv h (DropSlot n)]"])
       (cases "error_of (sv h (DropSlot n))"; auto simp: catch_def andthen_def perform_def say_def throw_def)
next
  case (Suc left)
  let ?r = "sv h (DropSlot n)" and ?h = "h @ [(DropSlot n, sv h (DropSlot n)), (Sleep (3 / 10), Rows [] 0)]"
  show ?case
  proof (cases "error_of ?r")
    case (Inr a)
    then show ?thesis
      by (intro exI [of _ "[?r]"]) (auto simp: catch_def andthen_def perform_def say_def)
  next
    case (Inl e)
    then obtain d where e: "e = PgError d" using error_of_pg by blast
    have step: "drop_slot_with_retry sv n (Suc (Suc left)) h = drop_slot_with_retry sv n (Suc left) ?h"
      using Inl e by (subst drop_slot_with_retry.simps(2)) (simp add: catch_def andthen_def perform_def hang_up_def del: drop_slot_with_retry.simps)
    obtain rs where rs: "snd (drop_slot_with_retry sv n (Suc left) ?h) = ?h @ attempts n rs" "rs \<noteq> []" "length rs \<le> Suc left"
        "list_all (\<lambda>r. isl (error_of r)) (butlast rs)"
        "case fst (drop_slot_with_retry sv n (Suc left) ?h) of
           Inr _ \<Rightarrow> \<not> isl (error_of (last rs)) | Inl e \<Rightarrow> length rs = Suc left \<and> error_of (last rs) = Inl e"
      using Suc [of ?h] by blast
    have "attempts n (?r # rs) = (DropSlot n, ?r) # (Sleep (3 / 10), Rows [] 0) # attempts n rs"
      using rs(2) by (cases rs) simp_all
    then show ?thesis
      unfolding step using rs Inl
      by (intro exI [of _ "?r # rs"]) (auto split: sum.splits)
  qed
qed

text \<open>C30: teardown tries to drop the slot at most ten times, 0.3 seconds apart: it goes on only after a database error, stops at the first attempt that succeeds, and raises only the error of the tenth.\<close>
theorem drop_slot_ten_attempts:
  "\<exists>rs. snd (drop_slot_with_retry sv n 10 h) = h @ attempts n rs \<and> rs \<noteq> [] \<and> length rs \<le> 10 \<and>
     list_all (\<lambda>r. isl (error_of r)) (butlast rs) \<and>
     (case fst (drop_slot_with_retry sv n 10 h) of
        Inr _ \<Rightarrow> \<not> isl (error_of (last rs))
      | Inl e \<Rightarrow> length rs = 10 \<and> error_of (last rs) = Inl e)"
proof -
  have "Suc 9 = 10" by simp
  from drop_slot_attempts [of sv n 9 h, unfolded this] show ?thesis .
qed

text \<open>The state setup works on is also teardown's; the assertion holds once the slot is gone.\<close>

definition torn_down :: "setup_state \<Rightarrow> bool" where
  "torn_down s \<longleftrightarrow> slot_at s = NoSlot \<and> tables (durable_db s) = (\<lambda>_. []) \<and> checkpoints (durable_db s) = Map.empty"

definition slotless :: "setup_state \<Rightarrow> bool" where
  "slotless s \<longleftrightarrow> slot_at s = NoSlot \<and> txn s = None \<and> conns True False s"

definition anyhow :: "setup_state \<Rightarrow> bool" where
  "anyhow s \<longleftrightarrow> txn s = None \<and> conns True False s"

lemma anyhow_keeps:
  assumes "c \<in> {DropSlot n, TerminateBackend pid, DropPublication tx, DropSchema, Query tx ps}"
  shows "anyhow s \<Longrightarrow> anyhow (setup_step rows_at live (c, r) s)"
  using assms by (auto simp: setup_step_def anyhow_def conns_def change_db_def split: reply.split)

lemma one_drop:
  "triple (setup_step rows_at live) (\<lambda>_. True) anyhow (andthen (perform sv (DropSlot n)) (\<lambda>_. say ())) (\<lambda>_. slotless) anyhow"
proof (rule triple_andthen [where R = "\<lambda>_. slotless"], rule triple_perform)
  fix s h r e assume "anyhow s"
  then show "True \<and> anyhow (setup_step rows_at live (DropSlot n, r) s)" by (simp add: anyhow_keeps)
qed (auto intro: triple_say simp: setup_step_def slotless_def anyhow_def conns_def)

lemma drop_slot_gone:
  "triple (setup_step rows_at live) (\<lambda>_. True) anyhow (drop_slot_with_retry sv n (Suc left)) (\<lambda>_. slotless) anyhow"
proof (induction left)
  case 0
  show ?case
    by (simp, intro triple_catch [where F = anyhow] one_drop) (auto intro: triple_throw split: exn.split)
next
  case (Suc left)
  have "triple (setup_step rows_at live) (\<lambda>_. True) anyhow (hang_up (Sleep (3 / 10))) (\<lambda>_. anyhow) anyhow"
    unfolding hang_up_def by (rule triple_hang_up) (simp add: setup_step_def)
  then show ?case
    by (subst drop_slot_with_retry.simps(2), intro triple_catch [where F = anyhow] one_drop)
       (auto intro!: triple_throw triple_andthen Suc simp del: drop_slot_with_retry.simps split: exn.split)
qed

abbreviation (input) tears ::
    "(int \<Rightarrow> source_rows) \<Rightarrow> source_rows \<Rightarrow> (setup_state \<Rightarrow> bool) \<Rightarrow> (command, 'a) talk \<Rightarrow> ('a \<Rightarrow> setup_state \<Rightarrow> bool) \<Rightarrow> bool" where
  "tears rows_at live P m Q \<equiv> triple (setup_step rows_at live) (\<lambda>_. True) P m Q anyhow"

lemma terminate_keeps:
  "tears rows_at live anyhow (if pid \<noteq> PNone then andthen (perform sv (TerminateBackend pid)) (\<lambda>_. say ()) else say ()) (\<lambda>_. anyhow)"
proof -
  have "keeps (setup_step rows_at live) anyhow (if pid \<noteq> PNone then andthen (perform sv (TerminateBackend pid)) (\<lambda>_. say ()) else say ())"
    by (intro keeps_rules keeps_perform anyhow_keeps) auto
  then show ?thesis by (rule keeps_triple) simp
qed

lemma found_slot_gone:
  "tears rows_at live (\<lambda>s. anyhow s \<and> (fetch_one r = None \<longrightarrow> slotless s))
    (case fetch_one r of None \<Rightarrow> say () | Some rw \<Rightarrow> teardown_slot sv n rw) (\<lambda>_. slotless)"
proof (cases "fetch_one r")
  case None
  then show ?thesis by (auto intro: triple_say)
next
  case (Some rw)
  have ten: "tears rows_at live anyhow (drop_slot_with_retry sv n 10) (\<lambda>_. slotless)"
    using drop_slot_gone [of rows_at live sv n 9] by (simp del: drop_slot_with_retry.simps)
  have "tears rows_at live anyhow (teardown_slot sv n rw) (\<lambda>_. slotless)"
    unfolding teardown_slot_def
    by (rule triple_andthen [where R = "\<lambda>_. anyhow"], rule triple_pure, simp, simp, rule triple_andthen [OF terminate_keeps ten])
  then show ?thesis by (simp add: Some)
qed

text \<open>Everything between connecting and hanging up.\<close>

abbreviation (input) teardown_body :: "command server \<Rightarrow> config \<Rightarrow> (command, unit) talk" where
  "teardown_body sv cfg \<equiv>
     andthen (perform sv (active_query (slot cfg))) (\<lambda>r.
     andthen (case fetch_one r of None \<Rightarrow> say () | Some rw \<Rightarrow> teardown_slot sv (slot cfg) rw) (\<lambda>_.
     andthen (pure (quote_ident (publication cfg))) (\<lambda>q.
     andthen (perform sv (DropPublication (''DROP PUBLICATION IF EXISTS '' @ q))) (\<lambda>_.
     andthen (perform sv DropSchema) (\<lambda>_. say ())))))"

lemma teardown_body_clears:
  assumes "\<forall>h n. sv h (active_query (slot cfg)) = Rows [] n \<longrightarrow> slot_at s0 = NoSlot"
  shows "tears rows_at live (\<lambda>s. slot_at s = slot_at s0 \<and> anyhow s) (teardown_body sv cfg) (\<lambda>_ s. torn_down s \<and> anyhow s)"
proof -
  have query: "tears rows_at live (\<lambda>s. slot_at s = slot_at s0 \<and> anyhow s) (perform sv (active_query (slot cfg)))
      (\<lambda>r s. anyhow s \<and> (fetch_one r = None \<longrightarrow> slotless s))"
    by (rule triple_perform)
       (use assms in \<open>auto simp: setup_step_def fetch_one_def slotless_def anyhow_def active_query_def split: list.splits reply.splits\<close>)
  have pub: "tears rows_at live slotless (pure (quote_ident (publication cfg))) (\<lambda>_. slotless)"
    by (rule triple_pure) (auto simp: slotless_def anyhow_def)
  have droppub: "tears rows_at live slotless (perform sv (DropPublication t)) (\<lambda>_. slotless)" for t
    by (rule triple_perform) (auto simp: setup_step_def slotless_def anyhow_def conns_def split: reply.splits)
  have schema: "tears rows_at live slotless (perform sv DropSchema) (\<lambda>_ s. torn_down s \<and> anyhow s)"
    by (rule triple_perform)
       (auto simp: setup_step_def slotless_def anyhow_def conns_def torn_down_def change_db_def split: reply.splits)
  show ?thesis
    by (rule triple_andthen [OF query], rule triple_andthen [OF found_slot_gone], rule triple_andthen [OF pub],
        rule triple_andthen [OF droppub], rule triple_andthen [OF schema], rule triple_say)
qed

lemma teardown_clears:
  assumes "\<forall>h n. sv h (active_query (slot cfg)) = Rows [] n \<longrightarrow> slot_at s0 = NoSlot"
  shows "triple (setup_step rows_at live) (\<lambda>_. True) (\<lambda>s. slot_at s = slot_at s0 \<and> at_rest s)
    (teardown sv cfg) (\<lambda>_ s. torn_down s \<and> at_rest s) at_rest"
proof -
  have "triple (setup_step rows_at live) (\<lambda>_. True) (\<lambda>s. torn_down s \<and> anyhow s) (hang_up CloseMain) (\<lambda>_ s. torn_down s \<and> at_rest s) at_rest"
    "triple (setup_step rows_at live) (\<lambda>_. True) anyhow (hang_up CloseMain) (\<lambda>_. at_rest) at_rest"
    unfolding hang_up_def
    by (rule triple_hang_up; simp add: setup_step_def torn_down_def anyhow_def at_rest_def conns_def)+
  note closed = triple_eventually [OF teardown_body_clears [where sv = sv and cfg = cfg and rows_at = rows_at and live = live, OF assms] this]
  show ?thesis
    unfolding teardown_def
  proof (rule triple_andthen [where R = "\<lambda>_ s. slot_at s = slot_at s0 \<and> anyhow s"], rule triple_connect_with)
    fix s h r e assume "slot_at s = slot_at s0 \<and> at_rest s" "error_of r = Inl e"
    then show "True \<and> at_rest (setup_step rows_at live (ConnectMain, r) s)" by (cases r) (auto simp: setup_step_def)
  next
    show "triple (setup_step rows_at live) (\<lambda>_. True) (\<lambda>s. slot_at s = slot_at s0 \<and> anyhow s)
        (eventually_do (teardown_body sv cfg) (hang_up CloseMain)) (\<lambda>_ s. torn_down s \<and> at_rest s) at_rest"
      by (rule closed)
  qed (auto simp: setup_step_def anyhow_def conns_def at_rest_def)
qed


end
