(* ===== verification/SetupScenario.thy ===== *)
theory SetupScenario
  imports Scenario Handshake
begin

text \<open>
  Setup and teardown, evaluated against a server that answers every query, and the daemon's first
  sessions after it.
\<close>

definition demo_server :: "command server" where
  "demo_server h c =
     (case c of
        Query t ps \<Rightarrow>
          if t = ''SHOW server_version_num'' then Rows [[PStr ''160002'']] 1
          else if t = ''SHOW wal_level'' then Rows [[PStr ''logical'']] 1
          else if length ps = 1 then Rows [] 0
          else if take 8 t = ''SELECT c'' then Rows [[PStr ''d'']] 1
          else Rows [[PStr ''g'', PStr ''text''], [PStr ''x'', PStr ''numeric'']] 2
      | CreateSlot n t \<Rightarrow> Rows [[PStr n, PStr ''0/0'', PStr ''00000003-1'', PStr ''pgoutput'']] 1
      | _ \<Rightarrow> Rows [] 0)"

definition demo_state :: setup_state where
  "demo_state = \<lparr>main_open = False, repl_open = False, slot_at = NoSlot, exported = None,
     durable_db = \<lparr>tables = \<lambda>_. [], checkpoints = Map.empty\<rparr>, txn = None\<rparr>"

definition empty_rows :: "int \<Rightarrow> source_rows" where
  "empty_rows k = (\<lambda>_. [])"

lemma demo_at_rest: "at_rest demo_state"
  by (simp add: at_rest_def demo_state_def)

lemma demo_distinct: "distinct (map view_name (views demo_cfg))"
  by simp

lemma demo_setup: "\<not> isl (fst (setup_database demo_server demo_cfg False []))"
  by code_simp

lemma demo_setup_slot: "slot_at (setup_end empty_rows (\<lambda>_. []) demo_server demo_cfg False demo_state) = SlotAt 0"
  by code_simp

theorem setup_crash_safe_witness:
  "crash_safe empty_rows demo_cfg demo_state (setup_cut empty_rows (\<lambda>_. []) demo_server demo_cfg False demo_state 16)"
  by (rule setup_crash_safe [OF demo_at_rest demo_distinct])

theorem setup_outcome_witness:
  "\<exists>k. slot_at (setup_end empty_rows (\<lambda>_. []) demo_server demo_cfg False demo_state) = SlotAt k \<and>
     checkpoints (durable_db (setup_end empty_rows (\<lambda>_. []) demo_server demo_cfg False demo_state)) ''walflux'' = Some k"
proof -
  obtain out where "fst (setup_database demo_server demo_cfg False []) = Inr out"
    using demo_setup by (cases "fst (setup_database demo_server demo_cfg False [])") auto
  with setup_outcome [OF demo_at_rest demo_distinct, of empty_rows "\<lambda>_. []" demo_server False] show ?thesis by auto
qed

definition busy_server :: "command server" where
  "busy_server h c = (if c = slot_query ''walflux'' then Rows [[PBool True, PInt 4711]] 1 else demo_server h c)"

theorem setup_refuses_witness:
  "isl (fst (setup_database busy_server demo_cfg True [])) \<and>
   slot_at (setup_cut empty_rows (\<lambda>_. []) busy_server demo_cfg True demo_state 9) = NoSlot"
proof -
  have busy: "\<forall>h. busy_server h (slot_query (slot demo_cfg)) = Rows [[PBool True, PInt 4711]] 1" by (simp add: busy_server_def)
  have "\<not> True \<or> py_truthy (PBool True)" by simp
  from setup_refuses [where sv = busy_server and cfg = demo_cfg and active = "PBool True" and pid = "PInt 4711",
      OF demo_at_rest busy this, of empty_rows "\<lambda>_. []" 9]
  show ?thesis by (simp add: demo_state_def)
qed

theorem setup_then_exactly_once_witness:
  "\<exists>k \<ge> 0. consistent demo_cfg (\<lambda>v. mset (empty_rows 0 (source_of v))) demo_history k
     (session demo_cfg demo_ticks 3 (world_after 0 (setup_end empty_rows (\<lambda>_. []) demo_server demo_cfg False demo_state)))"
proof -
  obtain out where out: "fst (setup_database demo_server demo_cfg False []) = Inr out"
    using demo_setup by (cases "fst (setup_database demo_server demo_cfg False [])") auto
  have batch: "new_batch (views demo_cfg) = Inr demo_batch" using demo_batch by simp
  have history: "history_ok demo_cfg 2 (\<lambda>v. mset (empty_rows 0 (source_of v))) demo_history"
    using demo_history_ok by (simp add: empty_rows_def)
  have fresh: "\<forall>x \<in> set demo_history. 0 < end_lsn x" by (simp add: demo_history_def)
  show ?thesis
    by (rule setup_then_exactly_once [OF demo_at_rest demo_usable batch out demo_setup_slot history fresh])
       (intro reachable.intros demo_delivers)
qed


end
