(* ===== verification/Decoding.thy ===== *)
theory Decoding
  imports Wire
begin

text \<open>
  What \<open>decode_message\<close> does on an arbitrary buffer, well-formed or not: the exceptions it can
  raise, and the well-formedness of the messages it returns.
\<close>

section \<open>Which exceptions decoding raises\<close>

text \<open>
  \<open>raises E p\<close>: the reader operation \<open>p\<close> raises exceptions of \<open>E\<close> only.  Like \<open>reads\<close> it is closed
  under \<open>bindR\<close>, so the decoders follow their text.
\<close>

definition raises :: "exn set \<Rightarrow> 'a reading \<Rightarrow> bool" where
  "raises E p \<longleftrightarrow> (\<forall>r x. p r = Inl x \<longrightarrow> x \<in> E)"

definition protocol_errors :: "exn set" where
  "protocol_errors = range ProtocolError"

text \<open>The exceptions of a decoder: the last two need a negative text length.\<close>

definition decode_errors :: "exn set" where
  "decode_errors = protocol_errors \<union> {UnicodeDecodeError, OverflowError, IndexError, StructError}"

named_theorems raises_intros \<open>exceptions of each reader operation\<close>

lemma raises_ret [raises_intros]: "raises E (ret a)"
  by (simp add: raises_def ret_def)

lemma raises_bind [raises_intros]: "raises E p \<Longrightarrow> (\<And>a. raises E (f a)) \<Longrightarrow> raises E (bindR p f)"
  by (fastforce simp: raises_def bindR_def res_simps)

lemma raises_at [raises_intros]: "\<forall>x. ProtocolError x \<in> E \<Longrightarrow> raises E (raise_at f)"
  by (auto simp: raises_def raise_at_def)

lemma raises_take [raises_intros]: "\<forall>x. ProtocolError x \<in> E \<Longrightarrow> raises E (rd_take n)"
  by (auto simp: raises_def rd_take_def Let_def)

lemma raises_lift: "(\<And>x. m = Inl x \<Longrightarrow> x \<in> E) \<Longrightarrow> raises E (lift m)"
  by (auto simp: raises_def lift_def res_simps)

lemma raises_unpack [raises_intros]: "StructError \<in> E \<Longrightarrow> raises E (lift (unpack n conv c))"
  by (rule raises_lift) (auto simp: unpack_def split: if_splits)

lemma raises_index [raises_intros]:
  "IndexError \<in> E \<Longrightarrow> raises E (lift (case c of [] \<Rightarrow> Inl IndexError | b # _ \<Rightarrow> Inr b))"
  by (rule raises_lift) (auto split: list.splits)

lemma raises_utf8 [raises_intros]: "UnicodeDecodeError \<in> E \<Longrightarrow> raises E (lift (decode_utf8 c))"
  by (rule raises_lift) (auto simp: decode_utf8_def split: if_splits)

lemma raises_timestamp [raises_intros]: "OverflowError \<in> E \<Longrightarrow> raises E (lift (pg_timestamp t))"
  by (rule raises_lift) (auto simp: pg_timestamp_def split: if_splits)

lemma raises_many [raises_intros]: "raises E p \<Longrightarrow> raises E (rd_many n p)"
  by (induction n) (auto intro!: raises_intros)

lemma raises_expect [raises_intros]: "\<forall>x. ProtocolError x \<in> E \<Longrightarrow> raises E (expect_tag a b)"
  by (auto simp: expect_tag_def intro: raises_intros)

lemma raises_cstring [raises_intros]:
  "\<forall>x. ProtocolError x \<in> E \<Longrightarrow> UnicodeDecodeError \<in> E \<Longrightarrow> raises E rd_cstring"
  by (auto simp: raises_def rd_cstring_def decode_utf8_def protocol_errors_def Let_def res_simps
      split: if_splits)

lemma decode_errors_members [simp]:
  "UnicodeDecodeError \<in> decode_errors" "OverflowError \<in> decode_errors"
  "IndexError \<in> decode_errors" "StructError \<in> decode_errors" "ProtocolError x \<in> decode_errors"
  by (auto simp: decode_errors_def protocol_errors_def)

lemmas readers =
  rd_byte_def rd_tag_def rd_uint8_def rd_uint16_def rd_int32_def rd_uint32_def rd_uint64_def
  rd_timestamp_def

lemma raises_decoder: "decoders c = Some d \<Longrightarrow> raises decode_errors d"
  by (auto simp: decoders_def decode_begin_def decode_commit_def decode_origin_def decode_relation_def
      decode_type_def decode_insert_def decode_update_def decode_delete_def decode_truncate_def
      decode_column_def decode_tuple_data_def decode_column_value_def readers
      split: if_splits prod.splits intro!: raises_intros)


section \<open>What decoding returns\<close>

text \<open>
  \<open>yields P p\<close>: on a buffer below 2 GiB (the length of a PostgreSQL message is a signed 32-bit
  field) whatever \<open>p\<close> returns satisfies \<open>P\<close>, and \<open>p\<close> leaves the buffer alone.
\<close>

definition yields :: "('a \<Rightarrow> bool) \<Rightarrow> 'a reading \<Rightarrow> bool" where
  "yields P p \<longleftrightarrow>
     (\<forall>r a r'. 2 * int (length (r_buf r)) < 256 ^ 4 \<longrightarrow> p r = Inr (a, r') \<longrightarrow> P a \<and> r_buf r' = r_buf r)"

named_theorems yields_intros \<open>the values of each reader operation\<close>

lemma yieldsD:
  "yields P p \<Longrightarrow> 2 * int (length (r_buf r)) < 256 ^ 4 \<Longrightarrow> p r = Inr (a, r') \<Longrightarrow> P a \<and> r_buf r' = r_buf r"
  unfolding yields_def by blast

lemma yields_ret: "P a \<Longrightarrow> yields P (ret a)"
  by (simp add: yields_def ret_def)

lemma yields_bind:
  assumes p: "yields Q p" and f: "\<And>a. Q a \<Longrightarrow> yields P (f a)"
  shows "yields P (bindR p f)"
  unfolding yields_def
proof (intro allI impI)
  fix r b r'
  assume len: "2 * int (length (r_buf r)) < 256 ^ 4" and "bindR p f r = Inr (b, r')"
  then obtain a s where a: "p r = Inr (a, s)" and b: "f a s = Inr (b, r')"
    by (auto simp: bindR_def res_simps)
  have q: "Q a" "r_buf s = r_buf r" using yieldsD [OF p len a] by auto
  have "P b \<and> r_buf r' = r_buf s"
    by (rule yieldsD [OF f [OF q(1)] _ b]) (use len q(2) in simp)
  then show "P b \<and> r_buf r' = r_buf r" by (simp add: q(2))
qed

lemma yields_lift: "(\<And>a. m = Inr a \<Longrightarrow> P a) \<Longrightarrow> yields P (lift m)"
  by (auto simp: yields_def lift_def res_simps)

lemma yields_raise: "yields P (raise_at f)"
  by (simp add: yields_def raise_at_def)

lemma length_py_slice: "length (py_slice xs i j) \<le> length xs"
  by (auto simp: py_slice_def Let_def)

lemma yields_take: "yields (\<lambda>c. 2 * int (length c) < 256 ^ 4) (rd_take n)"
  unfolding yields_def rd_take_def using length_py_slice [where ?'a = "8 word"]
  by (auto simp: Let_def intro: le_less_trans split: if_splits)

lemma yields_any_take: "yields (\<lambda>c. True) (rd_take n)"
  by (auto simp: yields_def rd_take_def Let_def split: if_splits)

lemma be_uint_bounds: "0 \<le> be_uint bs \<and> be_uint bs < 256 ^ length bs"
proof (induction bs rule: rev_induct)
  case Nil
  then show ?case by (simp add: be_uint_def)
next
  case (snoc b bs)
  then show ?case using uint_byte_less [of b] by (auto simp: be_uint_snoc)
qed

lemma unpack_uint_fits: "unpack n be_uint c = Inr v \<Longrightarrow> fits_u n v"
  using be_uint_bounds [of c] by (auto simp: unpack_def fits_u_def split: if_splits)

lemma unpack_sint_fits: "unpack n be_sint c = Inr v \<Longrightarrow> fits_s n v"
  using be_uint_bounds [of c] by (auto simp: unpack_def fits_s_def be_sint_def Let_def split: if_splits)

lemma yields_byte: "yields (\<lambda>_. True) rd_byte"
  unfolding rd_byte_def by (intro yields_bind [OF yields_any_take] yields_lift) simp

lemma yields_tag [yields_intros]: "yields (\<lambda>_. True) rd_tag"
  unfolding rd_tag_def by (intro yields_bind [OF yields_byte] yields_ret) simp

lemma yields_uint8 [yields_intros]: "yields (fits_u 1) rd_uint8"
  unfolding rd_uint8_def
  by (intro yields_bind [OF yields_byte] yields_ret) (simp add: fits_u_def uint_byte_less)

lemma yields_ints [yields_intros]:
  "yields (fits_u 2) rd_uint16" "yields (fits_s 4) rd_int32" "yields (fits_u 4) rd_uint32"
  "yields (fits_u 8) rd_uint64"
  unfolding readers
  by (intro yields_bind [OF yields_any_take] yields_lift; simp add: unpack_uint_fits unpack_sint_fits)+

lemma yields_timestamp [yields_intros]: "yields wf_timestamp rd_timestamp"
  unfolding rd_timestamp_def
  by (intro yields_bind [OF yields_any_take] yields_bind [OF yields_lift [where P = "\<lambda>_. True"]] yields_lift)
     (auto simp: pg_timestamp_def wf_timestamp_def split: if_splits)

lemma decode_utf8_wf: "decode_utf8 c = Inr s \<Longrightarrow> wf_str s \<and> length s = length c \<and> s = map chr_of c"
  by (auto simp: decode_utf8_def wf_str_def str_bytes_def o_def split: if_splits)

lemma find_from_prefix: "find_from x i ys = j \<Longrightarrow> 0 \<le> i \<Longrightarrow> 0 \<le> j \<Longrightarrow> i \<le> j \<and> x \<notin> set (take (nat (j - i)) ys)"
proof (induction ys arbitrary: i)
  case (Cons y ys)
  show ?case
  proof (cases "y = x")
    case False
    then have "i + 1 \<le> j \<and> x \<notin> set (take (nat (j - (i + 1))) ys)" using Cons by auto
    moreover from this have "nat (j - i) = Suc (nat (j - (i + 1)))" by arith
    ultimately show ?thesis using False by simp
  qed (use Cons in auto)
qed auto

text \<open>Between the cursor and the terminator that \<open>find\<close> returns there is no other one.\<close>

lemma find_slice: "0 \<le> py_find xs x i \<Longrightarrow> x \<notin> set (py_slice xs i (py_find xs x i))"
proof -
  assume j: "0 \<le> py_find xs x i"
  define a where "a = (if i < 0 then max 0 (int (length xs) + i) else i)"
  have a: "0 \<le> a" by (simp add: a_def)
  have "a \<le> py_find xs x i \<and> x \<notin> set (take (nat (py_find xs x i - a)) (drop (nat a) xs))"
    using j find_from_prefix [of x a "drop (nat a) xs" "py_find xs x i"] a
    by (auto simp: py_find_def a_def Let_def)
  moreover have "slice_bound (int (length xs)) i = min a (int (length xs))"
    by (auto simp: slice_bound_def a_def)
  moreover have "slice_bound (int (length xs)) (py_find xs x i) \<le> py_find xs x i"
    using j by (simp add: slice_bound_def)
  moreover have "set (take (nat (slice_bound (int (length xs)) (py_find xs x i) - a)) (drop (nat a) xs))
      \<subseteq> set (take (nat (py_find xs x i - a)) (drop (nat a) xs))"
    using calculation(3) by (intro set_take_subset_set_take nat_mono) simp
  ultimately show ?thesis
    by (cases "a \<le> int (length xs)") (auto simp: py_slice_def Let_def)
qed

lemma yields_cstring [yields_intros]: "yields wf_cstr rd_cstring"
proof -
  have "CHR 0x00 \<notin> set (map chr_of c)" if "(0 :: 8 word) \<notin> set c" for c
  proof
    assume "CHR 0x00 \<in> set (map chr_of c)"
    then obtain b where "b \<in> set c" "chr_of b = CHR 0x00" by auto
    moreover from this(2) have "b = 0" by (metis byte_of_chr_of byte_of_eq_0)
    ultimately show False using that by simp
  qed
  then show ?thesis
    using find_slice [of _ "0 :: 8 word"]
    by (auto simp: yields_def rd_cstring_def Let_def res_simps wf_cstr_def dest!: decode_utf8_wf split: if_splits)
qed

lemma yields_many: "yields P p \<Longrightarrow> yields (\<lambda>xs. length xs = n \<and> list_all P xs) (rd_many n p)"
proof (induction n)
  case (Suc n)
  show ?case
    unfolding rd_many.simps
    by (intro yields_bind [OF Suc.prems] yields_bind [OF Suc.IH [OF Suc.prems]] yields_ret) simp
qed (simp add: yields_ret)

lemma yields_value: "yields wf_value decode_column_value"
  unfolding decode_column_value_def
  by (intro yields_bind [OF yields_tag] if_weak_cong)
     (auto intro!: yields_ret yields_raise yields_bind [OF yields_ints(2)] yields_bind [OF yields_take]
        yields_bind [OF yields_lift [where P = "\<lambda>s. wf_value (CText s)"]] dest!: decode_utf8_wf)

lemma yields_tuple [yields_intros]: "yields wf_tuple decode_tuple_data"
  unfolding decode_tuple_data_def
  using yields_many [OF yields_value]
  by (rule_tac yields_bind [OF yields_ints(1)]) (force simp: yields_def wf_tuple_def fits_u_def)

lemma yields_column: "yields wf_column decode_column"
  unfolding decode_column_def
  by (intro yields_bind [OF yields_uint8] yields_bind [OF yields_cstring] yields_bind [OF yields_ints(3)]
        yields_bind [OF yields_ints(2)] yields_ret) (simp add: wf_column_def)

lemma yields_expect [yields_intros]: "yields (\<lambda>_. True) (expect_tag a b)"
  by (auto simp: expect_tag_def intro: yields_ret yields_raise)

definition good_message :: "char \<Rightarrow> message \<Rightarrow> bool" where
  "good_message c m \<longleftrightarrow> wf_message m \<and> msg_kind m = c"

lemmas good_defs = good_message_def wf_message_def msg_kind_def

lemma yields_relation: "yields (good_message (CHR ''R'')) decode_relation"
proof -
  have cols: "yields (\<lambda>cs. length cs = nat n \<and> list_all wf_column cs) (rd_many (nat n) decode_column)" for n
    by (rule yields_many [OF yields_column])
  show ?thesis
    unfolding decode_relation_def
    by (intro yields_bind [OF yields_ints(3)] yields_bind [OF yields_cstring] yields_bind [OF yields_tag])
       (auto simp: good_defs fits_u_def intro!: yields_raise yields_bind [OF yields_ints(1)] yields_bind [OF cols] yields_ret)
qed

lemma yields_truncate: "yields (good_message (CHR ''T'')) decode_truncate"
proof -
  have ids: "yields (\<lambda>cs. length cs = nat n \<and> list_all (fits_u 4) cs) (rd_many (nat n) rd_uint32)" for n
    by (rule yields_many [OF yields_ints(3)])
  show ?thesis
    unfolding decode_truncate_def
    by (intro yields_bind [OF yields_ints(3)] yields_bind [OF yields_uint8] yields_bind [OF ids] yields_ret)
       (auto simp: good_defs fits_u_def)
qed

lemma yields_update: "yields (good_message (CHR ''U'')) decode_update"
proof -
  let ?P = "\<lambda>(old, key, tag :: char). pred_option wf_tuple old \<and> pred_option wf_tuple key \<and> (old = None \<or> key = None)"
  show ?thesis
    unfolding decode_update_def
    by (intro yields_bind [OF yields_ints(3)] yields_bind [OF yields_tag] yields_bind [where Q = ?P])
       (auto simp: good_defs intro!: yields_bind [OF yields_tuple] yields_bind [OF yields_tag] yields_bind [OF yields_expect] yields_ret)
qed

lemma yields_delete: "yields (good_message (CHR ''D'')) decode_delete"
  unfolding decode_delete_def
  by (intro yields_bind [OF yields_ints(3)] yields_bind [OF yields_tag])
     (auto simp: good_defs intro!: yields_bind [OF yields_tuple] yields_raise yields_ret)

lemma yields_flat:
  "yields (good_message (CHR ''B'')) decode_begin" "yields (good_message (CHR ''C'')) decode_commit"
  "yields (good_message (CHR ''O'')) decode_origin" "yields (good_message (CHR ''Y'')) decode_type"
  "yields (good_message (CHR ''I'')) decode_insert"
  unfolding decode_begin_def decode_commit_def decode_origin_def decode_type_def decode_insert_def
  by (intro yields_bind [OF yields_ints(3)] yields_bind [OF yields_ints(4)] yields_bind [OF yields_timestamp]
        yields_bind [OF yields_uint8] yields_bind [OF yields_cstring] yields_bind [OF yields_tag]
        yields_bind [OF yields_expect] yields_bind [OF yields_tuple] yields_ret; simp add: good_defs)+

lemma yields_decoder: "decoders c = Some d \<Longrightarrow> yields (good_message c) d"
  using yields_flat yields_relation yields_truncate yields_update yields_delete
  by (auto simp: decoders_def split: if_splits)

text \<open>C22: A message that decode_message returns is well-formed: its kind is the buffer's first byte and every field, count and string is within the range of its wire format.\<close>
theorem decode_message_wf:
  assumes "decode_message buf = Inr m" and "2 * int (length buf) < 256 ^ 4"
  shows "buf \<noteq> [] \<and> wf_message m \<and> msg_kind m = chr_of (hd buf)"
proof -
  obtain b bs where buf: "buf = b # bs"
    using assms(1) by (cases buf) (auto simp: decode_message_def)
  with assms(1) obtain d r where "decoders (chr_of b) = Some d"
      "d \<lparr>r_buf = buf, r_kind = chr_of b, r_pos = 1\<rparr> = Inr (m, r)"
    by (auto simp: decode_message_def res_simps split: option.splits)
  then have "good_message (chr_of b) m"
    using yieldsD [OF yields_decoder, of "chr_of b" d "\<lparr>r_buf = buf, r_kind = chr_of b, r_pos = 1\<rparr>" m r] assms(2)
    by simp
  then show ?thesis by (simp add: good_message_def buf)
qed

section \<open>Two corners of the format\<close>

text \<open>A text length of -1 is not refused: the value is read as the empty text and the cursor moves back by one byte.\<close>

lemma negative_length:
  "decode_message ([byte_of (CHR ''I''), 0, 0, 0, 9, byte_of (CHR ''N''), 0, 1, byte_of (CHR ''t''), 0xFF, 0xFF, 0xFF, 0xFF])
     = Inr (Insert 9 [CText []])"
  by code_simp

text \<open>Bytes that are not UTF-8 raise an exception that is not a \<open>WalfluxError\<close>.\<close>

lemma invalid_utf8:
  "decode_message ([byte_of (CHR ''O''), 0, 0, 0, 0, 0, 0, 0, 9, 0xC3, 0])
     = Inl UnicodeDecodeError \<and> \<not> is_walflux_error UnicodeDecodeError"
  by code_simp

theorem decode_message_wf_witness:
  "wf_message (Origin 5 ''ab'') \<and> msg_kind (Origin 5 ''ab'') = CHR ''O''"
proof -
  have d: "decode_message [0x4F, 0, 0, 0, 0, 0, 0, 0, 5, 0x61, 0x62, 0] = Inr (Origin 5 ''ab'')" by code_simp
  have "chr_of 0x4F = CHR ''O''" by code_simp
  with decode_message_wf [OF d] show ?thesis by simp
qed

end
