(* ===== verification/Verify.thy ===== *)
theory Verify
  imports Server Queries Config "HOL-Library.Product_Lexorder"
begin

text \<open>
  \<open>demo/verify.py\<close>: compare every target table with its \<open>GROUP BY\<close> query.

  A view is a \<open>view_spec\<close>: the verifier's own \<open>Agg\<close> and \<open>View\<close> have the same fields.  What the
  script prints is part of its conversation (\<open>Show\<close>); the clock readings are inputs.
\<close>

datatype probe =
    Attach
  | Inquire string "pyval list"
  | Show string
  | Pause rat
  | Repeatable
  | Undo
  | Detach

definition dash :: string where "dash = [CHR 0xE2, CHR 0x80, CHR 0x94]"

section \<open>Queries\<close>

definition agg_expr :: "agg_spec \<Rightarrow> string res" where
  "agg_expr a =
     (if agg_fn a = ''count'' \<and> agg_column a = None then Inr ''count(*)''
      else bindE (quote_ident (case agg_column a of None \<Rightarrow> [] | Some c \<Rightarrow> c)) (\<lambda>q. Inr (agg_fn a @ ''('' @ q @ '')'')))"

definition ground_truth_sql :: "view_spec \<Rightarrow> string res" where
  "ground_truth_sql view =
     bindE (mapE quote_ident (group_by view)) (\<lambda>gs.
     bindE (mapE agg_expr (aggregates view)) (\<lambda>es.
     bindE (quote_ident (source_schema view)) (\<lambda>s.
     bindE (quote_ident (source_table view)) (\<lambda>t.
     bindE (if group_by view \<noteq> [] then bindE (quoted_list (group_by view)) (\<lambda>g. Inr ('' GROUP BY '' @ g)) else Inr []) (\<lambda>g.
       Inr (''SELECT '' @ py_join '', '' (gs @ es) @ '' FROM '' @ s @ ''.'' @ t @ g))))))"

definition target_sql :: "view_spec \<Rightarrow> string res" where
  "target_sql view =
     bindE (quoted_list (group_by view @ map agg_alias (aggregates view))) (\<lambda>cols.
     bindE (quote_ident (view_name view)) (\<lambda>n.
       Inr (''SELECT '' @ cols @ '' FROM walflux.'' @ n)))"

type_synonym answer = "(pyval list, pyval list) dict"

definition keyed :: "nat \<Rightarrow> pyval list list \<Rightarrow> answer" where
  "keyed n rs = fold (\<lambda>r d. dict_set keys_eq (take n r) (drop n r) d) rs []"

definition rows_talk :: "probe server \<Rightarrow> string \<Rightarrow> nat \<Rightarrow> (probe, answer) talk" where
  "rows_talk sv sql n = andthen (perform sv (Inquire sql [])) (\<lambda>r. say (keyed n (fst r)))"

section \<open>Cells\<close>

text \<open>\<open>Decimal(value)\<close>; a float is converted exactly here, not through its text.\<close>

fun exact_decimal :: "pyval \<Rightarrow> decimal res" where
  "exact_decimal (PFloat (FFin m e)) = Inr (if 0 \<le> e then Fin (m * 2 ^ nat e) 0 else Fin (m * 5 ^ nat (- e)) e)"
| "exact_decimal (PFloat (FInf s)) = Inr (DInf s)"
| "exact_decimal (PFloat FNaN) = Inr (DNaN False)"
| "exact_decimal v = decimal_of v"

fun dec_neg :: "decimal \<Rightarrow> decimal" where
  "dec_neg (Fin c e) = Fin (- c) e"
| "dec_neg (DInf s) = DInf (\<not> s)"
| "dec_neg (DNaN sig) = DNaN sig"

fun dec_abs :: "decimal \<Rightarrow> decimal" where
  "dec_abs (Fin c e) = Fin \<bar>c\<bar> e"
| "dec_abs (DInf s) = DInf False"
| "dec_abs (DNaN sig) = DNaN sig"

text \<open>\<open>==\<close> and \<open><=\<close>; an order comparison of a NaN raises, an equality only of a signalling one.\<close>

fun dec_equal :: "decimal \<Rightarrow> decimal \<Rightarrow> bool res" where
  "dec_equal (DNaN sig) d = (if sig \<or> d = DNaN True then Inl InvalidOperation else Inr False)"
| "dec_equal d (DNaN sig) = (if sig then Inl InvalidOperation else Inr False)"
| "dec_equal (Fin c e) (Fin c' e') = Inr (dec_val (Fin c e) = dec_val (Fin c' e'))"
| "dec_equal d d' = Inr (d = d')"

fun dec_le :: "decimal \<Rightarrow> decimal \<Rightarrow> bool res" where
  "dec_le (Fin c e) (Fin c' e') = Inr (dec_val (Fin c e) \<le> dec_val (Fin c' e'))"
| "dec_le (DInf s) (DInf t) = Inr (s \<or> \<not> t)"
| "dec_le (DInf s) (Fin _ _) = Inr s"
| "dec_le (Fin _ _) (DInf t) = Inr (\<not> t)"
| "dec_le _ _ = Inl InvalidOperation"

definition avg_tolerance :: decimal where "avg_tolerance = Fin 1 (- 6)"

definition cells_match :: "string \<Rightarrow> pyval \<Rightarrow> pyval \<Rightarrow> bool res" where
  "cells_match fn expected actual =
     (if expected = PNone \<or> actual = PNone then Inr (expected = PNone \<and> actual = PNone)
      else bindE (exact_decimal expected) (\<lambda>x. bindE (exact_decimal actual) (\<lambda>y.
        if fn = ''avg'' then bindE (dec_add x (dec_neg y)) (\<lambda>d. dec_le (dec_abs d) avg_tolerance)
        else dec_equal x y)))"

definition fmt :: "pyval \<Rightarrow> string" where
  "fmt v = (if v = PNone then ''NULL'' else py_str v)"

definition null_safe_key :: "pyval list \<Rightarrow> (bool \<times> string) list" where
  "null_safe_key key = map (\<lambda>v. (v \<noteq> PNone, py_str v)) key"

definition group_label :: "view_spec \<Rightarrow> pyval list \<Rightarrow> string res" where
  "group_label view key =
     (if group_by view = [] then Inr ''(all rows)''
      else if length (group_by view) \<noteq> length key then Inl ValueError
      else Inr (py_join '', '' (map2 (\<lambda>g v. g @ ''='' @ fmt v) (group_by view) key)))"

section \<open>The printed table\<close>

definition column_widths :: "string list \<Rightarrow> string list list \<Rightarrow> nat list" where
  "column_widths headers rows = fold (\<lambda>row ws. map2 (\<lambda>w c. max w (py_len c)) ws row) rows (map py_len headers)"

definition table_line :: "nat list \<Rightarrow> string list \<Rightarrow> string" where
  "table_line ws cells = py_rstrip (py_join ''  '' (map2 (\<lambda>c w. py_ljust w c) cells ws))"

definition render_table :: "string list \<Rightarrow> string list list \<Rightarrow> string" where
  "render_table headers rows =
     (let ws = column_widths headers rows
      in py_join [newline] (table_line ws headers # table_line ws (map (\<lambda>w. replicate w (CHR ''-'')) ws) # map (table_line ws) rows))"

section \<open>One view\<close>

fun compare_aggs :: "string \<Rightarrow> agg_spec list \<Rightarrow> pyval list \<Rightarrow> pyval list \<Rightarrow> (string list list \<times> int) res" where
  "compare_aggs label [] [] [] = Inr ([], 0)"
| "compare_aggs label (a # as) (e # es) (x # xs) =
     bindE (cells_match (agg_fn a) e x) (\<lambda>ok.
     bindE (compare_aggs label as es xs) (\<lambda>(rows, n).
       Inr ([label, agg_alias a, fmt e, fmt x, if ok then ''ok'' else ''MISMATCH''] # rows, if ok then n else n + 1)))"
| "compare_aggs label _ _ _ = Inl ValueError"

definition compare_key :: "view_spec \<Rightarrow> answer \<Rightarrow> answer \<Rightarrow> pyval list \<Rightarrow> (string list list \<times> int) res" where
  "compare_key view expected actual key =
     bindE (group_label view key) (\<lambda>label.
       (case (dict_get keys_eq expected key, dict_get keys_eq actual key) of
          (_, None) \<Rightarrow> Inr ([[label, ''*'', ''group present'', ''group MISSING'', ''MISMATCH'']], 1)
        | (None, Some _) \<Rightarrow> Inr ([[label, ''*'', ''no such group'', ''extra group'', ''MISMATCH'']], 1)
        | (Some es, Some xs) \<Rightarrow> compare_aggs label (aggregates view) es xs))"

text \<open>\<open>sorted(set(expected) | set(actual))\<close>: where two keys have the same texts their order is the set's.\<close>

definition all_keys :: "answer \<Rightarrow> answer \<Rightarrow> pyval list list" where
  "all_keys expected actual =
     sort_key null_safe_key
       (map fst expected @ filter (\<lambda>k. dict_get keys_eq expected k = None) (map fst actual))"

definition compare_all :: "view_spec \<Rightarrow> answer \<Rightarrow> answer \<Rightarrow> (string list list \<times> int) res" where
  "compare_all view expected actual =
     bindE (mapE (compare_key view expected actual) (all_keys expected actual)) (\<lambda>ps.
       Inr (concat (map fst ps), sum_list (map snd ps)))"

definition dead_query :: "string \<Rightarrow> probe" where
  "dead_query q = Inquire (''SELECT count(*) FROM walflux.'' @ q @ '' WHERE __walflux_rows <= 0'') []"

definition dead_group_count :: "probe server \<Rightarrow> view_spec \<Rightarrow> (probe, int) talk" where
  "dead_group_count sv view =
     (if group_by view = [] then say 0
      else andthen (pure (quote_ident (view_name view))) (\<lambda>q.
           andthen (perform sv (dead_query q)) (\<lambda>r.
             pure (bindE (fetch_cell 0 r) as_int))))"

definition verify_view :: "probe server \<Rightarrow> view_spec \<Rightarrow> (probe, int) talk" where
  "verify_view sv view =
     andthen (pure (ground_truth_sql view)) (\<lambda>truth_text.
     andthen (rows_talk sv truth_text (length (group_by view))) (\<lambda>expected.
     andthen (pure (target_sql view)) (\<lambda>target_text.
     andthen (rows_talk sv target_text (length (group_by view))) (\<lambda>actual.
     andthen (pure (compare_all view expected actual)) (\<lambda>(rows, mismatches).
     andthen (local (Show ([newline] @ ''view '' @ view_name view @ ''  (walflux.'' @ view_name view @
       '' vs GROUP BY over '' @ source_schema view @ ''.'' @ source_table view @ '')''))) (\<lambda>_.
     andthen (local (Show (render_table [''group'', ''column'', ''ground truth'', ''walflux'', ''result''] rows))) (\<lambda>_.
     andthen (dead_group_count sv view) (\<lambda>dead.
       if dead \<noteq> 0
       then andthen (local (Show (''MISMATCH: '' @ int_text 10 dead @ '' group row(s) with __walflux_rows <= 0 were not cleaned up''))) (\<lambda>_.
              say (mismatches + dead))
       else say mismatches))))))))"

section \<open>Waiting for the daemon\<close>

definition log :: "string \<Rightarrow> (probe, unit) talk" where
  "log msg = local (Show (''[verify] '' @ msg))"

definition banner :: "string \<Rightarrow> string" where
  "banner t = (let bar = replicate 64 (CHR ''='') in [newline] @ bar @ newline # ''  '' @ t @ newline # bar)"

definition saved_query :: "string \<Rightarrow> probe" where
  "saved_query n = Inquire ''SELECT commit_lsn FROM walflux.checkpoint WHERE slot = %s'' [PStr n]"

definition regclass_query :: probe where
  "regclass_query = Inquire ''SELECT to_regclass('walflux.checkpoint')'' []"

definition saved_checkpoint :: "probe server \<Rightarrow> string \<Rightarrow> (probe, int option) talk" where
  "saved_checkpoint sv n =
     andthen (perform sv regclass_query) (\<lambda>r.
     andthen (pure (fetch_cell 0 r)) (\<lambda>found.
       if found = PNone then say None
       else andthen (perform sv (saved_query n)) (\<lambda>r.
              (case fetch_one r of
                 None \<Rightarrow> say None
               | Some rw \<Rightarrow> pure (bindE (row_cell 0 rw) (\<lambda>v. bindE (as_int v) (\<lambda>k. Inr (Some k))))))))"

definition poll_seconds :: rat where "poll_seconds = 1 / 2"

definition reached :: "int \<Rightarrow> int option \<Rightarrow> bool" where
  "reached goal ckpt = (case ckpt of None \<Rightarrow> False | Some k \<Rightarrow> k \<ge> goal)"

definition progress :: "int \<Rightarrow> int option \<Rightarrow> string" where
  "progress goal ckpt =
     (case ckpt of
        None \<Rightarrow> ''no checkpoint yet (daemon starting, or setup has not run)''
      | Some k \<Rightarrow>
          if k \<ge> goal then ''caught up at checkpoint '' @ format_lsn k
          else ''checkpoint '' @ format_lsn k @ '' is '' @ int_text 10 (goal - k) @ '' bytes behind; waiting'')"

text \<open>
  One pass of the loop takes two clock readings, at its condition and for its report; \<open>None\<close> is a
  loop that has used up the readings given and is still waiting.
\<close>

fun await ::
    "probe server \<Rightarrow> string \<Rightarrow> int \<Rightarrow> (rat \<Rightarrow> bool) \<Rightarrow> (rat \<times> rat) list \<Rightarrow> rat \<Rightarrow> (probe, bool option) talk" where
  "await sv n goal in_time [] last_report = say None"
| "await sv n goal in_time ((check, now) # clock) last_report =
     (if \<not> in_time check then say (Some False)
      else andthen (saved_checkpoint sv n) (\<lambda>ckpt.
        if reached goal ckpt
        then andthen (log (progress goal ckpt)) (\<lambda>_. say (Some True))
        else andthen (if now - last_report \<ge> 2 then log (progress goal ckpt) else say ()) (\<lambda>_.
             andthen (local (Pause poll_seconds)) (\<lambda>_.
               await sv n goal in_time clock (if now - last_report \<ge> 2 then now else last_report)))))"

definition position_query :: probe where
  "position_query = Inquire ''SELECT pg_current_wal_lsn()'' []"

definition marker_insert :: probe where
  "marker_insert = Inquire
     (''INSERT INTO orders (status, total, coupon)'' @
      '' VALUES ('walflux_verify_marker', NULL, NULL) RETURNING id'') []"

definition marker_delete :: "pyval \<Rightarrow> probe" where
  "marker_delete v = Inquire ''DELETE FROM orders WHERE id = %s'' [v]"

text \<open>
  \<open>TIMEOUT_S\<close> is a double, read from the environment; the deadline is \<open>start\<close>, the reading taken for
  it, plus that.  The loop goes on while the reading is before it.
\<close>

definition timeout_of :: "string option \<Rightarrow> pyfloat res" where
  "timeout_of env = float_of_text (case env of None \<Rightarrow> ''120'' | Some s \<Rightarrow> s)"

definition before_deadline :: "rat \<Rightarrow> pyfloat \<Rightarrow> rat \<Rightarrow> bool" where
  "before_deadline start timeout now =
     (case timeout of
        FFin m k \<Rightarrow> now < start + float_rat m k
      | FInf negative \<Rightarrow> \<not> negative
      | FNaN \<Rightarrow> False)"

definition wait_for_catchup ::
    "probe server \<Rightarrow> string \<Rightarrow> pyfloat \<Rightarrow> rat \<Rightarrow> (rat \<times> rat) list \<Rightarrow> (probe, bool option) talk" where
  "wait_for_catchup sv n timeout start clock =
     andthen (perform sv position_query) (\<lambda>r.
     andthen (pure (bindE (fetch_cell 0 r) lsn_of)) (\<lambda>goal.
     andthen (perform sv marker_insert) (\<lambda>r.
     andthen (pure (fetch_cell 0 r)) (\<lambda>marker_id.
     andthen (perform sv (marker_delete marker_id)) (\<lambda>_.
     andthen (log (''waiting for daemon checkpoint to reach '' @ format_lsn goal @ '' (timeout '' @ float_fixed 0 timeout @ ''s)'')) (\<lambda>_.
       await sv n goal (before_deadline start timeout) clock 0))))))"

section \<open>The document\<close>

text \<open>
  \<open>raw[key]\<close>, iteration and \<open>str\<close> on parsed YAML.  A name, function, column or alias that is not a
  string makes \<open>quote_ident\<close> raise \<open>TypeError\<close> once its view is compared; here reading it does.
\<close>

definition yaml_index :: "yaml \<Rightarrow> string \<Rightarrow> yaml res" where
  "yaml_index y k =
     (case y of
        YMap m \<Rightarrow> (case map_of m (YStr k) of None \<Rightarrow> Inl KeyError | Some v \<Rightarrow> Inr v)
      | _ \<Rightarrow> Inl TypeError)"

fun yaml_items :: "yaml \<Rightarrow> yaml list res" where
  "yaml_items (YList ys) = Inr ys"
| "yaml_items (YStr s) = Inr (map (\<lambda>c. YStr [c]) s)"
| "yaml_items (YMap m) = Inr (map fst m)"
| "yaml_items _ = Inl TypeError"

fun yaml_str :: "yaml \<Rightarrow> string res" where
  "yaml_str (YStr s) = Inr s"
| "yaml_str _ = Inl TypeError"

fun yaml_text :: "yaml \<Rightarrow> string res" where
  "yaml_text (YStr s) = Inr s"
| "yaml_text (YInt n) = Inr (int_text 10 n)"
| "yaml_text (YBool b) = Inr (if b then ''True'' else ''False'')"
| "yaml_text YNull = Inr ''None''"
| "yaml_text _ = Inl TypeError"

text \<open>\<open>text.rpartition(".")\<close> without the separator.\<close>

definition rpartition_dot :: "string \<Rightarrow> string \<times> string" where
  "rpartition_dot s =
     (let tail = rev (takeWhile (\<lambda>c. c \<noteq> CHR ''.'') (rev s))
      in if CHR ''.'' \<in> set s then (take (length s - length tail - 1) s, tail) else ([], s))"

definition load_agg :: "yaml \<Rightarrow> agg_spec res" where
  "load_agg a =
     bindE (yaml_index a ''fn'') (\<lambda>fn. bindE (yaml_str fn) (\<lambda>fn.
     bindE (case a of YMap m \<Rightarrow> Inr (yget m ''column'') | _ \<Rightarrow> Inl AttributeError) (\<lambda>column.
     bindE (case column of YNull \<Rightarrow> Inr None | y \<Rightarrow> bindE (yaml_str y) (\<lambda>c. Inr (Some c))) (\<lambda>column.
     bindE (yaml_index a ''as'') (\<lambda>al. bindE (yaml_str al) (\<lambda>al.
       Inr \<lparr>agg_fn = fn, agg_column = column, agg_alias = al\<rparr>))))))"

definition load_view :: "yaml \<Rightarrow> view_spec res" where
  "load_view raw =
     bindE (yaml_index raw ''source'') (\<lambda>source. bindE (yaml_text source) (\<lambda>source.
     bindE (yaml_index raw ''name'') (\<lambda>name. bindE (yaml_str name) (\<lambda>name.
     bindE (case raw of YMap m \<Rightarrow> Inr (yget m ''group_by'') | _ \<Rightarrow> Inl AttributeError) (\<lambda>groups.
     bindE (if truthy groups then bindE (yaml_items groups) (mapE yaml_str) else Inr []) (\<lambda>groups.
     bindE (bindE (yaml_index raw ''aggregates'') yaml_items) (\<lambda>as.
     bindE (mapE load_agg as) (\<lambda>as.
       let (schema, tab) = rpartition_dot source
       in Inr \<lparr>view_name = name, source_schema = (if schema = [] then ''public'' else schema), source_table = tab,
               group_by = groups, aggregates = as\<rparr>))))))))"

definition load_views :: "yaml \<Rightarrow> view_spec list res" where
  "load_views cfg = bindE (yaml_index cfg ''views'') (\<lambda>vs. bindE (yaml_items vs) (mapE load_view))"

section \<open>The script\<close>

definition check_dsn :: "yaml \<Rightarrow> string option \<Rightarrow> unit res" where
  "check_dsn doc env =
     (if env \<noteq> None \<and> env \<noteq> Some [] then Inr ()
      else bindE (yaml_index doc ''database'') (\<lambda>d. bindE (yaml_index d ''dsn'') (\<lambda>_. Inr ())))"

definition slot_name :: "yaml \<Rightarrow> string res" where
  "slot_name doc =
     (case doc of
        YMap m \<Rightarrow> if truthy (yget m ''slot'') then yaml_text (yget m ''slot'') else Inr ''walflux''
      | _ \<Rightarrow> Inl AttributeError)"

definition verdict :: "int \<Rightarrow> string" where
  "verdict mismatches =
     (if mismatches \<noteq> 0
      then ''FAIL '' @ dash @ '' '' @ int_text 10 mismatches @ '' mismatch(es); see the table above''
      else ''PASS '' @ dash @ '' every walflux target matches its ground-truth GROUP BY'')"

text \<open>From the comparison snapshot on: the exit code.\<close>

definition compare_views :: "probe server \<Rightarrow> view_spec list \<Rightarrow> (probe, int) talk" where
  "compare_views sv vs =
     andthen (local Repeatable) (\<lambda>_.
     andthen (each (verify_view sv) vs) (\<lambda>ns.
     andthen (perform sv Undo) (\<lambda>_.
     andthen (local Detach) (\<lambda>_.
     andthen (local (Show (banner (verdict (sum_list ns))))) (\<lambda>_.
       say (if sum_list ns \<noteq> 0 then 1 else 0))))))"

definition verify_main ::
    "probe server \<Rightarrow> yaml \<Rightarrow> string \<Rightarrow> string option \<Rightarrow> pyfloat \<Rightarrow> rat \<Rightarrow> (rat \<times> rat) list \<Rightarrow> (probe, int option) talk" where
  "verify_main sv doc path env timeout start clock =
     andthen (pure (check_dsn doc env)) (\<lambda>_.
     andthen (pure (slot_name doc)) (\<lambda>n.
     andthen (pure (load_views doc)) (\<lambda>vs.
     andthen (perform sv Attach) (\<lambda>_.
     andthen (log (''comparing '' @ int_text 10 (int (length vs)) @ '' view(s) from '' @ path)) (\<lambda>_.
     andthen (log ''(the write generator must be stopped, or the target keeps moving)'') (\<lambda>_.
     andthen (wait_for_catchup sv n timeout start clock) (\<lambda>caught.
       (case caught of
          None \<Rightarrow> say None
        | Some False \<Rightarrow>
            andthen (local (Show (banner (''FAIL '' @ dash @ '' daemon checkpoint did not catch up within the timeout'')))) (\<lambda>_. say (Some 1))
        | Some True \<Rightarrow> andthen (compare_views sv vs) (\<lambda>code. say (Some code))))))))))"

text \<open>
  The script: its two settings are read as the module is loaded, so that a bad timeout raises before
  anything else; \<open>read\<close> is the document a path holds.
\<close>

definition config_path_of :: "string option \<Rightarrow> string" where
  "config_path_of env = (case env of None \<Rightarrow> ''/demo/config.yaml'' | Some s \<Rightarrow> s)"

definition verify_script ::
    "probe server \<Rightarrow> (string \<Rightarrow> yaml) \<Rightarrow> string option \<Rightarrow> string option \<Rightarrow> string option \<Rightarrow> rat \<Rightarrow> (rat \<times> rat) list \<Rightarrow>
     (probe, int option) talk" where
  "verify_script sv read path_env timeout_env dsn_env start clock =
     andthen (pure (timeout_of timeout_env)) (\<lambda>timeout.
       verify_main sv (read (config_path_of path_env)) (config_path_of path_env) dsn_env timeout start clock)"

end
