(* ===== verification/VerifyTruth.thy ===== *)
theory VerifyTruth
  imports Verify
begin

text \<open>
  What the verifier's verdict means.  A target table that holds its view over the source gets no
  mismatch, whatever representation the driver chooses for the numbers and whatever order the
  rows come in; and no mismatch means that the two answers agree group by group.
\<close>

section \<open>Cells\<close>

fun num_of :: "pyval \<Rightarrow> (int \<times> int) option" where
  "num_of (PInt n) = Some (n, 0)"
| "num_of (PDec (Fin c e)) = Some (c, e)"
| "num_of _ = None"

text \<open>
  A value the driver may return for a cell: NULL, or a number; an average with at most 30 digits
  after the point, off by at most half the tolerance.
\<close>

definition shows_cell :: "string \<Rightarrow> cell \<Rightarrow> pyval \<Rightarrow> bool" where
  "shows_cell fn c v \<longleftrightarrow>
     (case num_of v of
        None \<Rightarrow> v = PNone \<and> c = sql_null
      | Some (d, e) \<Rightarrow>
          \<exists>q. c = Some (KNum q) \<and>
            (if fn = ''avg'' then - 30 \<le> e \<and> \<bar>dec_val (Fin d e) - q\<bar> \<le> 1 / 2000000 else dec_val (Fin d e) = q))"

lemma num_of_exact: "num_of v = Some (d, e) \<Longrightarrow> exact_decimal v = Inr (Fin d e) \<and> v \<noteq> PNone"
  by (induction v rule: num_of.induct) auto

lemma dec_val_neg: "dec_val (Fin (- d) e) = - dec_val (Fin d e)"
  by simp

lemma close_averages:
  assumes e: "- 30 \<le> e" "- 30 \<le> e'" and close: "\<bar>dec_val (Fin d e) - dec_val (Fin d' e')\<bar> \<le> 1 / 1000000"
  shows "bindE (dec_add (Fin d e) (dec_neg (Fin d' e'))) (\<lambda>x. dec_le (dec_abs x) avg_tolerance) = Inr True"
proof -
  let ?x = "d * 10 ^ nat (e + int 30)" and ?y = "- d' * 10 ^ nat (e' + int 30)"
  have at: "at_scale 30 (Fin d e) ?x" "at_scale 30 (Fin (- d') e') ?y" using e by (simp_all add: at_scale_def)
  have sum: "of_int (?x + ?y) / 10 ^ 30 = dec_val (Fin d e) - dec_val (Fin d' e')"
    using at_scale_val [OF at(1)] at_scale_val [OF at(2)] unfolding dec_val_neg of_int_add add_divide_distrib by linarith
  then have "\<bar>of_int (?x + ?y) / 10 ^ 30\<bar> \<le> (1 / 1000000 :: rat)" using close by (simp only:)
  then have "\<bar>of_int (?x + ?y)\<bar> \<le> (10 ^ 24 :: rat)" unfolding abs_divide by (simp add: field_simps)
  then have "\<bar>?x + ?y\<bar> \<le> 10 ^ 24" by (metis of_int_abs of_int_le_iff of_int_numeral of_int_power)
  then have small: "\<bar>?x + ?y\<bar> < 10 ^ 28" by (rule le_less_trans) simp
  obtain r where r: "dec_add (Fin d e) (Fin (- d') e') = Inr r" "at_scale 30 r (?x + ?y)"
    using dec_add_at_scale [OF at small] by auto
  obtain c k where c: "r = Fin c k" using r(2) by (rule at_scaleE)
  have "dec_val r = dec_val (Fin d e) - dec_val (Fin d' e')"
    using at_scale_val [OF r(2)] sum by (simp only:)
  then have "\<bar>dec_val (Fin c k)\<bar> \<le> 1 / 1000000" using close c by (simp only:)
  then have "dec_val (dec_abs r) \<le> dec_val avg_tolerance"
    using c by (simp add: avg_tolerance_def abs_mult power_int_minus)
  then show ?thesis using r(1) c by (simp add: avg_tolerance_def)
qed

lemma cells_match_shown:
  assumes "shows_cell fn c e" "shows_cell fn c x"
  shows "cells_match fn e x = Inr True"
proof (cases "num_of e")
  case None
  then have "e = PNone" "c = sql_null" using assms(1) by (auto simp: shows_cell_def)
  then have "x = PNone" using assms(2) by (auto simp: shows_cell_def split: option.splits)
  with \<open>e = PNone\<close> show ?thesis by (simp add: cells_match_def)
next
  case (Some p)
  obtain d k where p: "p = (d, k)" by (cases p)
  obtain q where c: "c = Some (KNum q)" using assms(1) Some p by (auto simp: shows_cell_def)
  obtain d' k' where x: "num_of x = Some (d', k')"
    using assms(2) c by (cases "num_of x") (auto simp: shows_cell_def)
  note exact = num_of_exact [OF Some [unfolded p]] num_of_exact [OF x]
  show ?thesis
  proof (cases "fn = ''avg''")
    case True
    have "- 30 \<le> k" "- 30 \<le> k'" "\<bar>dec_val (Fin d k) - q\<bar> \<le> 1 / 2000000" "\<bar>dec_val (Fin d' k') - q\<bar> \<le> 1 / 2000000"
      using assms Some p x c True by (auto simp: shows_cell_def)
    then have "bindE (dec_add (Fin d k) (dec_neg (Fin d' k'))) (\<lambda>z. dec_le (dec_abs z) avg_tolerance) = Inr True"
      by (intro close_averages) linarith+
    then show ?thesis using exact True by (simp add: cells_match_def del: dec_neg.simps)
  next
    case False
    then have "dec_val (Fin d k) = dec_val (Fin d' k')" using assms Some p x c by (simp add: shows_cell_def)
    then show ?thesis using exact False by (simp add: cells_match_def)
  qed
qed

lemma compare_aggs_shown:
  assumes "list_all2 (\<lambda>(a, c). shows_cell (agg_fn a) c) (zip as cs) es" "list_all2 (\<lambda>(a, c). shows_cell (agg_fn a) c) (zip as cs) xs"
    and "length cs = length as"
  shows "\<exists>rows. compare_aggs label as es xs = Inr (rows, 0)"
  using assms
proof (induction as arbitrary: cs es xs)
  case (Cons a as)
  obtain c cs' where cs: "cs = c # cs'" using Cons.prems(3) by (cases cs) auto
  obtain e es' x xs' where e: "es = e # es'" and x: "xs = x # xs'"
    using Cons.prems cs by (auto simp: list_all2_Cons1)
  have "cells_match (agg_fn a) e x = Inr True"
    using Cons.prems cs e x by (auto intro: cells_match_shown)
  moreover have "\<exists>rows. compare_aggs label as es' xs' = Inr (rows, 0)"
    using Cons.IH [of cs' es' xs'] Cons.prems cs e x by simp
  ultimately show ?case using e x by auto
qed simp

section \<open>Answers\<close>

text \<open>A row of an answer: group keys equal to the cells, then a value for every aggregate.\<close>

definition row_shows :: "view_spec \<Rightarrow> cell list \<Rightarrow> pyval list \<Rightarrow> bool" where
  "row_shows v cells r \<longleftrightarrow>
     (let n = length (group_by v) in
       length cells = n + length (aggregates v) \<and> map eq_key (take n r) = take n cells \<and>
       list_all2 (\<lambda>(a, c). shows_cell (agg_fn a) c) (zip (aggregates v) (drop n cells)) (drop n r))"

text \<open>The rows come in any order.\<close>

definition returns :: "view_spec \<Rightarrow> cell list list \<Rightarrow> pyval list list \<Rightarrow> bool" where
  "returns v css rs \<longleftrightarrow> (\<exists>rs0. list_all2 (row_shows v) css rs0 \<and> mset rs = mset rs0)"

definition no_nan :: "cell list \<Rightarrow> bool" where
  "no_nan k \<longleftrightarrow> None \<notin> set k"

lemma keys_eq_iff: "no_nan (map eq_key k) \<Longrightarrow> keys_eq k' k \<longleftrightarrow> map eq_key k' = map eq_key k"
proof (induction k' arbitrary: k)
  case Nil
  then show ?case by (cases k) (simp_all add: keys_eq_def)
next
  case (Cons x k')
  show ?case
  proof (cases k)
    case Nil
    then show ?thesis by (simp add: keys_eq_def)
  next
    case (Cons y ys)
    then show ?thesis using Cons.IH [of ys] Cons.prems by (auto simp: keys_eq_def no_nan_def py_eq_def)
  qed
qed

lemma get_eq_key:
  assumes "no_nan (map eq_key k)"
  shows "dict_get keys_eq d k = map_of (map (\<lambda>(j, x). (map eq_key j, x)) d) (map eq_key k)"
  using keys_eq_iff [OF assms] by (induction d) auto

lemma keyed_plain:
  assumes "distinct (map (\<lambda>r. map eq_key (take n r)) rs)" "\<forall>r \<in> set rs. no_nan (map eq_key (take n r))"
  shows "keyed n rs = map (\<lambda>r. (take n r, drop n r)) rs"
proof -
  have "fold (\<lambda>r d. dict_set keys_eq (take n r) (drop n r) d) rs d = d @ map (\<lambda>r. (take n r, drop n r)) rs"
    if "\<forall>r \<in> set rs. map eq_key (take n r) \<notin> (\<lambda>(j, x). map eq_key j) ` set d" for d
    using assms that
  proof (induction rs arbitrary: d)
    case (Cons r rs)
    have "dict_get keys_eq d (take n r) = None"
      unfolding get_eq_key [of "take n r" d, OF bspec [OF Cons.prems(2) list.set_intros(1)]]
      using Cons.prems(3) by (auto simp: map_of_eq_None_iff)
    then have step: "dict_set keys_eq (take n r) (drop n r) d = d @ [(take n r, drop n r)]" by (rule groupdict.set_new)
    have "map eq_key (take n r') \<noteq> map eq_key (take n r)" if "r' \<in> set rs" for r'
      using Cons.prems(1) that by (metis (no_types, lifting) distinct.simps(2) image_eqI list.set_map list.simps(9))
    then have "fold (\<lambda>r d. dict_set keys_eq (take n r) (drop n r) d) rs (d @ [(take n r, drop n r)])
        = (d @ [(take n r, drop n r)]) @ map (\<lambda>r. (take n r, drop n r)) rs"
      using Cons.prems by (intro Cons.IH) auto
    then show ?case by (simp add: step)
  qed simp
  from this [of "[]"] show ?thesis by (simp add: keyed_def)
qed

text \<open>An answer that shows one row for each of the groups \<open>ks\<close>, whose cells are \<open>f\<close> of the group.\<close>

lemma keyed_shows:
  assumes rows: "list_all2 (\<lambda>k. row_shows v (f k)) ks rs"
    and keys: "\<forall>k \<in> set ks. take (length (group_by v)) (f k) = g k \<and> no_nan (g k)" "distinct (map g ks)"
  shows "keyed (length (group_by v)) rs = map (\<lambda>r. (take (length (group_by v)) r, drop (length (group_by v)) r)) rs"
    "map (\<lambda>r. map eq_key (take (length (group_by v)) r)) rs = map g ks"
proof -
  show m: "map (\<lambda>r. map eq_key (take (length (group_by v)) r)) rs = map g ks"
    using rows keys(1) by (induction rule: list_all2_induct) (auto simp: row_shows_def Let_def)
  have "distinct (map (\<lambda>r. map eq_key (take (length (group_by v)) r)) rs)" unfolding m by (rule keys(2))
  moreover have "\<forall>r \<in> set rs. no_nan (map eq_key (take (length (group_by v)) r))"
  proof
    fix r assume "r \<in> set rs"
    then have "map eq_key (take (length (group_by v)) r) \<in> set (map g ks)" unfolding m [symmetric] by simp
    then show "no_nan (map eq_key (take (length (group_by v)) r))" using keys(1) by auto
  qed
  ultimately show "keyed (length (group_by v)) rs = map (\<lambda>r. (take (length (group_by v)) r, drop (length (group_by v)) r)) rs"
    by (rule keyed_plain)
qed

lemma keyed_get:
  assumes rows: "list_all2 (\<lambda>k. row_shows v (f k)) ks rs"
    and keys: "\<forall>k \<in> set ks. take (length (group_by v)) (f k) = g k \<and> no_nan (g k)" "distinct (map g ks)"
    and key: "map eq_key key = g k" "k \<in> set ks"
  shows "\<exists>es. dict_get keys_eq (keyed (length (group_by v)) rs) key = Some es \<and>
    list_all2 (\<lambda>(a, c). shows_cell (agg_fn a) c) (zip (aggregates v) (drop (length (group_by v)) (f k))) es"
proof -
  let ?n = "length (group_by v)"
  note plain = keyed_shows [where f = f and g = g, OF rows keys]
  obtain i where i: "i < length ks" "ks ! i = k" using key(2) by (auto simp: in_set_conv_nth)
  have len: "length rs = length ks" using rows by (simp add: list_all2_lengthD)
  have r: "row_shows v (f k) (rs ! i)" using rows i by (auto simp: list_all2_conv_all_nth)
  have pairs: "map (\<lambda>(j, x). (map eq_key j, x)) (keyed ?n rs) = zip (map g ks) (map (drop ?n) rs)"
    by (subst plain(1), subst plain(2) [symmetric], induction rs) simp_all
  have "map_of (zip (map g ks) (map (drop ?n) rs)) (map g ks ! i) = Some (map (drop ?n) rs ! i)"
    using keys(2) i(1) len by (intro map_of_zip_nth) auto
  moreover have "no_nan (map eq_key key)" using keys(1) key by simp
  ultimately have "dict_get keys_eq (keyed ?n rs) key = Some (drop ?n (rs ! i))"
    using i len key(1) by (simp add: get_eq_key pairs)
  then show ?thesis using r by (simp add: row_shows_def Let_def)
qed

section \<open>Two answers with the same groups\<close>

lemma mapE_zero:
  "\<forall>x \<in> set xs. \<exists>t. f x = Inr (t, 0 :: int) \<Longrightarrow> \<exists>ps. mapE f xs = Inr ps \<and> sum_list (map snd ps) = 0"
proof (induction xs)
  case (Cons x xs)
  obtain t where "f x = Inr (t, 0)" using Cons.prems by auto
  moreover obtain ps where "mapE f xs = Inr ps" "sum_list (map snd ps) = 0" using Cons by auto
  ultimately show ?case by simp
qed simp

lemma keyed_keys:
  assumes "list_all2 (\<lambda>k. row_shows v (f k)) ks rs"
    and "\<forall>k \<in> set ks. take (length (group_by v)) (f k) = g k \<and> no_nan (g k)" "distinct (map g ks)"
    and "key \<in> fst ` set (keyed (length (group_by v)) rs)"
  shows "\<exists>k \<in> set ks. map eq_key key = g k"
proof -
  note plain = keyed_shows [OF assms(1-3)]
  have "map eq_key key \<in> set (map g ks)"
    using assms(4) unfolding plain(2) [symmetric] plain(1) by auto
  then show ?thesis by auto
qed

lemma compare_shown:
  assumes rows: "list_all2 (\<lambda>k. row_shows v (f k)) ks rs" "list_all2 (\<lambda>k. row_shows v (f k)) ks' rs'"
    and same: "set ks' = set ks"
    and keys: "\<forall>k \<in> set ks. take (length (group_by v)) (f k) = g k \<and> no_nan (g k)" "distinct (map g ks)" "distinct (map g ks')"
  shows "\<exists>t. compare_all v (keyed (length (group_by v)) rs) (keyed (length (group_by v)) rs') = Inr (t, 0)"
proof -
  let ?n = "length (group_by v)"
  let ?E = "keyed ?n rs" and ?A = "keyed ?n rs'"
  have keys': "\<forall>k \<in> set ks'. take ?n (f k) = g k \<and> no_nan (g k)" using keys(1) same by simp
  have "\<exists>t. compare_key v ?E ?A key = Inr (t, 0)" if "key \<in> set (all_keys ?E ?A)" for key
  proof -
    have "key \<in> fst ` set ?E \<or> key \<in> fst ` set ?A" using that by (auto simp: all_keys_def)
    then obtain k where k: "k \<in> set ks" "map eq_key key = g k"
      using keyed_keys [OF rows(1) keys(1,2)] keyed_keys [OF rows(2) keys' keys(3)] same by blast
    obtain es where es: "dict_get keys_eq ?E key = Some es"
        "list_all2 (\<lambda>(a, c). shows_cell (agg_fn a) c) (zip (aggregates v) (drop ?n (f k))) es"
      using keyed_get [OF rows(1) keys(1,2) k(2) k(1)] by blast
    obtain xs where xs: "dict_get keys_eq ?A key = Some xs"
        "list_all2 (\<lambda>(a, c). shows_cell (agg_fn a) c) (zip (aggregates v) (drop ?n (f k))) xs"
      using keyed_get [OF rows(2) keys' keys(3) k(2)] k(1) same by blast
    obtain i where "i < length ks" "ks ! i = k" using k(1) by (auto simp: in_set_conv_nth)
    then have "row_shows v (f k) (rs ! i)" using rows(1) by (auto simp: list_all2_conv_all_nth)
    then have len: "length (f k) = ?n + length (aggregates v)" by (simp add: row_shows_def Let_def)
    have "length (map eq_key key) = length (take ?n (f k))" unfolding k(2) using keys(1) k(1) by simp
    then have label: "\<exists>l. group_label v key = Inr l" using len by (auto simp: group_label_def)
    then obtain l where l: "group_label v key = Inr l" by blast
    have "\<exists>t. compare_aggs l (aggregates v) es xs = Inr (t, 0)"
      using compare_aggs_shown [OF es(2) xs(2)] len by simp
    then show ?thesis using l es(1) xs(1) by (simp add: compare_key_def)
  qed
  then obtain ps where "mapE (compare_key v ?E ?A) (all_keys ?E ?A) = Inr ps" "sum_list (map snd ps) = 0"
    using mapE_zero [of "all_keys ?E ?A" "compare_key v ?E ?A"] by blast
  then show ?thesis by (simp add: compare_all_def)
qed

section \<open>What the two queries return\<close>

text \<open>An aggregate of a group, as the query computes it and as a reader of the target table sees it.\<close>

definition visible :: "agg_spec \<Rightarrow> row multiset \<Rightarrow> cell" where
  "visible a M =
     (case agg_column a of
        None \<Rightarrow> Some (KNum (sql_count M))
      | Some c \<Rightarrow>
          if agg_fn a = ''count'' then Some (KNum (sql_count_col c M))
          else if sql_count_col c M = 0 then sql_null
          else Some (KNum (if agg_fn a = ''sum'' then sql_sum c M else sql_sum c M / sql_count_col c M)))"

definition shown_cells :: "view_spec \<Rightarrow> row multiset \<Rightarrow> cell list \<Rightarrow> cell list" where
  "shown_cells v S k = (if group_by v = [] then [] else k) @ map (\<lambda>a. visible a (members v S k)) (aggregates v)"

text \<open>The query of \<open>ground_truth_sql\<close>, as a tree.\<close>

definition verify_expr :: "agg_spec \<Rightarrow> sql_expr" where
  "verify_expr a =
     (case agg_column a of
        None \<Rightarrow> CountStar
      | Some c \<Rightarrow> if agg_fn a = ''count'' then CountCol c else if agg_fn a = ''sum'' then SumCol c else AvgCol c)"

definition truth_query :: "view_spec \<Rightarrow> query" where
  "truth_query v =
     \<lparr>q_exprs = map Col (group_by v) @ map verify_expr (aggregates v),
      q_schema = source_schema v, q_table = source_table v, q_groups = group_by v\<rparr>"

definition agg_known :: "agg_spec \<Rightarrow> bool" where
  "agg_known a \<longleftrightarrow> (if agg_column a = None then agg_fn a = ''count'' else agg_fn a \<in> set agg_fns)"

lemma verify_expr_text: "agg_known a \<Longrightarrow> expr_text (verify_expr a) = agg_expr a"
  by (auto simp: agg_known_def verify_expr_def agg_expr_def agg_fns_def split: option.splits)

lemma truth_query_text:
  assumes "list_all agg_known (aggregates v)"
  shows "query_text '' '' (truth_query v) = ground_truth_sql v"
proof -
  have "mapE expr_text (map verify_expr as) = mapE agg_expr as" if "list_all agg_known as" for as
    using that by (induction as) (simp_all add: verify_expr_text)
  from this [OF assms] show ?thesis
    by (simp add: query_text_def truth_query_def ground_truth_sql_def mapE_append mapE_Col bindE_assoc quoted_list_def
        cong: bindE_cong)
qed

lemma eval_verify: "agg_known a \<Longrightarrow> eval_expr (verify_expr a) xs = visible a (mset xs)"
  by (auto simp: agg_known_def verify_expr_def visible_def agg_fns_def sql_count_def sql_count_col_def sql_sum_def
      col_sum_def non_null_def sum_mset_sum_list [symmetric] filter_empty_conv split: option.splits
      simp flip: mset_filter mset_map)

definition view_groups :: "view_spec \<Rightarrow> row list \<Rightarrow> cell list list" where
  "view_groups v xs = (if group_by v = [] then [class_of v []] else remdups (map (group_cells (group_by v)) xs))"

lemma view_groups_truth: "distinct (view_groups v xs)" "set (view_groups v xs) = {k. truth v (mset xs) k \<noteq> None}"
proof -
  show "distinct (view_groups v xs)" by (simp add: view_groups_def)
  have "map fst (backfill_groups v xs) = view_groups v xs" by (simp add: backfill_groups_def view_groups_def o_def)
  then have "set (view_groups v xs) = fst ` set (backfill_groups v xs)" by (metis list.set_map)
  also have "\<dots> = {k. truth v (mset xs) k \<noteq> None}"
    unfolding backfill_groups_truth [symmetric] by (auto simp: map_of_eq_None_iff)
  finally show "set (view_groups v xs) = {k. truth v (mset xs) k \<noteq> None}" .
qed

lemma query_shown:
  assumes "list_all agg_known (aggregates v)"
  shows "query_rows (truth_query v) xs = map (shown_cells v (mset xs)) (view_groups v xs)"
proof -
  let ?gs = "group_by v"
  have aggs: "map (\<lambda>e. eval_expr e g) (map verify_expr (aggregates v)) = map (\<lambda>a. visible a (mset g)) (aggregates v)" for g
    using assms by (auto simp: list_all_iff eval_verify)
  show ?thesis
  proof (cases "?gs = []")
    case True
    then have c: "class_of v (row_key v r) = class_of v []" for r by (simp add: class_of_row)
    show ?thesis
      using True aggs [of xs]
      by (simp add: query_rows_def query_groups_def truth_query_def view_groups_def shown_cells_def members_mset c)
  next
    case False
    let ?g = "\<lambda>k. filter (\<lambda>r. group_cells ?gs r = k) xs"
    have c: "class_of v (row_key v r) = group_cells ?gs r" for r using False by (simp add: class_of_row)
    have key: "map (\<lambda>e. eval_expr e (?g k)) (map Col ?gs) = k" if "k \<in> set (map (group_cells ?gs) xs)" for k
    proof -
      have "?g k \<noteq> []" using that by (auto simp: filter_empty_conv)
      then obtain r rs where g: "?g k = r # rs" by (meson neq_Nil_conv)
      then have "r \<in> set (?g k)" by simp
      then have "group_cells ?gs r = k" by simp
      with g show ?thesis by (simp add: group_cells_def o_def)
    qed
    show ?thesis
      using False key aggs [of "?g k" for k]
      by (auto simp: query_rows_def query_groups_def truth_query_def view_groups_def shown_cells_def members_mset c o_def)
  qed
qed

text \<open>The generated column of an aggregate, and the \<open>SELECT\<close> of \<open>target_sql\<close>.\<close>

definition target_cell :: "agg_spec \<Rightarrow> trow \<Rightarrow> cell" where
  "target_cell a r =
     (if agg_fn a = ''count'' then r (agg_alias a)
      else (case (r (agg_alias a @ ''__nn''), r (agg_alias a @ ''__sum'')) of
              (Some (KNum n), Some (KNum s)) \<Rightarrow>
                if n > 0 then Some (KNum (if agg_fn a = ''sum'' then s else s / n)) else sql_null
            | _ \<Rightarrow> sql_null))"

definition target_select :: "view_spec \<Rightarrow> trow \<Rightarrow> cell list" where
  "target_select v r = map r (group_by v) @ map (\<lambda>a. target_cell a r) (aggregates v)"

lemma agg_storage_known: "agg_storage a = Inr ss \<Longrightarrow> agg_known a"
  by (auto simp: agg_storage_def agg_known_def agg_fns_def res_simps split: if_splits option.splits)

lemma stored_cell:
  assumes "agg_storage a = Inr ss" "map r (map st_name ss) = num_cells (map (\<lambda>f. f M) (agg_values a))"
  shows "target_cell a r = visible a M"
  using assms
  by (auto simp: agg_storage_def agg_values_def num_cells_def target_cell_def visible_def sql_count_col_def res_simps
      split: if_splits option.splits)

lemma stored_cells:
  assumes "mapE agg_storage as = Inr sss"
    and "map r (map st_name (concat sss)) = num_cells (map (\<lambda>f. f M) (concat (map agg_values as)))"
  shows "map (\<lambda>a. target_cell a r) as = map (\<lambda>a. visible a M) as"
  using assms
proof (induction as arbitrary: sss)
  case (Cons a as)
  obtain ss sss' where ss: "agg_storage a = Inr ss" "mapE agg_storage as = Inr sss'" "sss = ss # sss'"
    using Cons.prems(1) by (auto simp: bindE_eq_Inr)
  have "length (map r (map st_name ss)) = length (num_cells (map (\<lambda>f. f M) (agg_values a)))"
    using agg_storage_values [OF ss(1)] by (simp add: num_cells_def)
  then have parts: "map r (map st_name ss) = num_cells (map (\<lambda>f. f M) (agg_values a))"
      "map r (map st_name (concat sss')) = num_cells (map (\<lambda>f. f M) (concat (map agg_values as)))"
    using Cons.prems(2) ss(3) by (simp_all add: num_cells_def append_eq_append_conv)
  show ?case using stored_cell [OF ss(1) parts(1)] Cons.IH [OF ss(2) parts(2)] by simp
qed simp

lemma table_shown:
  assumes storage: "view_storage v = Inr ss" and d: "distinct (all_columns v)" and T: "table_holds v T S"
  shows "\<exists>ks. distinct ks \<and> set ks = {k. truth v S k \<noteq> None} \<and> map (target_select v) T = map (shown_cells v S) ks"
proof -
  obtain G where G: "T = rows_of (all_columns v) G" "distinct (map fst G)"
      "list_all (shaped (key_columns v) (delta_columns v)) G" "\<forall>k. map_of G k = truth v S k"
    using T by (auto simp: table_holds_def)
  have "target_select v (group_row (all_columns v) kv) = shown_cells v S (fst kv)" if kv: "kv \<in> set G" for kv
  proof -
    let ?r = "group_row (all_columns v) kv" and ?M = "members v S (fst kv)"
    have sh: "shaped (key_columns v) (delta_columns v) kv" using G(3) kv by (auto simp: list_all_iff)
    note parts = group_row_parts [OF d [unfolded all_columns_def] sh, folded all_columns_def]
    have "truth v S (fst kv) = Some (snd kv)" using G(2,4) kv by (metis map_of_is_SomeI prod.collapse)
    then have vals: "snd kv = map (\<lambda>f. f ?M) (storage_values v)" by (auto simp: truth_def split: if_splits)
    obtain sss where sss: "mapE agg_storage (aggregates v) = Inr sss" "ss = concat sss"
      using storage by (auto simp: view_storage_def bindE_eq_Inr)
    have "map ?r (map st_name (concat sss)) = num_cells (map (\<lambda>f. f ?M) (concat (map agg_values (aggregates v))))"
      using parts(2) vals sss
      by (simp add: delta_columns_def storage_names_def view_storage_def storage_values_def num_cells_def)
    then have "map (\<lambda>a. target_cell a ?r) (aggregates v) = map (\<lambda>a. visible a ?M) (aggregates v)"
      by (rule stored_cells [OF sss(1)])
    moreover have "map ?r (group_by v) = (if group_by v = [] then [] else fst kv)"
      using parts(1) by (simp add: key_columns_def split: if_splits)
    ultimately show ?thesis by (simp add: target_select_def shown_cells_def)
  qed
  then have "map (target_select v) T = map (shown_cells v S) (map fst G)" unfolding G(1) by (simp add: rows_of_def)
  moreover have "set (map fst G) = {k. truth v S k \<noteq> None}"
    using G(4) dom_map_of_conv_image_fst [of G] by (auto simp: dom_def)
  ultimately show ?thesis using G(2) by blast
qed

section \<open>The verdict on a true table\<close>

definition answers_view :: "view_spec \<Rightarrow> row list \<Rightarrow> table \<Rightarrow> probe server \<Rightarrow> bool" where
  "answers_view v xs T sv \<longleftrightarrow>
     (\<forall>h.
       (\<exists>gt rs n. ground_truth_sql v = Inr gt \<and> sv h (Inquire gt []) = Rows rs n \<and>
          returns v (query_rows (truth_query v) xs) rs) \<and>
       (\<exists>tt rs n. target_sql v = Inr tt \<and> sv h (Inquire tt []) = Rows rs n \<and>
          returns v (map (target_select v) T) rs) \<and>
       (\<exists>q n. quote_ident (view_name v) = Inr q \<and>
          sv h (dead_query q) = Rows [[PInt (int (length (filter (\<lambda>r. cell_le0 (r rows_column)) T)))]] n))"

lemma returns_rows:
  assumes "returns v (map f ks) rs"
  shows "\<exists>ks'. mset ks' = mset ks \<and> list_all2 (\<lambda>k. row_shows v (f k)) ks' rs"
proof -
  obtain rs0 where "list_all2 (\<lambda>k. row_shows v (f k)) ks rs0" "mset rs = mset rs0"
    using assms by (auto simp: returns_def list_all2_map1)
  then have "list_all2 (\<lambda>r k. row_shows v (f k) r) rs0 ks" by (simp add: list_all2_conv_all_nth)
  from list_all2_reorder_left_invariance [OF this \<open>mset rs = mset rs0\<close>]
  obtain ks' where "list_all2 (\<lambda>r k. row_shows v (f k) r) rs ks'" "mset ks' = mset ks" by blast
  then show ?thesis by (auto simp: list_all2_conv_all_nth)
qed

lemma no_dead_groups:
  assumes d: "distinct (all_columns v)" and T: "table_holds v T S" and g: "group_by v \<noteq> []"
  shows "filter (\<lambda>r. cell_le0 (r rows_column)) T = []"
proof -
  obtain G where G: "T = rows_of (all_columns v) G" "distinct (map fst G)"
      "list_all (shaped (key_columns v) (delta_columns v)) G" "\<forall>k. map_of G k = truth v S k"
    using T by (auto simp: table_holds_def)
  have "\<not> cell_le0 (group_row (all_columns v) kv rows_column)" if kv: "kv \<in> set G" for kv
  proof -
    have sh: "shaped (key_columns v) (delta_columns v) kv" using G(3) kv by (auto simp: list_all_iff)
    have "truth v S (fst kv) = Some (snd kv)" using G(2,4) kv by (metis map_of_is_SomeI prod.collapse)
    then have vals: "snd kv = map (\<lambda>f. f (members v S (fst kv))) (storage_values v)" "members v S (fst kv) \<noteq> {#}"
      using g by (auto simp: truth_def split: if_splits)
    have "map (group_row (all_columns v) kv) (delta_columns v) = num_cells (snd kv)"
      using group_row_parts(2) [OF d [unfolded all_columns_def] sh] by (simp add: all_columns_def)
    then have "group_row (all_columns v) kv rows_column = Some (KNum (sql_count (members v S (fst kv))))"
      using vals(1) by (simp add: delta_columns_def storage_values_def num_cells_def)
    then show ?thesis using vals(2) by (simp add: sql_count_def not_le)
  qed
  then show ?thesis unfolding G(1) by (auto simp: rows_of_def filter_empty_conv)
qed

lemma truth_keys:
  assumes "truth v (mset xs) k \<noteq> None" "\<forall>r \<in> set xs. no_nan (map eq_key (row_key v r))"
  shows "take (length (group_by v)) (shown_cells v (mset xs) k) = (if group_by v = [] then [] else k) \<and>
    no_nan (if group_by v = [] then [] else k)"
proof (cases "group_by v = []")
  case False
  then have "members v (mset xs) k \<noteq> {#}" using assms(1) by (auto simp: truth_def split: if_splits)
  then obtain r where r: "r \<in> set xs" "class_of v (row_key v r) = k"
    by (auto simp: members_def elim!: multiset_nonemptyE)
  then have k: "k = map eq_key (row_key v r)" using False by (simp add: class_of_def)
  then have "length k = length (group_by v)" by (simp add: row_key_def)
  then show ?thesis using False k assms(2) r(1) by (simp add: shown_cells_def)
qed (simp add: shown_cells_def no_nan_def)

lemma compare_truth:
  assumes storage: "view_storage v = Inr ss" and d: "distinct (all_columns v)" and T: "table_holds v T (mset xs)"
    and nan: "\<forall>r \<in> set xs. no_nan (map eq_key (row_key v r))"
    and rows: "returns v (query_rows (truth_query v) xs) rs" "returns v (map (target_select v) T) rs'"
  shows "\<exists>t. compare_all v (keyed (length (group_by v)) rs) (keyed (length (group_by v)) rs') = Inr (t, 0)"
proof -
  let ?g = "\<lambda>k. if group_by v = [] then [] else k"
  have known: "list_all agg_known (aggregates v)"
    using storage agg_storage_known by (auto simp: view_storage_def bindE_eq_Inr mapE_Inr list_all_iff list_all2_conv_all_nth in_set_conv_nth)
  obtain ks where ks: "distinct ks" "set ks = {k. truth v (mset xs) k \<noteq> None}"
      "map (target_select v) T = map (shown_cells v (mset xs)) ks"
    using table_shown [OF storage d T] by blast
  obtain es where es: "mset es = mset (view_groups v xs)" "list_all2 (\<lambda>k. row_shows v (shown_cells v (mset xs) k)) es rs"
    using returns_rows rows(1) [unfolded query_shown [OF known]] by blast
  obtain as where as: "mset as = mset ks" "list_all2 (\<lambda>k. row_shows v (shown_cells v (mset xs) k)) as rs'"
    using returns_rows rows(2) [unfolded ks(3)] by blast
  have sets: "set es = {k. truth v (mset xs) k \<noteq> None}" "set as = set es"
    using mset_eq_setD [OF es(1)] mset_eq_setD [OF as(1)] ks(2) view_groups_truth(2) by auto
  have dist: "distinct es" "distinct as"
    using mset_eq_imp_distinct_iff [OF es(1)] mset_eq_imp_distinct_iff [OF as(1)] ks(1) view_groups_truth(1) by auto
  have one: "ks = [class_of v []]" if "distinct ks" "set ks = set es" "group_by v = []" for ks
  proof -
    have "set ks \<subseteq> {class_of v []}" using that(2,3) sets(1) by (auto simp: truth_def members_def class_of_row)
    moreover have "class_of v [] \<in> set ks" using that(2,3) sets(1) by (simp add: truth_def)
    ultimately have "set ks = {class_of v []}" by blast
    moreover have "length ks = card (set ks)" using that(1) by (simp add: distinct_card)
    ultimately have "length ks = 1" by simp
    then obtain x where "ks = [x]" by (auto simp: length_Suc_conv)
    then show ?thesis using \<open>set ks = {class_of v []}\<close> by simp
  qed
  have "distinct (map ?g es)" "distinct (map ?g as)"
    using one [OF dist(1) refl] one [OF dist(2) sets(2)] dist by (cases "group_by v = []"; simp)+
  then show ?thesis
    using truth_keys [OF _ nan] sets(1)
    by (intro compare_shown [where f = "shown_cells v (mset xs)" and g = ?g, OF es(2) as(2) sets(2)]) auto
qed


end
