(* ===== verification/VerifyMain.thy ===== *)
theory VerifyMain
  imports VerifyTruth
begin

text \<open>
  The verdict of the whole script: what exit code 0 guarantees, and that waiting for the daemon
  ends at the deadline.
\<close>

section \<open>No mismatch means agreement\<close>

definition agrees :: "view_spec \<Rightarrow> answer \<Rightarrow> answer \<Rightarrow> bool" where
  "agrees v E A \<longleftrightarrow>
     (\<forall>k \<in> fst ` set E \<union> fst ` set A. \<exists>es xs. dict_get keys_eq E k = Some es \<and> dict_get keys_eq A k = Some xs \<and>
        length es = length (aggregates v) \<and> length xs = length (aggregates v) \<and>
        (\<forall>i < length (aggregates v). cells_match (agg_fn (aggregates v ! i)) (es ! i) (xs ! i) = Inr True))"

definition aggs_agree :: "agg_spec list \<Rightarrow> pyval list \<Rightarrow> pyval list \<Rightarrow> bool" where
  "aggs_agree as es xs \<longleftrightarrow> length es = length as \<and> length xs = length as \<and>
     (\<forall>i < length as. cells_match (agg_fn (as ! i)) (es ! i) (xs ! i) = Inr True)"

lemma aggs_agree_Cons:
  "aggs_agree (a # as) (e # es) (x # xs) \<longleftrightarrow> cells_match (agg_fn a) e x = Inr True \<and> aggs_agree as es xs"
  by (auto simp: aggs_agree_def less_Suc_eq_0_disj nth_Cons')

lemma compare_aggs_zero:
  "compare_aggs label as es xs = Inr (t, n) \<Longrightarrow> 0 \<le> n \<and> (n = 0 \<longleftrightarrow> aggs_agree as es xs)"
proof (induction label as es xs arbitrary: t n rule: compare_aggs.induct)
  case (2 label a as e es x xs)
  obtain ok where ok: "cells_match (agg_fn a) e x = Inr ok" using 2(2) by (auto simp: bindE_eq_Inr)
  obtain t' n' where rest: "compare_aggs label as es xs = Inr (t', n')" "n = (if ok then n' else n' + 1)"
    using 2(2) by (auto simp: bindE_eq_Inr ok)
  have "0 \<le> n' \<and> (n' = 0 \<longleftrightarrow> aggs_agree as es xs)" by (rule 2(1) [OF ok rest(1)])
  then show ?case using ok rest(2) by (cases ok) (auto simp: aggs_agree_Cons)
qed (auto simp: aggs_agree_def)

lemma compare_key_zero:
  assumes "compare_key v E A key = Inr (t, n)"
  shows "0 \<le> n \<and> (n = 0 \<longleftrightarrow> (\<exists>es xs. dict_get keys_eq E key = Some es \<and> dict_get keys_eq A key = Some xs \<and>
    aggs_agree (aggregates v) es xs))"
  using assms compare_aggs_zero by (fastforce simp: compare_key_def bindE_eq_Inr split: option.splits)

lemma sum_zero: "\<forall>x \<in> set xs. 0 \<le> x \<Longrightarrow> 0 \<le> sum_list xs \<and> (sum_list xs = 0 \<longleftrightarrow> (\<forall>x \<in> set xs. x = 0))" for xs :: "int list"
proof (induction xs)
  case (Cons x xs)
  then have "0 \<le> x" "0 \<le> sum_list xs \<and> (sum_list xs = 0 \<longleftrightarrow> (\<forall>x \<in> set xs. x = 0))" by auto
  then show ?case by (auto simp: add_nonneg_eq_0_iff)
qed simp

lemma mapE_at: "mapE f xs = Inr ys \<Longrightarrow> x \<in> set xs \<Longrightarrow> \<exists>y \<in> set ys. f x = Inr y"
  "mapE f xs = Inr ys \<Longrightarrow> y \<in> set ys \<Longrightarrow> \<exists>x \<in> set xs. f x = Inr y"
  by (induction xs arbitrary: ys) (auto simp: bindE_eq_Inr)

definition key_agrees :: "view_spec \<Rightarrow> answer \<Rightarrow> answer \<Rightarrow> pyval list \<Rightarrow> bool" where
  "key_agrees v E A key \<longleftrightarrow>
     (\<exists>es xs. dict_get keys_eq E key = Some es \<and> dict_get keys_eq A key = Some xs \<and> aggs_agree (aggregates v) es xs)"

text \<open>A key of the second answer that the first has too is compared under the first's.\<close>

lemma all_keys_agree:
  "(\<forall>key \<in> set (all_keys E A). key_agrees v E A key) \<longleftrightarrow> agrees v E A"
proof -
  have "key_agrees v E A key" if all: "\<forall>key \<in> set (all_keys E A). key_agrees v E A key" and key: "key \<in> fst ` set A" for key
  proof (cases "dict_get keys_eq E key")
    case None
    then have "key \<in> set (all_keys E A)" using key by (auto simp: all_keys_def)
    then show ?thesis using all by blast
  next
    case (Some es)
    then obtain k' where k': "(k', es) \<in> set E" "keys_eq k' key" using groupdict.get_entry [OF Some] by blast
    then have "k' \<in> set (all_keys E A)" by (force simp: all_keys_def)
    then have "key_agrees v E A k'" using all by blast
    then show ?thesis by (simp add: key_agrees_def groupdict.get_cong [OF k'(2), symmetric])
  qed
  then have second: "(\<forall>key \<in> set (all_keys E A). key_agrees v E A key) \<longrightarrow> (\<forall>key \<in> fst ` set A. key_agrees v E A key)"
    by simp
  have keys: "set (all_keys E A) = fst ` set E \<union> {k \<in> fst ` set A. dict_get keys_eq E k = None}"
    by (auto simp: all_keys_def)
  have spelled: "agrees v E A \<longleftrightarrow> (\<forall>key \<in> fst ` set E \<union> fst ` set A. key_agrees v E A key)"
    by (simp only: agrees_def key_agrees_def aggs_agree_def)
  show ?thesis
  proof
    assume all: "\<forall>key \<in> set (all_keys E A). key_agrees v E A key"
    then have "\<forall>key \<in> fst ` set A. key_agrees v E A key" using second by (rule mp [rotated])
    moreover have "\<forall>key \<in> fst ` set E. key_agrees v E A key" using all unfolding keys ball_Un by (rule conjunct1)
    ultimately show "agrees v E A" unfolding spelled ball_Un by (intro conjI)
  next
    assume "agrees v E A"
    then have all: "\<forall>key \<in> fst ` set E \<union> fst ` set A. key_agrees v E A key" unfolding spelled .
    show "\<forall>key \<in> set (all_keys E A). key_agrees v E A key"
      by (rule ballI, rule bspec [OF all]) (auto simp: all_keys_def)
  qed
qed

lemma compare_all_zero:
  assumes "compare_all v E A = Inr (t, n)"
  shows "0 \<le> n \<and> (n = 0 \<longleftrightarrow> agrees v E A)"
proof -
  obtain ps where ps: "mapE (compare_key v E A) (all_keys E A) = Inr ps" and n: "n = sum_list (map snd ps)"
    using assms by (auto simp: compare_all_def bindE_eq_Inr)
  have key: "0 \<le> x \<and> (x = 0 \<longleftrightarrow> key_agrees v E A key)" if "compare_key v E A key = Inr (t', x)" for key t' x
    using compare_key_zero [OF that] by (simp add: key_agrees_def)
  have one: "\<exists>key \<in> set (all_keys E A). compare_key v E A key = Inr (t', x)" if "(t', x) \<in> set ps" for t' x
    using mapE_at(2) [OF ps that] .
  have origin: "\<exists>key \<in> set (all_keys E A). 0 \<le> x \<and> (x = 0 \<longleftrightarrow> key_agrees v E A key)" if x: "x \<in> set (map snd ps)" for x
  proof -
    obtain t' where "(t', x) \<in> set ps" using x by auto
    then obtain key where k: "key \<in> set (all_keys E A)" "compare_key v E A key = Inr (t', x)" using one by blast
    show ?thesis using key [OF k(2)] k(1) by (rule bexI)
  qed
  have "(\<forall>x \<in> set (map snd ps). x = 0) \<longleftrightarrow> (\<forall>key \<in> set (all_keys E A). key_agrees v E A key)"
  proof (intro iffI ballI)
    fix k assume zero: "\<forall>x \<in> set (map snd ps). x = 0" and k: "k \<in> set (all_keys E A)"
    obtain p where p: "p \<in> set ps" "compare_key v E A k = Inr p" using mapE_at(1) [OF ps k] by blast
    obtain t' x where x: "p = (t', x)" by (cases p)
    have "x = 0" using zero p(1) x by auto
    then show "key_agrees v E A k" using key [OF p(2) [unfolded x]] by simp
  next
    fix x assume good: "\<forall>key \<in> set (all_keys E A). key_agrees v E A key" and x: "x \<in> set (map snd ps)"
    then show "x = 0" using origin [OF x] by auto
  qed
  moreover have "\<forall>x \<in> set (map snd ps). 0 \<le> x"
  proof
    fix x assume "x \<in> set (map snd ps)"
    from origin [OF this] show "0 \<le> x" by auto
  qed
  then have "0 \<le> n \<and> (n = 0 \<longleftrightarrow> (\<forall>x \<in> set (map snd ps). x = 0))" unfolding n by (rule sum_zero)
  ultimately show ?thesis using all_keys_agree [of E A v] by simp
qed

text \<open>C38: The mismatch count of a comparison is never negative, and is zero exactly when the two answers have the same groups and all their aggregate values match.\<close>
theorem mismatches_exact:
  assumes "compare_all v E A = Inr (t, n)"
  shows "0 \<le> n \<and> (n = 0 \<longleftrightarrow> agrees v E A)"
  using assms by (rule compare_all_zero)

section \<open>What exit code 0 means\<close>

text \<open>A count is never negative.\<close>

definition counts_ok :: "probe server \<Rightarrow> bool" where
  "counts_ok sv \<longleftrightarrow>
     (\<forall>h q r k. error_of (sv h (dead_query q)) = Inr r \<longrightarrow> bindE (fetch_cell 0 r) as_int = Inr k \<longrightarrow> 0 \<le> k)"

definition checked :: "probe server \<Rightarrow> view_spec \<Rightarrow> bool" where
  "checked sv v \<longleftrightarrow>
     (\<exists>gt tt h h' r r'. ground_truth_sql v = Inr gt \<and> target_sql v = Inr tt \<and>
        error_of (sv h (Inquire gt [])) = Inr r \<and> error_of (sv h' (Inquire tt [])) = Inr r' \<and>
        agrees v (keyed (length (group_by v)) (fst r)) (keyed (length (group_by v)) (fst r')))"

lemmas talk_eqs = andthen_eq say_def pure_def perform_def local_def

lemma dead_nonneg:
  assumes "counts_ok sv" "dead_group_count sv v h = (Inr n, h')"
  shows "0 \<le> n"
  using assms by (auto simp: dead_group_count_def counts_ok_def talk_eqs split: if_splits)

lemma verify_view_zero:
  assumes "counts_ok sv" "verify_view sv v h = (Inr n, h')"
  shows "0 \<le> n \<and> (n = 0 \<longrightarrow> checked sv v)"
proof -
  obtain gt h1 E h2 tt h3 A h4 p h5 where
      q: "ground_truth_sql v = Inr gt" "rows_talk sv gt (length (group_by v)) h1 = (Inr E, h2)"
         "target_sql v = Inr tt" "rows_talk sv tt (length (group_by v)) h3 = (Inr A, h4)"
    and c: "compare_all v E A = Inr p"
    and rest: "(\<lambda>(rows, mismatches).
      andthen (local (Show ([newline] @ ''view '' @ view_name v @ ''  (walflux.'' @ view_name v @
       '' vs GROUP BY over '' @ source_schema v @ ''.'' @ source_table v @ '')''))) (\<lambda>_.
     andthen (local (Show (render_table [''group'', ''column'', ''ground truth'', ''walflux'', ''result''] rows))) (\<lambda>_.
     andthen (dead_group_count sv v) (\<lambda>dead.
       if dead \<noteq> 0
       then andthen (local (Show (''MISMATCH: '' @ int_text 10 dead @ '' group row(s) with __walflux_rows <= 0 were not cleaned up''))) (\<lambda>_.
              say (mismatches + dead))
       else say mismatches)))) p h5 = (Inr n, h')"
    using assms(2) unfolding verify_view_def andthen_eq pure_def by blast
  obtain t m where p: "p = (t, m)" by (cases p)
  obtain h6 d h7 where d: "dead_group_count sv v h6 = (Inr d, h7)" "n = m + d"
    using rest by (auto simp: p andthen_eq say_def split: if_splits)
  have "0 \<le> d" using dead_nonneg [OF assms(1) d(1)] .
  moreover have "0 \<le> m \<and> (m = 0 \<longleftrightarrow> agrees v E A)" using compare_all_zero c p by simp
  moreover obtain r where r: "error_of (sv h1 (Inquire gt [])) = Inr r" "E = keyed (length (group_by v)) (fst r)"
    using q(2) by (auto simp: rows_talk_def talk_eqs)
  moreover obtain r' where r': "error_of (sv h3 (Inquire tt [])) = Inr r'" "A = keyed (length (group_by v)) (fst r')"
    using q(4) by (auto simp: rows_talk_def talk_eqs)
  ultimately have "0 \<le> n" "n = 0 \<longrightarrow> agrees v (keyed (length (group_by v)) (fst r)) (keyed (length (group_by v)) (fst r'))"
    using d(2) by auto
  then show ?thesis using q(1,3) r(1) r'(1) unfolding checked_def by blast
qed

lemma each_results: "each f xs h = (Inr ys, h') \<Longrightarrow> list_all2 (\<lambda>x y. \<exists>h0 h1. f x h0 = (Inr y, h1)) xs ys"
  by (induction xs arbitrary: h ys h') (auto simp: andthen_eq say_def)

lemma zero_sum_all:
  "list_all2 (\<lambda>v n. 0 \<le> n \<and> (n = 0 \<longrightarrow> P v)) vs ns \<Longrightarrow> 0 \<le> sum_list ns \<and> (sum_list ns = 0 \<longrightarrow> (\<forall>v \<in> set vs. P v))"
  for ns :: "int list"
  by (induction rule: list_all2_induct) (auto simp: add_nonneg_eq_0_iff)

lemma compare_views_zero:
  assumes "counts_ok sv" "compare_views sv vs h = (Inr 0, h')"
  shows "\<forall>v \<in> set vs. checked sv v"
proof -
  obtain ns h1 h2 where ns: "each (verify_view sv) vs h1 = (Inr ns, h2)" "sum_list ns = 0"
    using assms(2) by (auto simp: compare_views_def talk_eqs split: if_splits)
  have "list_all2 (\<lambda>v n. 0 \<le> n \<and> (n = 0 \<longrightarrow> checked sv v)) vs ns"
    by (rule list_all2_mono [OF each_results [OF ns(1)]]) (use verify_view_zero [OF assms(1)] in blast)
  from zero_sum_all [OF this] ns(2) show ?thesis by simp
qed

section \<open>Waiting for the daemon\<close>

lemma await_step:
  assumes "await sv n goal in_time ((check, now) # clock) reported h = (Inr out, h')"
  shows "\<not> in_time check \<and> out = Some False \<or>
    (\<exists>ckpt h0. in_time check \<and> saved_checkpoint sv n h = (Inr ckpt, h0) \<and>
       (if reached goal ckpt then out = Some True
        else \<exists>l h1. await sv n goal in_time clock l h1 = (Inr out, h')))"
proof (cases "in_time check")
  case True
  then show ?thesis using assms unfolding await.simps(2) by (auto simp: andthen_eq say_def split: if_splits)
qed (use assms in \<open>simp add: say_def\<close>)

lemma await_true:
  "await sv n goal in_time clock reported h = (Inr (Some True), h') \<Longrightarrow>
   \<exists>h0 h1 k. saved_checkpoint sv n h0 = (Inr (Some k), h1) \<and> goal \<le> k"
proof (induction clock arbitrary: reported h)
  case (Cons c clock)
  obtain check now where c: "c = (check, now)" by (cases c)
  obtain ckpt h0 where ck: "saved_checkpoint sv n h = (Inr ckpt, h0)"
    and rest: "if reached goal ckpt then True else \<exists>l h1. await sv n goal in_time clock l h1 = (Inr (Some True), h')"
    using await_step [OF Cons.prems [unfolded c]] by auto
  show ?case
  proof (cases "reached goal ckpt")
    case True
    then show ?thesis using ck by (auto simp: reached_def split: option.splits)
  next
    case False
    then show ?thesis using rest Cons.IH by auto
  qed
qed (simp add: say_def)

lemma await_ends:
  "\<exists>c \<in> set clock. \<not> in_time (fst c) \<Longrightarrow> await sv n goal in_time clock reported h \<noteq> (Inr None, h')"
proof (induction clock arbitrary: reported h)
  case (Cons c clock)
  obtain check now where c: "c = (check, now)" by (cases c)
  show ?case
  proof
    assume "await sv n goal in_time (c # clock) reported h = (Inr None, h')"
    from await_step [OF this [unfolded c]] have "in_time check" "\<exists>l h1. await sv n goal in_time clock l h1 = (Inr None, h')"
      by (auto split: if_splits)
    moreover have "\<exists>c \<in> set clock. \<not> in_time (fst c)" using Cons.prems c calculation(1) by auto
    ultimately show False using Cons.IH by blast
  qed
qed simp



text \<open>A sum over a \<open>double precision\<close> column: the float's exact value is not the target's decimal.\<close>

lemma float_sum_mismatch:
  "cells_match ''sum'' (PFloat (float_of_decimal 1 (- 1))) (PDec (Fin 1 (- 1))) = Inr False"
  by code_simp

end
