(* ===== verification/Status.thy ===== *)
theory Status
  imports Server Daemon
begin

text \<open>
  Conversations of \<open>walflux run\<close> and \<open>walflux status\<close>: reading the checkpoint (\<open>checkpoint.py\<close>),
  with the hint of \<open>Daemon.run\<close>, and \<open>status()\<close> (\<open>daemon.py\<close>).
\<close>

section \<open>Reading the checkpoint\<close>

datatype call = Open | Sql string "pyval list" | Rollback | Shut

definition hang :: "(call, unit) talk" where
  "hang = (\<lambda>h. (Inr (), h @ [(Shut, Rows [] 0)]))"

definition checkpoint_query :: "string \<Rightarrow> call" where
  "checkpoint_query n = Sql ''SELECT commit_lsn FROM walflux.checkpoint WHERE slot = %s'' [PStr n]"

definition read_checkpoint :: "call server \<Rightarrow> string \<Rightarrow> (call, int option) talk" where
  "read_checkpoint sv n =
     andthen (perform sv (checkpoint_query n)) (\<lambda>r.
       (case fetch_one r of
          None \<Rightarrow> say None
        | Some rw \<Rightarrow> pure (bindE (row_cell 0 rw) (\<lambda>v. bindE (as_int v) (\<lambda>k. Inr (Some k))))))"

section \<open>The start of a run\<close>

definition checkpoint_or_hint :: "call server \<Rightarrow> string \<Rightarrow> (call, checkpoint_read) talk" where
  "checkpoint_or_hint sv n =
     catch (andthen (read_checkpoint sv n) (\<lambda>c. say (case c of None \<Rightarrow> NoRow | Some k \<Rightarrow> Row k)))
       (\<lambda>e. case e of PgError (UndefinedTable _) \<Rightarrow> say NoTable | _ \<Rightarrow> throw e)"

section \<open>Status\<close>

record status_info =
  i_slot :: string
  i_exists :: bool
  i_active :: "bool option"
  i_restart :: pyval
  i_confirmed :: pyval
  i_lag :: "int option"
  i_current :: pyval
  i_checkpoint :: "string option"
  i_views :: "(string, int option) dict"

definition slot_status_query :: "string \<Rightarrow> call" where
  "slot_status_query n = Sql
     (''SELECT active, restart_lsn::text, confirmed_flush_lsn::text, '' @
      ''pg_wal_lsn_diff(pg_current_wal_lsn(), confirmed_flush_lsn)::bigint '' @
      ''FROM pg_replication_slots WHERE slot_name = %s'') [PStr n]"

definition current_query :: call where
  "current_query = Sql ''SELECT pg_current_wal_lsn()::text'' []"

definition unless_db_error :: "('c, 'a option) talk \<Rightarrow> ('c, 'a option) talk" where
  "unless_db_error m = catch m (\<lambda>e. case e of PgError _ \<Rightarrow> say None | _ \<Rightarrow> throw e)"

definition count_of :: "string \<Rightarrow> call" where
  "count_of q = Sql (''SELECT count(*) FROM walflux.'' @ q) []"

definition view_count :: "call server \<Rightarrow> view_spec \<Rightarrow> (call, string \<times> int option) talk" where
  "view_count sv view =
     andthen (unless_db_error
       (andthen (pure (quote_ident (view_name view))) (\<lambda>q.
        andthen (perform sv (count_of q)) (\<lambda>r.
          pure (bindE (fetch_cell 0 r) (\<lambda>v. bindE (as_int v) (\<lambda>n. Inr (Some n)))))))) (\<lambda>n.
       say (view_name view, n))"

text \<open>The dictionary \<open>status()\<close> returns, from the row of the slot and what else was read.\<close>

definition status_report ::
    "config \<Rightarrow> pyval list option \<Rightarrow> pyval \<Rightarrow> int option \<Rightarrow> (string \<times> int option) list \<Rightarrow> status_info res" where
  "status_report cfg slot_row current checkpoint counts =
     (let info = \<lparr>i_slot = slot cfg, i_exists = slot_row \<noteq> None, i_active = None, i_restart = PNone, i_confirmed = PNone,
                  i_lag = None, i_current = current, i_checkpoint = map_option format_lsn checkpoint,
                  i_views = fold (\<lambda>(n, k) d. dict_set (=) n k d) counts []\<rparr>
      in case slot_row of
           None \<Rightarrow> Inr info
         | Some rw \<Rightarrow>
             bindE (row_cell 3 rw) (\<lambda>lag.
             bindE (row_cell 0 rw) (\<lambda>active.
             bindE (row_cell 1 rw) (\<lambda>restart.
             bindE (row_cell 2 rw) (\<lambda>flushed.
             bindE (if lag = PNone then Inr None else bindE (as_int lag) (\<lambda>n. Inr (Some n))) (\<lambda>n.
               Inr (info\<lparr>i_active := Some (py_truthy active), i_restart := restart, i_confirmed := flushed,
                         i_lag := n\<rparr>)))))))"

definition status :: "call server \<Rightarrow> config \<Rightarrow> (call, status_info) talk" where
  "status sv cfg =
     andthen (connect_with sv Open) (\<lambda>_.
       eventually_do
         (andthen (perform sv (slot_status_query (slot cfg))) (\<lambda>slot_row.
          andthen (perform sv current_query) (\<lambda>r.
          andthen (pure (fetch_cell 0 r)) (\<lambda>current.
          andthen (unless_db_error (read_checkpoint sv (slot cfg))) (\<lambda>checkpoint.
          andthen (each (view_count sv) (views cfg)) (\<lambda>counts.
            pure (status_report cfg (fetch_one slot_row) current checkpoint counts)))))))
         hang)"

section \<open>What a run starts from\<close>

text \<open>What the reply to the checkpoint query comes to; \<open>None\<close> where the daemon stops with another error.\<close>

definition checkpoint_of :: "reply \<Rightarrow> checkpoint_read option" where
  "checkpoint_of r =
     (case error_of r of
        Inl (PgError (UndefinedTable _)) \<Rightarrow> Some NoTable
      | Inl _ \<Rightarrow> None
      | Inr p \<Rightarrow>
          (case fetch_one p of
             None \<Rightarrow> Some NoRow
           | Some rw \<Rightarrow> (case bindE (row_cell 0 rw) as_int of Inl _ \<Rightarrow> None | Inr k \<Rightarrow> Some (Row k))))"

lemmas talk_defs = andthen_def say_def throw_def pure_def perform_def catch_def eventually_do_def hang_def

lemma as_int_not_pg: "as_int v \<noteq> Inl (PgError e)"
  by (induction v rule: as_int.induct) (auto simp: py_int_def Let_def split: if_splits option.splits prod.splits)

lemma checkpoint_or_hint_result:
  "case fst (checkpoint_or_hint sv n h) of
     Inl e \<Rightarrow> checkpoint_of (sv h (checkpoint_query n)) = None
   | Inr read \<Rightarrow> checkpoint_of (sv h (checkpoint_query n)) = Some read"
  "snd (checkpoint_or_hint sv n h) = h @ [(checkpoint_query n, sv h (checkpoint_query n))]"
  using as_int_not_pg
  by (auto simp: checkpoint_or_hint_def read_checkpoint_def talk_defs checkpoint_of_def row_cell_def bindE_def
      split: sum.splits option.splits exn.splits db_error.splits if_splits prod.splits)

section \<open>What the status shows\<close>

definition quoted :: "string \<Rightarrow> string" where
  "quoted n = [CHR 0x22] @ n @ [CHR 0x22]"

text \<open>
  A server in a given condition: its slot, if there is one, its WAL position, the checkpoint (or the
  error of reading it) and the size of each target table (or the error of counting it).
\<close>

record condition =
  a_slot :: "(bool \<times> string \<times> string \<times> int) option"
  a_lsn :: string
  a_checkpoint :: "db_error + int option"
  a_counts :: "string \<Rightarrow> db_error + int"

definition answers :: "condition \<Rightarrow> config \<Rightarrow> call server \<Rightarrow> bool" where
  "answers a cfg sv \<longleftrightarrow>
     (\<forall>h. \<not> isl (error_of (sv h Open)) \<and>
       error_of (sv h (slot_status_query (slot cfg))) =
         Inr (case a_slot a of None \<Rightarrow> ([], 0) | Some (on, restart, flushed, lag) \<Rightarrow>
                ([[PBool on, PStr restart, PStr flushed, PInt lag]], 1)) \<and>
       error_of (sv h current_query) = Inr ([[PStr (a_lsn a)]], 1) \<and>
       error_of (sv h (checkpoint_query (slot cfg))) =
         (case a_checkpoint a of Inl e \<Rightarrow> Inl (PgError e) | Inr None \<Rightarrow> Inr ([], 0) | Inr (Some k) \<Rightarrow> Inr ([[PInt k]], 1)) \<and>
       (\<forall>n. error_of (sv h (count_of (quoted n))) =
         (case a_counts a n of Inl e \<Rightarrow> Inl (PgError e) | Inr k \<Rightarrow> Inr ([[PInt k]], 1))))"

definition known :: "'e + 'a \<Rightarrow> 'a option" where
  "known r = (case r of Inl _ \<Rightarrow> None | Inr k \<Rightarrow> Some k)"

lemma count_one:
  assumes "answers a cfg sv" "quote_ident (view_name v) = Inr (quoted (view_name v))"
  shows "\<exists>h'. view_count sv v h = (Inr (view_name v, known (a_counts a (view_name v))), h')"
  using assms
  by (auto simp: answers_def view_count_def unless_db_error_def talk_defs known_def
      fetch_cell_def row_cell_def split: sum.splits)

lemma count_all:
  assumes "answers a cfg sv" "\<And>v. v \<in> set vs \<Longrightarrow> quote_ident (view_name v) = Inr (quoted (view_name v))"
  shows "\<exists>h'. each (view_count sv) vs h = (Inr (map (\<lambda>v. (view_name v, known (a_counts a (view_name v)))) vs), h')"
  using assms(2)
proof (induction vs arbitrary: h)
  case (Cons v vs)
  obtain h1 where h1: "view_count sv v h = (Inr (view_name v, known (a_counts a (view_name v))), h1)"
    using count_one [OF assms(1), of v h] Cons.prems by auto
  show ?case using Cons.IH [of h1] Cons.prems by (auto simp: andthen_def say_def h1)
qed (simp add: say_def)

lemma read_known:
  assumes "answers a cfg sv"
  shows "unless_db_error (read_checkpoint sv (slot cfg)) h =
    (Inr (case a_checkpoint a of Inl _ \<Rightarrow> None | Inr k \<Rightarrow> k),
     h @ [(checkpoint_query (slot cfg), sv h (checkpoint_query (slot cfg)))])"
  using assms
  by (auto simp: answers_def unless_db_error_def read_checkpoint_def talk_defs fetch_one_def row_cell_def
      split: sum.splits option.splits)

lemma dict_of_new: "distinct (map fst ps) \<Longrightarrow> fst ` set d \<inter> fst ` set ps = {} \<Longrightarrow>
    fold (\<lambda>(n, k) d. dict_set (=) n k d) ps d = d @ ps" for ps d :: "(string \<times> 'v) list"
proof (induction ps arbitrary: d)
  case (Cons p ps)
  obtain n k where p: "p = (n, k)" by (cases p)
  have "dict_set (=) n k d = d @ [(n, k)]" using Cons.prems p by (intro dict_set_new) auto
  then show ?case using Cons p by auto
qed simp


end
