(* ===== verification/Replication.thy ===== *)
theory Replication
  imports Connect Protocol
begin

text \<open>
  \<open>walflux/replication.py\<close>: the stream of one replication slot.

  One round of the loop of \<open>messages()\<close> is a \<open>round\<close>: what \<open>read_message()\<close> returned, the clock
  readings the code takes (in seconds), whether a stop request arrived before one of the two
  places that look at it, and the positions the consumer acknowledges while it holds the item
  that was yielded.  What the stream does is a list of \<open>stream_effect\<close>s in order.
\<close>

section \<open>The stream\<close>

record stream =
  flush_lsn :: int
  last_feedback :: rat
  stopping :: bool

datatype stream_effect =
    StartReplication string string
  | SendFeedback int
  | Wait rat
  | Yield "(int \<times> bytes) option"
  | CloseCursor
  | CloseConnection

definition wake_default :: rat where "wake_default = 1"
definition keepalive_seconds :: rat where "keepalive_seconds = 10"

text \<open>\<open>failed\<close> is the error of \<open>start_replication\<close>, if it raises; nothing catches it.\<close>

definition open_stream ::
    "connect_outcome \<Rightarrow> db_error option \<Rightarrow> string \<Rightarrow> string \<Rightarrow> rat \<Rightarrow> (stream_effect list \<times> stream) res" where
  "open_stream c failed slot publication now =
     bindE (connect c) (\<lambda>_.
       (case failed of
          Some e \<Rightarrow> Inl (PgError e)
        | None \<Rightarrow> Inr ([StartReplication slot publication],
            \<lparr>flush_lsn = 0, last_feedback = now, stopping = False\<rparr>)))"

definition ack :: "int \<Rightarrow> rat \<Rightarrow> stream \<Rightarrow> stream_effect list \<times> stream" where
  "ack lsn now s = ([SendFeedback lsn], s\<lparr>flush_lsn := lsn, last_feedback := now\<rparr>)"

definition stop :: "stream \<Rightarrow> stream" where
  "stop s = s\<lparr>stopping := True\<rparr>"

text \<open>An exception while closing is swallowed, so both are always closed.\<close>

definition close_stream :: "stream \<Rightarrow> stream_effect list \<times> stream" where
  "close_stream s = ([CloseCursor, CloseConnection], s\<lparr>stopping := True\<rparr>)"

definition keepalive_if_due :: "rat \<Rightarrow> rat \<Rightarrow> stream \<Rightarrow> stream_effect list \<times> stream" where
  "keepalive_if_due now sent s =
     (if now - last_feedback s \<ge> keepalive_seconds
      then ([SendFeedback (flush_lsn s)], s\<lparr>last_feedback := sent\<rparr>) else ([], s))"

section \<open>The loop\<close>

record round =
  stops :: bool
  received :: "(int \<times> bytes) option"
  due_at :: rat
  sent_at :: rat
  remains_at :: rat
  woke_at :: rat
  stops_late :: bool
  yielded_at :: rat
  acks :: "(int \<times> rat) list"

fun consumer_acks :: "(int \<times> rat) list \<Rightarrow> stream \<Rightarrow> stream_effect list \<times> stream" where
  "consumer_acks [] s = ([], s)"
| "consumer_acks ((lsn, now) # as) s =
     (let (es, s) = ack lsn now s; (fs, s) = consumer_acks as s in (es @ fs, s))"

text \<open>The \<open>select\<close> of a round that received nothing, and a stop request that arrives by its end.\<close>

definition waits :: "rat \<Rightarrow> round \<Rightarrow> rat \<Rightarrow> stream_effect list" where
  "waits wake t l = (if wake - (remains_at t - l) > 0 then [Wait (wake - (remains_at t - l))] else [])"

definition after_late :: "round \<Rightarrow> stream \<Rightarrow> stream" where
  "after_late t k = (if stops_late t then stop k else k)"

text \<open>One round; the second component of the state is \<open>last_yield\<close>.\<close>

definition pump :: "rat \<Rightarrow> round \<Rightarrow> stream \<times> rat \<Rightarrow> stream_effect list \<times> stream \<times> rat" where
  "pump wake t p =
     (let (s, l) = p
      in case received t of
           Some m \<Rightarrow> let (es, s) = consumer_acks (acks t) s in (Yield (Some m) # es, s, yielded_at t)
         | None \<Rightarrow>
             let (ks, k) = keepalive_if_due (due_at t) (sent_at t) s;
                 z = after_late t k
             in if woke_at t - l \<ge> wake \<and> \<not> stopping z
                then let (fs, z) = consumer_acks (acks t) z in (ks @ waits wake t l @ Yield None # fs, z, yielded_at t)
                else (ks @ waits wake t l, z, l))"

definition heed :: "round \<Rightarrow> stream \<times> rat \<Rightarrow> stream \<times> rat" where
  "heed t p = (if stops t then (stop (fst p), snd p) else p)"

definition pump_or_end :: "rat \<Rightarrow> round \<Rightarrow> stream \<times> rat \<Rightarrow> stream_effect list \<times> stream \<times> rat" where
  "pump_or_end wake t p = (if stopping (fst (heed t p)) then ([], heed t p) else pump wake t (heed t p))"

text \<open>Once the stream is stopping, no further round does anything: the generator has ended.\<close>

fun messages :: "rat \<Rightarrow> round list \<Rightarrow> stream \<times> rat \<Rightarrow> stream_effect list \<times> stream \<times> rat" where
  "messages wake [] p = ([], p)"
| "messages wake (t # ts) p =
     (let (es, p) = pump_or_end wake t p; (fs, p) = messages wake ts p in (es @ fs, p))"

section \<open>What is yielded\<close>

text \<open>The rounds that run before a stop request is seen.\<close>

fun served :: "bool \<Rightarrow> round list \<Rightarrow> round list" where
  "served stopped [] = []"
| "served stopped (t # ts) =
     (if stopped \<or> stops t then []
      else t # served (received t = None \<and> stops_late t) ts)"

definition yielded :: "stream_effect list \<Rightarrow> (int \<times> bytes) list" where
  "yielded es = List.map_filter (\<lambda>e. case e of Yield m \<Rightarrow> m | _ \<Rightarrow> None) es"

definition positions :: "stream_effect list \<Rightarrow> int list" where
  "positions es = List.map_filter (\<lambda>e. case e of SendFeedback l \<Rightarrow> Some l | _ \<Rightarrow> None) es"

lemma effects_simps [simp]:
  "yielded [] = []" "yielded (es @ fs) = yielded es @ yielded fs"
  "yielded (Yield m # es) = (case m of None \<Rightarrow> [] | Some x \<Rightarrow> [x]) @ yielded es"
  "yielded (SendFeedback l # es) = yielded es" "yielded (Wait r # es) = yielded es"
  "positions [] = []" "positions (es @ fs) = positions es @ positions fs"
  "positions (Yield m # es) = positions es"
  "positions (SendFeedback l # es) = l # positions es" "positions (Wait r # es) = positions es"
  by (simp_all add: yielded_def positions_def List.map_filter_def split: option.splits)

lemma acks_effects:
  "consumer_acks as s = (es, s') \<Longrightarrow>
     yielded es = [] \<and> positions es = map fst as \<and> stopping s' = stopping s \<and>
     flush_lsn s' = last (flush_lsn s # map fst as) \<and>
     (last_feedback s' = last_feedback s \<or> last_feedback s' \<in> snd ` set as)"
proof (induction as s arbitrary: es s' rule: consumer_acks.induct)
  case (2 lsn now as s)
  then show ?case by (auto simp: ack_def split: prod.splits)
qed simp

lemma keepalive_effects:
  "keepalive_if_due now sent s = (es, s') \<Longrightarrow>
     yielded es = [] \<and> set (positions es) \<subseteq> {flush_lsn s} \<and> length (positions es) \<le> 1 \<and>
     flush_lsn s' = flush_lsn s \<and> stopping s' = stopping s \<and>
     (if keepalive_seconds \<le> now - last_feedback s then last_feedback s' = sent else last_feedback s' = last_feedback s)"
  by (auto simp: keepalive_if_due_def split: if_splits)

lemma messages_stopped:
  "stopping (fst p) \<Longrightarrow> fst (messages wake ts p) = [] \<and> stopping (fst (snd (messages wake ts p)))"
proof (induction ts arbitrary: p)
  case (Cons t ts)
  then show ?case by (simp add: pump_or_end_def heed_def stop_def Let_def split: prod.splits)
qed simp

lemma waits_effects [simp]: "yielded (waits wake t l) = []" "positions (waits wake t l) = []"
  by (simp_all add: waits_def)

lemma after_late_simps [simp]:
  "flush_lsn (after_late t k) = flush_lsn k" "last_feedback (after_late t k) = last_feedback k"
  "stopping (after_late t k) \<longleftrightarrow> stopping k \<or> stops_late t"
  by (simp_all add: after_late_def stop_def)

lemma pump_cases [consumes 1, case_names message wake idle]:
  assumes "pump wake t (s, l) = (es, s', l')"
  obtains m fs where "received t = Some m" "consumer_acks (acks t) s = (fs, s')" "es = Yield (Some m) # fs" "l' = yielded_at t"
  | ks k fs where "received t = None" "keepalive_if_due (due_at t) (sent_at t) s = (ks, k)" "woke_at t - l \<ge> wake"
      "\<not> stopping (after_late t k)" "consumer_acks (acks t) (after_late t k) = (fs, s')"
      "es = ks @ waits wake t l @ Yield None # fs" "l' = yielded_at t"
  | ks k where "received t = None" "keepalive_if_due (due_at t) (sent_at t) s = (ks, k)"
      "\<not> (woke_at t - l \<ge> wake \<and> \<not> stopping (after_late t k))" "es = ks @ waits wake t l" "s' = after_late t k" "l' = l"
proof (cases "received t")
  case (Some m)
  then show thesis using assms that(1) by (auto simp: pump_def split: prod.splits)
next
  case None
  obtain ks k where ka: "keepalive_if_due (due_at t) (sent_at t) s = (ks, k)" by fastforce
  obtain fs y where fs: "consumer_acks (acks t) (after_late t k) = (fs, y)" by fastforce
  show thesis
  proof (cases "woke_at t - l \<ge> wake \<and> \<not> stopping (after_late t k)")
    case True
    then have "es = ks @ waits wake t l @ Yield None # fs \<and> s' = y \<and> l' = yielded_at t"
      using assms None ka fs by (auto simp: pump_def Let_def)
    then show ?thesis using that(2) None ka fs True by blast
  next
    case False
    then have "es = ks @ waits wake t l \<and> s' = after_late t k \<and> l' = l"
      using assms None ka by (auto simp: pump_def Let_def split: if_splits)
    then show ?thesis using that(3) None ka False by blast
  qed
qed

text \<open>What one round does to a stream that is not stopping.\<close>

lemma pump_effects:
  assumes "pump wake t (s, l) = (es, s', l')" "\<not> stopping s"
  shows "yielded es = (case received t of None \<Rightarrow> [] | Some m \<Rightarrow> [m])"
    and "stopping s' \<longleftrightarrow> received t = None \<and> stops_late t"
  using assms(1)
  by (cases rule: pump_cases; use assms(2) in \<open>auto dest!: acks_effects keepalive_effects\<close>)+

lemma pump_positions:
  assumes "pump wake t (s, l) = (es, s', l')"
  shows "\<exists>ps as. positions es = ps @ as \<and> set ps \<subseteq> {flush_lsn s} \<and> length ps \<le> 1 \<and> as \<in> {[], map fst (acks t)} \<and>
    flush_lsn s' = last (flush_lsn s # as) \<and> (received t \<noteq> None \<longrightarrow> ps = [])"
  using assms
proof (cases rule: pump_cases)
  case (message m fs)
  then show ?thesis using acks_effects [of "acks t" s] by (intro exI [of _ "[]"] exI [of _ "map fst (acks t)"]) auto
next
  case (wake ks k fs)
  have "positions es = positions ks @ map fst (acks t)" "flush_lsn s' = last (flush_lsn s # map fst (acks t))"
    using acks_effects [OF wake(5)] keepalive_effects [OF wake(2)] wake(6) by simp_all
  with keepalive_effects [OF wake(2)] wake(1) show ?thesis by blast
next
  case (idle ks k)
  have "positions es = positions ks @ []" "flush_lsn s' = last (flush_lsn s # [])"
    using keepalive_effects [OF idle(2)] idle(4,5) by simp_all
  with keepalive_effects [OF idle(2)] idle(1) show ?thesis by blast
qed

lemma messages_end: "stopping s \<or> stops t \<Longrightarrow> fst (messages wake (t # ts) (s, l)) = []"
  using messages_stopped [of "(if stops t then stop s else s, l)" wake ts]
  by (auto simp: pump_or_end_def heed_def stop_def Let_def split: prod.splits)

lemma messages_run:
  "\<not> (stopping s \<or> stops t) \<Longrightarrow> pump wake t (s, l) = (es, p) \<Longrightarrow>
   messages wake (t # ts) (s, l) = (es @ fst (messages wake ts p), snd (messages wake ts p))"
  by (simp add: pump_or_end_def heed_def split: prod.splits)

lemma yielded_served:
  "yielded (fst (messages wake ts (s, l))) = List.map_filter received (served (stopping s) ts)"
proof (induction ts arbitrary: s l)
  case (Cons t ts)
  show ?case
  proof (cases "stopping s \<or> stops t")
    case True
    then show ?thesis by (auto simp: messages_end List.map_filter_def simp del: messages.simps)
  next
    case False
    obtain es s' l' where p: "pump wake t (s, l) = (es, s', l')" using prod_cases3 by blast
    with False pump_effects [OF p] Cons [of s' l'] show ?thesis
      by (simp add: messages_run [OF _ p] List.map_filter_def del: messages.simps split: option.splits)
  qed
qed (simp add: List.map_filter_def)

text \<open>C29: messages() yields every message it reads from the server, each once and in the order read, until it sees a stop request, and nothing after that.\<close>
theorem yields_what_it_reads:
  "yielded (fst (messages wake ts (s, l))) = List.map_filter received (served (stopping s) ts)"
  by (rule yielded_served)

section \<open>Reported positions\<close>

text \<open>The positions of the consumer's acknowledgements, in order, over a list of rounds.\<close>

definition acked :: "round list \<Rightarrow> int list" where
  "acked ts = concat (map (map fst \<circ> acks) ts)"

lemma report_step:
  assumes "sorted (e # qs)" "set qs \<subseteq> insert e A"
    and "sorted as" "\<forall>x \<in> set as. f \<le> x" "e = last (f # as)" "set ps \<subseteq> {f}" "length ps \<le> Suc 0"
  shows "sorted (f # (ps @ as) @ qs) \<and> set ((ps @ as) @ qs) \<subseteq> insert f (set as \<union> A)"
proof -
  have le: "\<forall>x \<in> set as. x \<le> e" and "f \<le> e" and e: "e \<in> insert f (set as)"
    using assms(3,4,5) by (induction as rule: rev_induct) (auto simp: sorted_append)
  have "sorted ps" using assms(7) by (cases ps) auto
  moreover have "sorted qs" "\<forall>x \<in> set qs. e \<le> x" using assms(1) by auto
  ultimately have "sorted (f # (ps @ as) @ qs)"
    using assms(3,4,6) le \<open>f \<le> e\<close> by (auto simp: sorted_append intro: order_trans)
  then show ?thesis using assms(2,6) e by auto
qed

lemma positions_of:
  assumes "sorted (flush_lsn s # acked ts)"
  shows "sorted (flush_lsn s # positions (fst (messages wake ts (s, l)))) \<and>
    set (positions (fst (messages wake ts (s, l)))) \<subseteq> insert (flush_lsn s) (set (acked ts))"
  using assms
proof (induction ts arbitrary: s l)
  case (Cons t ts)
  show ?case
  proof (cases "stopping s \<or> stops t")
    case True
    then show ?thesis by (simp add: messages_end del: messages.simps)
  next
    case False
    obtain es s' l' where p: "pump wake t (s, l) = (es, s', l')" using prod_cases3 by blast
    let ?a = "map fst (acks t)"
    have srt: "sorted ?a" "sorted (acked ts)" "\<forall>x \<in> set ?a. flush_lsn s \<le> x" "\<forall>x \<in> set (acked ts). flush_lsn s \<le> x"
        "\<forall>x \<in> set ?a. \<forall>y \<in> set (acked ts). x \<le> y"
      using Cons.prems by (auto simp: acked_def sorted_append)
    obtain ps as where ps: "positions es = ps @ as" "set ps \<subseteq> {flush_lsn s}" "length ps \<le> 1" "as \<in> {[], ?a}"
        "flush_lsn s' = last (flush_lsn s # as)"
      using pump_positions [OF p] by blast
    have "sorted (flush_lsn s' # acked ts)"
    proof (cases "as = []")
      case False
      then have "last as \<in> set ?a" using ps(4) last_in_set [OF False] by auto
      with srt ps(4,5) False show ?thesis by auto
    qed (use srt ps(5) in auto)
    note rest = Cons.IH [OF this, of l']
    have "sorted (flush_lsn s # (ps @ as) @ positions (fst (messages wake ts (s', l')))) \<and>
        set ((ps @ as) @ positions (fst (messages wake ts (s', l')))) \<subseteq> insert (flush_lsn s) (set as \<union> set (acked ts))"
      using rest srt ps by (intro report_step [where e = "flush_lsn s'"]) auto
    moreover have "set as \<union> set (acked ts) \<subseteq> set (acked (t # ts))"
      using ps(4) by (auto simp: acked_def)
    ultimately show ?thesis
      using False ps(1) by (auto simp: messages_run [OF _ p] simp del: messages.simps)
  qed
qed simp

text \<open>C27: If the consumer acknowledges positions in increasing order, every position reported to the server, by an acknowledgement or a keepalive, is one it acknowledged or the one known at the start, and the reports never go back.\<close>
theorem reports_only_acked:
  assumes "sorted (flush_lsn s # acked ts)"
  shows "sorted (positions (fst (messages wake ts (s, l)))) \<and>
    set (positions (fst (messages wake ts (s, l)))) \<subseteq> insert (flush_lsn s) (set (acked ts))"
  using positions_of [OF assms, of wake l] by simp

section \<open>Deadlines\<close>

text \<open>
  A mark that every step moves past a reading once the reading is \<open>period\<close> after it: if the
  readings are at most \<open>d\<close> apart, no reading finds the mark \<open>period + d\<close> behind.
\<close>

locale alarm =
  fixes step :: "'t \<Rightarrow> 's \<Rightarrow> 's"
    and reading :: "'t \<Rightarrow> rat"
    and mark :: "'s \<Rightarrow> rat"
    and period :: rat
    and fair :: "'t \<Rightarrow> 's \<Rightarrow> bool"
  assumes fresh: "fair t s \<Longrightarrow> reading t - mark (step t s) < period"
begin

lemma on_time:
  assumes "\<forall>i < length ts. fair (ts ! i) (fold step (take i ts) s)"
    and "\<forall>i. Suc i < length ts \<longrightarrow> reading (ts ! Suc i) - reading (ts ! i) \<le> d"
    and "reading (ts ! 0) - mark s < period + d"
    and "n < length ts"
  shows "reading (ts ! n) - mark (fold step (take n ts) s) < period + d"
proof (cases n)
  case 0
  then show ?thesis using assms(3) by simp
next
  case (Suc m)
  then have "take n ts = take m ts @ [ts ! m]" using assms(4) by (simp add: take_Suc_conv_app_nth)
  then have "fold step (take n ts) s = step (ts ! m) (fold step (take m ts) s)" by simp
  moreover have "reading (ts ! m) - mark (step (ts ! m) (fold step (take m ts) s)) < period"
    using assms(1,4) Suc by (intro fresh) simp
  moreover have "reading (ts ! n) - reading (ts ! m) \<le> d" using assms(2,4) Suc by simp
  ultimately show ?thesis by simp
qed

end

text \<open>A round with a clock that does not run backwards, while the stream runs.\<close>

definition clock_ok :: "round \<Rightarrow> bool" where
  "clock_ok t \<longleftrightarrow> due_at t \<le> sent_at t \<and> sent_at t \<le> woke_at t \<and> woke_at t \<le> yielded_at t \<and>
     list_all (\<lambda>(_, now). yielded_at t \<le> now) (acks t)"

definition quiet :: "round \<Rightarrow> bool" where
  "quiet t \<longleftrightarrow> received t = None \<and> \<not> stops t \<and> \<not> stops_late t \<and> clock_ok t"

definition after_round :: "rat \<Rightarrow> round \<Rightarrow> stream \<times> rat \<Rightarrow> stream \<times> rat" where
  "after_round wake t p = snd (pump_or_end wake t p)"

lemma messages_state: "snd (messages wake ts p) = fold (after_round wake) ts p"
  by (induction ts arbitrary: p) (simp_all add: after_round_def split_beta Let_def)

lemma quiet_round:
  assumes "quiet t" "\<not> stopping (fst p)" "0 < wake"
  shows "\<not> stopping (fst (after_round wake t p))"
    and "due_at t - last_feedback (fst (after_round wake t p)) < keepalive_seconds"
    and "woke_at t - snd (after_round wake t p) < wake"
proof -
  obtain s l where p: "p = (s, l)" by fastforce
  obtain es s' l' where r: "pump wake t (s, l) = (es, s', l')" using prod_cases3 by blast
  have after: "after_round wake t p = (s', l')"
    using assms(1,2) p r by (simp add: after_round_def pump_or_end_def heed_def quiet_def)
  have acks: "\<forall>now \<in> snd ` set (acks t). due_at t \<le> now" "due_at t \<le> sent_at t" "woke_at t \<le> yielded_at t"
    using assms(1) by (auto simp: quiet_def clock_ok_def list_all_iff)
  show "\<not> stopping (fst (after_round wake t p))"
    using pump_effects(2) [OF r] assms(1,2) after p by (simp add: quiet_def)
  have k: "due_at t - last_feedback k < keepalive_seconds"
    if "keepalive_if_due (due_at t) (sent_at t) s = (ks, k)" for ks k
    using keepalive_effects [OF that] acks(2) by (auto simp: keepalive_seconds_def split: if_splits)
  show "due_at t - last_feedback (fst (after_round wake t p)) < keepalive_seconds"
    using r
  proof (cases rule: pump_cases)
    case (message m fs)
    then show ?thesis using assms(1) by (simp add: quiet_def)
  next
    case (wake ks k fs)
    have "last_feedback s' = last_feedback k \<or> due_at t \<le> last_feedback s'"
      using acks_effects [OF wake(5)] acks(1) by auto
    with k [OF wake(2)] after show ?thesis by (auto simp: keepalive_seconds_def)
  next
    case (idle ks k)
    with k [OF idle(2)] after show ?thesis by simp
  qed
  show "woke_at t - snd (after_round wake t p) < wake"
    using r
  proof (cases rule: pump_cases)
    case (message m fs)
    then show ?thesis using assms(1) by (simp add: quiet_def)
  next
    case (wake ks k fs)
    then show ?thesis using after acks(3) assms(3) by simp
  next
    case (idle ks k)
    have "\<not> stopping (after_late t k)"
      using keepalive_effects [OF idle(2)] assms(1,2) p by (simp add: quiet_def)
    then show ?thesis using idle(3,6) after by simp
  qed
qed

interpretation keepalive: alarm "after_round wake" due_at "\<lambda>p. last_feedback (fst p)" keepalive_seconds
    "\<lambda>t p. quiet t \<and> \<not> stopping (fst p) \<and> 0 < wake" for wake
  by unfold_locales (simp add: quiet_round)

interpretation waking: alarm "after_round wake" woke_at snd wake
    "\<lambda>t p. quiet t \<and> \<not> stopping (fst p) \<and> 0 < wake" for wake
  by unfold_locales (simp add: quiet_round)

lemma quiet_runs:
  "list_all quiet ts \<Longrightarrow> \<not> stopping (fst p) \<Longrightarrow> 0 < wake \<Longrightarrow> \<not> stopping (fst (fold (after_round wake) ts p))"
  by (induction ts arbitrary: p) (simp_all add: quiet_round)

lemma quiet_fair:
  "list_all quiet ts \<Longrightarrow> \<not> stopping (fst p) \<Longrightarrow> 0 < wake \<Longrightarrow> i < length ts \<Longrightarrow>
   quiet (ts ! i) \<and> \<not> stopping (fst (fold (after_round wake) (take i ts) p)) \<and> 0 < wake"
  using quiet_runs [of "take i ts" p wake] by (auto simp: list_all_iff dest: in_set_takeD)

definition gaps_within :: "rat \<Rightarrow> (round \<Rightarrow> rat) \<Rightarrow> round list \<Rightarrow> bool" where
  "gaps_within d f ts \<longleftrightarrow> (\<forall>i. Suc i < length ts \<longrightarrow> f (ts ! Suc i) - f (ts ! i) \<le> d)"

text \<open>C28: While the stream is quiet and its rounds come at most d seconds apart, the server is never left without a report for 10 + d seconds, and the consumer never waits wake + d seconds for an item: at every round the last report is less than 10 + d seconds old and the last item yielded less than wake + d seconds old.\<close>
theorem deadlines_kept:
  assumes "list_all quiet ts" "\<not> stopping s" "0 < wake" "n < length ts"
    and "gaps_within d due_at ts" "gaps_within d woke_at ts"
    and "due_at (ts ! 0) - last_feedback s < keepalive_seconds + d" "woke_at (ts ! 0) - l < wake + d"
  shows "due_at (ts ! n) - last_feedback (fst (snd (messages wake (take n ts) (s, l)))) < 10 + d \<and>
    woke_at (ts ! n) - snd (snd (messages wake (take n ts) (s, l))) < wake + d"
proof -
  have fair: "\<forall>i < length ts. quiet (ts ! i) \<and> \<not> stopping (fst (fold (after_round wake) (take i ts) (s, l))) \<and> 0 < wake"
    using quiet_fair [OF assms(1), of "(s, l)"] assms(2,3) by simp
  show ?thesis
    unfolding messages_state
    using keepalive.on_time [OF fair, of d n] waking.on_time [OF fair, of d n] assms(4-8)
    by (simp add: gaps_within_def keepalive_seconds_def)
qed


section \<open>Rounds\<close>

definition idle_round :: "rat \<Rightarrow> round" where
  "idle_round now =
     \<lparr>stops = False, received = None, due_at = now, sent_at = now, remains_at = now, woke_at = now + 1,
      stops_late = False, yielded_at = now + 1, acks = []\<rparr>"

definition data_round :: "rat \<Rightarrow> (int \<times> rat) list \<Rightarrow> round" where
  "data_round now as = (idle_round now)\<lparr>received := Some (7, [0x42]), acks := as\<rparr>"

definition fresh_stream :: stream where
  "fresh_stream = \<lparr>flush_lsn = 0, last_feedback = 0, stopping = False\<rparr>"

theorem reports_only_acked_witness:
  "positions (fst (messages 1 [data_round 1 [(5, 1)], idle_round 12, data_round 13 [(9, 13)]] (fresh_stream, 0))) = [5, 5, 9] \<and>
   set (positions (fst (messages 1 [data_round 1 [(5, 1)], idle_round 12, data_round 13 [(9, 13)]] (fresh_stream, 0)))) \<subseteq> {0, 5, 9}"
proof -
  have "sorted (flush_lsn fresh_stream # acked [data_round 1 [(5, 1)], idle_round 12, data_round 13 [(9, 13)]])"
    by (simp add: acked_def fresh_stream_def data_round_def idle_round_def)
  from reports_only_acked [OF this, of 1 0] show ?thesis by code_simp
qed

theorem deadlines_kept_witness:
  "due_at (idle_round 11) - last_feedback (fst (snd (messages 1 [idle_round 9, idle_round 10] (fresh_stream, 9)))) < 11"
proof -
  define ts where "ts = [idle_round 9, idle_round 10, idle_round 11]"
  have "list_all quiet ts" by (simp add: ts_def quiet_def clock_ok_def idle_round_def)
  moreover have "\<not> stopping fresh_stream" by (simp add: fresh_stream_def)
  moreover have "gaps_within 1 due_at ts" "gaps_within 1 woke_at ts"
    by (simp_all add: gaps_within_def ts_def idle_round_def less_Suc_eq nth_Cons')
  moreover have "due_at (ts ! 0) - last_feedback fresh_stream < keepalive_seconds + 1" "woke_at (ts ! 0) - 9 < 1 + 1"
    by (simp_all add: ts_def idle_round_def fresh_stream_def keepalive_seconds_def)
  ultimately show ?thesis using deadlines_kept [of ts fresh_stream 1 2 1 9]
    by (simp add: ts_def numeral_2_eq_2 del: messages.simps)
qed


end
