(* ===== verification/Process.thy ===== *)
theory Process
  imports ExactlyOnce Replication
begin

text \<open>
  The running process: the generator \<open>messages()\<close> of the replication stream and the daemon's loop
  that consumes it, with every acknowledgement of a flush going back to the stream.  The trace
  interleaves the effects of both in the order they happen, so that it says what is durable
  whenever a position is reported to the server.
\<close>

section \<open>The process\<close>

text \<open>\<open>wake = min(1.0, cfg.batch_max_ms / 1000)\<close>\<close>

definition wake_of :: "config \<Rightarrow> rat" where
  "wake_of cfg = min 1 (of_int (batch_max_ms cfg) / 1000)"

datatype process_effect = FromStream stream_effect | FromDaemon effect

text \<open>
  A beat is a round of the stream (whose own acknowledgements are left empty: they are the
  daemon's), the stop flag and the clock readings of the daemon.
\<close>

record beat =
  b_round :: round
  b_stop :: bool
  b_sealed :: rat
  b_checked :: rat
  b_acked :: rat

definition quiet_round :: "beat \<Rightarrow> round" where
  "quiet_round b = (b_round b)\<lparr>acks := []\<rparr>"

definition tick_of :: "beat \<Rightarrow> (int \<times> bytes) option \<Rightarrow> tick" where
  "tick_of b m = \<lparr>stop_requested = b_stop b, item = map_option snd m, sealed_at = b_sealed b, checked_at = b_checked b\<rparr>"

text \<open>What a round hands to the loop, if anything: always its last effect.\<close>

definition handed :: "stream_effect list \<Rightarrow> (int \<times> bytes) option option" where
  "handed es = (case rev es of Yield m # _ \<Rightarrow> Some m | _ \<Rightarrow> None)"

text \<open>The daemon's effects; an acknowledgement is a call of the stream's \<open>ack\<close>.\<close>

fun carry_out :: "rat \<Rightarrow> effect list \<Rightarrow> stream \<Rightarrow> process_effect list \<times> stream" where
  "carry_out now [] s = ([], s)"
| "carry_out now (e # es) s =
     (case e of
        Ack lsn \<Rightarrow>
          (let (fs, s) = ack lsn now s; (gs, s) = carry_out now es s
           in (FromDaemon e # map FromStream fs @ gs, s))
      | _ \<Rightarrow> (let (gs, s) = carry_out now es s in (FromDaemon e # gs, s)))"

text \<open>The loop has ended: by a stop flag, or because the generator returned.\<close>

definition wind_up :: "rat \<Rightarrow> stream \<Rightarrow> loop_state \<Rightarrow> process_effect list \<times> daemon res" where
  "wind_up now s st = (case finish st of (es, r) \<Rightarrow> (fst (carry_out now es s), r))"

fun process :: "rat \<Rightarrow> rat \<Rightarrow> beat list \<Rightarrow> stream \<times> rat \<Rightarrow> loop_state \<Rightarrow> process_effect list \<times> daemon res" where
  "process wake now [] p st = wind_up now (fst p) st"
| "process wake now (b # bs) p st =
     (case pump_or_end wake (quiet_round b) p of
        (es, s, l) \<Rightarrow>
          (case handed es of
             None \<Rightarrow> (case process wake now bs (s, l) st of (fs, r) \<Rightarrow> (map FromStream es @ fs, r))
           | Some m \<Rightarrow>
               if b_stop b
               then (case wind_up (b_acked b) s st of (fs, r) \<Rightarrow> (map FromStream es @ fs, r))
               else (case on_tick (tick_of b m) st of
                       Inl e \<Rightarrow> (map FromStream es, Inl e)
                     | Inr (ds, st) \<Rightarrow>
                         (case carry_out (b_acked b) ds s of
                            (gs, s) \<Rightarrow>
                              (case process wake now bs (s, l) st of
                                 (fs, r) \<Rightarrow> (map FromStream es @ gs @ fs, r))))))"

definition run_process ::
    "config \<Rightarrow> int \<Rightarrow> stream \<times> rat \<Rightarrow> rat \<Rightarrow> beat list \<Rightarrow> process_effect list \<times> daemon res" where
  "run_process cfg checkpoint p now bs = process (wake_of cfg) now bs p (start_state cfg checkpoint)"

section \<open>The two sides of a trace\<close>

definition daemon_part :: "process_effect list \<Rightarrow> effect list" where
  "daemon_part tr = List.map_filter (\<lambda>e. case e of FromDaemon d \<Rightarrow> Some d | _ \<Rightarrow> None) tr"

definition stream_part :: "process_effect list \<Rightarrow> stream_effect list" where
  "stream_part tr = List.map_filter (\<lambda>e. case e of FromStream s \<Rightarrow> Some s | _ \<Rightarrow> None) tr"

lemma parts [simp]:
  "daemon_part [] = []" "daemon_part (FromDaemon d # tr) = d # daemon_part tr" "daemon_part (FromStream s # tr) = daemon_part tr"
  "daemon_part (tr @ tr') = daemon_part tr @ daemon_part tr'" "daemon_part (map FromStream es) = []"
  "stream_part [] = []" "stream_part (FromDaemon d # tr) = stream_part tr" "stream_part (FromStream s # tr) = s # stream_part tr"
  "stream_part (tr @ tr') = stream_part tr @ stream_part tr'" "stream_part (map FromStream es) = es"
  by (simp_all add: daemon_part_def stream_part_def List.map_filter_def o_def)

lemma carry_out_daemon [simp]: "daemon_part (fst (carry_out now es s)) = es"
  by (induction es arbitrary: s) (simp_all add: ack_def case_prod_beta split: effect.split)

lemma wind_up_daemon: "daemon_part (fst (wind_up now s st)) = fst (finish st)" "snd (wind_up now s st) = snd (finish st)"
  by (simp_all add: wind_up_def case_prod_beta)

section \<open>Nothing is reported before it is durable\<close>

definition saved :: "config \<Rightarrow> world \<Rightarrow> int option" where
  "saved cfg w = checkpoints (durable w) (slot cfg)"

fun never_ahead :: "config \<Rightarrow> world \<Rightarrow> process_effect list \<Rightarrow> bool" where
  "never_ahead cfg w [] = True"
| "never_ahead cfg w (FromDaemon d # tr) = never_ahead cfg (exec_effect d w) tr"
| "never_ahead cfg w (FromStream e # tr) =
     ((case e of SendFeedback l \<Rightarrow> (case saved cfg w of None \<Rightarrow> False | Some k \<Rightarrow> l \<le> k) | _ \<Rightarrow> True) \<and> never_ahead cfg w tr)"

lemma never_ahead_append:
  "never_ahead cfg w (xs @ ys) \<longleftrightarrow> never_ahead cfg w xs \<and> never_ahead cfg (exec_effects (daemon_part xs) w) ys"
  by (induction cfg w xs rule: never_ahead.induct) (auto simp: exec_effects_def)

lemma never_ahead_at:
  "never_ahead cfg w (us @ FromStream (SendFeedback l) # vs) \<Longrightarrow> \<exists>k. saved cfg (exec_effects (daemon_part us) w) = Some k \<and> l \<le> k"
  by (auto simp: never_ahead_append split: option.splits)

lemma never_ahead_stream:
  "saved cfg w = Some k \<Longrightarrow> \<forall>l \<in> set (positions es). l \<le> k \<Longrightarrow> never_ahead cfg w (map FromStream es)"
  by (induction es) (auto simp: positions_def List.map_filter_def split: stream_effect.splits)

text \<open>A flush makes its position durable, then hands it to the stream.\<close>

lemma flush_shape:
  assumes "flush d g = Inr (es, d')"
  shows "\<exists>xs. es = xs @ [SaveCheckpoint (slot (d_config d)) (end_lsn (last g)), CommitTxn, Ack (end_lsn (last g))] \<and>
    (\<forall>x \<in> set xs. \<exists>t sql params. x = Execute t sql params) \<and> d' = d\<lparr>checkpoint_lsn := end_lsn (last g)\<rparr> \<and> g \<noteq> []"
  using assms by (fastforce simp: flush_def res_simps Let_def split: if_splits dest!: set_zip_rightD)

lemma carry_out_flush:
  assumes "\<forall>x \<in> set xs. \<exists>t sql params. x = Execute t sql params"
  shows "carry_out now (xs @ [SaveCheckpoint n k, CommitTxn, Ack k]) s =
    (map FromDaemon (xs @ [SaveCheckpoint n k, CommitTxn, Ack k]) @ [FromStream (SendFeedback k)],
     s\<lparr>flush_lsn := k, last_feedback := now\<rparr>)"
  using assms by (induction xs) (auto simp: ack_def)

lemma never_ahead_daemon: "never_ahead cfg w (map FromDaemon ds)"
  by (induction ds arbitrary: w) auto

lemma flush_saves: "saved cfg (exec_effects (xs @ [SaveCheckpoint (slot cfg) k, CommitTxn, Ack k]) w) = Some k"
  by (simp add: exec_effects_append) (simp add: exec_effects_def saved_def)

lemma daemon_part_map [simp]: "daemon_part (map FromDaemon ds) = ds"
  by (induction ds) simp_all

lemma carry_out_safe:
  assumes "flush d g = Inr (es, d')" "d_config d = cfg"
  shows "never_ahead cfg w (fst (carry_out now es s))"
    "saved cfg (exec_effects es w) = Some (end_lsn (last g))"
    "flush_lsn (snd (carry_out now es s)) = end_lsn (last g)"
proof -
  obtain xs where xs: "es = xs @ [SaveCheckpoint (slot cfg) (end_lsn (last g)), CommitTxn, Ack (end_lsn (last g))]"
      "\<forall>x \<in> set xs. \<exists>t sql params. x = Execute t sql params"
    using flush_shape [OF assms(1)] assms(2) by auto
  show "never_ahead cfg w (fst (carry_out now es s))"
    unfolding xs(1) carry_out_flush [OF xs(2)] fst_conv never_ahead_append daemon_part_map
    by (simp only: never_ahead_daemon never_ahead.simps flush_saves stream_effect.case option.case order_refl)
  show "saved cfg (exec_effects es w) = Some (end_lsn (last g))" unfolding xs(1) by (rule flush_saves)
  show "flush_lsn (snd (carry_out now es s)) = end_lsn (last g)" unfolding xs(1) carry_out_flush [OF xs(2)] by simp
qed

text \<open>
  Between two beats: the daemon's checkpoint is the durable one, every pending transaction is past
  it, and what the stream reports is at or before it.
\<close>

definition in_step :: "config \<Rightarrow> stream \<Rightarrow> loop_state \<Rightarrow> world \<Rightarrow> bool" where
  "in_step cfg s st w \<longleftrightarrow>
     d_config (l_daemon st) = cfg \<and> saved cfg w = Some (checkpoint_lsn (l_daemon st)) \<and>
     (\<forall>t \<in> set (pending st). checkpoint_lsn (l_daemon st) < end_lsn t) \<and>
     flush_lsn s \<le> checkpoint_lsn (l_daemon st)"

lemma message_in_step: "in_step cfg s st w \<Longrightarrow> on_message msg now st = Inr st' \<Longrightarrow> in_step cfg s st' w"
  by (auto simp: in_step_def on_message_def Let_def res_simps dest: on_relation_same split: message.splits option.splits if_splits)

lemma flush_in_step:
  assumes "in_step cfg s st w" "flush_state st = Inr (es, st')"
  shows "never_ahead cfg w (fst (carry_out now es s))" "in_step cfg (snd (carry_out now es s)) st' (exec_effects es w)"
proof -
  obtain d where d: "flush (l_daemon st) (pending st) = Inr (es, d)" "st' = st\<lparr>l_daemon := d, pending := [], oldest := None\<rparr>"
    using assms(2) by (auto simp: flush_state_def res_simps)
  have cfg: "d_config (l_daemon st) = cfg" using assms(1) by (simp add: in_step_def)
  note safe = carry_out_safe [OF d(1) cfg]
  show "never_ahead cfg w (fst (carry_out now es s))" by (rule safe(1))
  have "d = (l_daemon st)\<lparr>checkpoint_lsn := end_lsn (last (pending st))\<rparr>" using flush_shape [OF d(1)] by blast
  then show "in_step cfg (snd (carry_out now es s)) st' (exec_effects es w)"
    using cfg d(2) safe(2,3) by (simp add: in_step_def)
qed

lemma tick_in_step:
  assumes "in_step cfg s st w" "on_tick t st = Inr (es, st')"
  shows "never_ahead cfg w (fst (carry_out now es s)) \<and> in_step cfg (snd (carry_out now es s)) st' (exec_effects es w)"
proof -
  have idle: "never_ahead cfg w (fst (carry_out now [] s))" "exec_effects [] w = w" by (simp_all add: exec_effects_def)
  show ?thesis
  proof (cases "item t")
    case None
    then show ?thesis
      using assms flush_in_step [OF assms(1), of es st'] idle by (auto simp: on_tick_def split: if_splits)
  next
    case (Some p)
    then obtain msg st1 due where st1: "on_message msg (sealed_at t) st = Inr st1"
      and rest: "(if due then flush_state st1 else Inr ([], st1)) = Inr (es, st')"
      using assms(2) by (auto simp: on_tick_def res_simps)
    note one = message_in_step [OF assms(1) st1]
    show ?thesis using rest one flush_in_step [OF one, of es st'] idle by (cases due) auto
  qed
qed

lemma round_reports:
  assumes "pump_or_end wake (quiet_round b) (s, l) = (es, s', l')"
  shows "set (positions es) \<subseteq> {flush_lsn s}" "flush_lsn s' = flush_lsn s"
proof -
  let ?s = "fst (heed (quiet_round b) (s, l))"
  have f: "flush_lsn ?s = flush_lsn s" by (simp add: heed_def stop_def)
  have "set (positions es) \<subseteq> {flush_lsn s} \<and> flush_lsn s' = flush_lsn s"
  proof (cases "stopping ?s")
    case True
    then show ?thesis using assms f by (cases "heed (quiet_round b) (s, l)") (auto simp: pump_or_end_def)
  next
    case False
    then have "pump wake (quiet_round b) (?s, snd (heed (quiet_round b) (s, l))) = (es, s', l')"
      using assms by (simp add: pump_or_end_def)
    from pump_positions [OF this] show ?thesis using f by (auto simp: quiet_round_def)
  qed
  then show "set (positions es) \<subseteq> {flush_lsn s}" "flush_lsn s' = flush_lsn s" by auto
qed

lemma wind_up_safe: "in_step cfg s st w \<Longrightarrow> never_ahead cfg w (fst (wind_up now s st))"
  using flush_in_step(1) [of cfg s st w]
  by (auto simp: wind_up_def finish_def case_prod_beta split: sum.splits)

lemma process_safe: "in_step cfg (fst p) st w \<Longrightarrow> never_ahead cfg w (fst (process wake now bs p st))"
proof (induction bs arbitrary: p st w)
  case Nil
  then show ?case by (simp add: wind_up_safe)
next
  case (Cons b bs)
  obtain s l where sl: "p = (s, l)" by (cases p)
  obtain es s' l' where p: "pump_or_end wake (quiet_round b) (s, l) = (es, s', l')" using prod_cases3 by blast
  note round = round_reports [OF p]
  have st: "in_step cfg s' st w" using Cons.prems round(2) by (simp add: in_step_def sl)
  have stream: "never_ahead cfg w (map FromStream es)"
    using st round by (intro never_ahead_stream) (auto simp: in_step_def)
  have here: "exec_effects (daemon_part (map FromStream es)) w = w" by (simp add: exec_effects_def)
  show ?case
  proof (cases "handed es")
    case None
    then show ?thesis
      using p sl stream here Cons.IH [of "(s', l')" st w] st by (simp add: case_prod_beta never_ahead_append)
  next
    case (Some m)
    show ?thesis
    proof (cases "b_stop b")
      case True
      then show ?thesis using p sl Some stream here wind_up_safe [OF st] by (simp add: case_prod_beta never_ahead_append)
    next
      case False
      show ?thesis
      proof (cases "on_tick (tick_of b m) st")
        case (Inl e)
        then show ?thesis using p sl Some False stream by simp
      next
        case (Inr x)
        obtain ds st' where x: "x = (ds, st')" by (cases x)
        have "on_tick (tick_of b m) st = Inr (ds, st')" using Inr x by simp
        note tick = tick_in_step [OF st this, of "b_acked b"]
        then show ?thesis
          using p sl Some False Inr x stream here Cons.IH [of "(snd (carry_out (b_acked b) ds s'), l')" st' "exec_effects ds w"]
          by (simp add: case_prod_beta never_ahead_append)
      qed
    qed
  qed
qed

text \<open>C6: At every moment of the running process, every position reported to the server, by an acknowledgement or a keepalive, is at or before the checkpoint that is durable at that moment: the server never discards WAL the daemon could still need.\<close>
theorem reports_never_ahead:
  assumes "saved cfg w = Some k" "flush_lsn s \<le> k"
    and "fst (run_process cfg k (s, l) now bs) = us @ FromStream (SendFeedback r) # vs"
  shows "\<exists>k'. saved cfg (exec_effects (daemon_part us) w) = Some k' \<and> r \<le> k'"
proof -
  have "in_step cfg s (start_state cfg k) w"
    using assms(1,2) by (simp add: in_step_def start_state_def new_daemon_def)
  then have "never_ahead cfg w (fst (run_process cfg k (s, l) now bs))"
    unfolding run_process_def by (intro process_safe) simp
  then show ?thesis unfolding assms(3) by (rule never_ahead_at)
qed

section \<open>The process is its two parts\<close>

definition acks_in :: "effect list \<Rightarrow> int list" where
  "acks_in es = List.map_filter (\<lambda>e. case e of Ack l \<Rightarrow> Some l | _ \<Rightarrow> None) es"

lemma carry_out_stream:
  "stream_part (fst (carry_out now es s)) = fst (consumer_acks (map (\<lambda>l. (l, now)) (acks_in es)) s) \<and>
   snd (carry_out now es s) = snd (consumer_acks (map (\<lambda>l. (l, now)) (acks_in es)) s)"
  by (induction es arbitrary: s)
     (simp_all add: acks_in_def List.map_filter_def ack_def case_prod_beta split: effect.split)

text \<open>What a consumer that holds the item acknowledges comes right after it.\<close>

lemma handed_snoc [simp]: "handed (es @ [Yield m]) = Some m" "handed [] = None" "handed (es @ [Wait r]) = None"
    "handed (es @ [SendFeedback x]) = None"
  by (simp_all add: handed_def)

lemma keepalive_handed: "handed (fst (keepalive_if_due now sent s) @ waits wake t l) = None"
  by (auto simp: keepalive_if_due_def waits_def handed_def)

lemma pump_acks:
  assumes "pump wake (t\<lparr>acks := []\<rparr>) (s, l) = (es, s', l')"
  shows "pump wake (t\<lparr>acks := as\<rparr>) (s, l) =
    (if handed es = None then (es, s', l') else (es @ fst (consumer_acks as s'), snd (consumer_acks as s'), l'))"
proof (cases "received t")
  case (Some m)
  then show ?thesis using assms by (auto simp: pump_def handed_def case_prod_beta)
next
  case None
  let ?ks = "fst (keepalive_if_due (due_at t) (sent_at t) s) @ waits wake t l"
  have w: "waits wake (t\<lparr>acks := bs\<rparr>) l = waits wake t l" "after_late (t\<lparr>acks := bs\<rparr>) k = after_late t k" for bs k
    by (simp_all add: waits_def after_late_def)
  have "handed (?ks @ [Yield None]) = Some None" by (rule handed_snoc)
  with None assms keepalive_handed [of "due_at t" "sent_at t" s wake t l] show ?thesis
    by (auto simp: pump_def case_prod_beta w Let_def split: if_splits)
qed

lemma pump_or_end_acks:
  assumes "pump_or_end wake (quiet_round b) p = (es, s', l')"
  shows "pump_or_end wake ((b_round b)\<lparr>acks := as\<rparr>) p =
    (if handed es = None then (es, s', l') else (es @ fst (consumer_acks as s'), snd (consumer_acks as s'), l'))"
proof -
  have h: "heed ((b_round b)\<lparr>acks := bs\<rparr>) p = (if stops (b_round b) then (stop (fst p), snd p) else p)" for bs
    by (simp add: heed_def)
  obtain s l where sl: "(if stops (b_round b) then (stop (fst p), snd p) else p) = (s, l)"
    by (cases "if stops (b_round b) then (stop (fst p), snd p) else p")
  show ?thesis
  proof (cases "stopping s")
    case True
    then show ?thesis using assms by (auto simp: pump_or_end_def quiet_round_def h sl)
  next
    case False
    then have "pump wake ((b_round b)\<lparr>acks := []\<rparr>) (s, l) = (es, s', l')"
      using assms by (simp add: pump_or_end_def quiet_round_def h sl)
    from pump_acks [OF this, of as] False show ?thesis by (simp add: pump_or_end_def h sl)
  qed
qed

definition yields :: "stream_effect list \<Rightarrow> (int \<times> bytes) option list" where
  "yields es = List.map_filter (\<lambda>e. case e of Yield m \<Rightarrow> Some m | _ \<Rightarrow> None) es"

lemma yields_simps [simp]:
  "yields [] = []" "yields (es @ fs) = yields es @ yields fs" "yields (Yield m # es) = m # yields es"
  "yields (SendFeedback l # es) = yields es" "yields (Wait r # es) = yields es" "yields (map SendFeedback ls) = []"
  by (simp_all add: yields_def List.map_filter_def o_def)

text \<open>A round without acknowledgements yields what it hands over, and nothing else.\<close>

lemma pump_yields:
  assumes "pump wake (t\<lparr>acks := []\<rparr>) (s, l) = (es, s', l')"
  shows "yields es = (case handed es of None \<Rightarrow> [] | Some m \<Rightarrow> [m])"
proof (cases "received t")
  case (Some m)
  then show ?thesis using assms by (auto simp: pump_def handed_def case_prod_beta)
next
  case None
  let ?ks = "fst (keepalive_if_due (due_at t) (sent_at t) s) @ waits wake t l"
  have w: "waits wake (t\<lparr>acks := bs\<rparr>) l = waits wake t l" "after_late (t\<lparr>acks := bs\<rparr>) k = after_late t k" for bs k
    by (simp_all add: waits_def after_late_def)
  have "yields ?ks = []" by (auto simp: keepalive_if_due_def waits_def)
  moreover have "handed (?ks @ [Yield None]) = Some None" by (rule handed_snoc)
  ultimately show ?thesis
    using None assms keepalive_handed [of "due_at t" "sent_at t" s wake t l]
    by (auto simp: pump_def case_prod_beta w Let_def split: if_splits)
qed

lemma pump_or_end_yields:
  assumes "pump_or_end wake (quiet_round b) p = (es, s', l')"
  shows "yields es = (case handed es of None \<Rightarrow> [] | Some m \<Rightarrow> [m])"
proof (cases "stopping (fst (heed (quiet_round b) p))")
  case False
  then have "pump wake ((b_round b)\<lparr>acks := []\<rparr>) (fst (heed (quiet_round b) p), snd (heed (quiet_round b) p)) = (es, s', l')"
    using assms by (simp add: pump_or_end_def quiet_round_def)
  then show ?thesis by (rule pump_yields)
qed (use assms in \<open>auto simp: pump_or_end_def\<close>)

lemma consumer_acks_feedback: "fst (consumer_acks as s) = map SendFeedback (map fst as)"
  by (induction as arbitrary: s) (auto simp: ack_def case_prod_beta)

lemma consumer_acks_yields: "yields (fst (consumer_acks as s)) = []"
  unfolding consumer_acks_feedback by (rule yields_simps(6))

lemma carry_out_reports: "stream_part (fst (carry_out now es s)) = map SendFeedback (acks_in es)"
  by (simp add: carry_out_stream consumer_acks_feedback o_def)

lemma wind_up_reports: "\<exists>tail. stream_part (fst (wind_up now s st)) = map SendFeedback tail"
  using carry_out_reports by (auto simp: wind_up_def case_prod_beta)

text \<open>Rounds that are those of the beats, but for the acknowledgements.\<close>

definition of_beats :: "round list \<Rightarrow> beat list \<Rightarrow> bool" where
  "of_beats rounds bs \<longleftrightarrow> (\<exists>n. list_all2 (\<lambda>r b. \<exists>as. r = (b_round b)\<lparr>acks := as\<rparr>) rounds (take n bs))"

lemma of_beats_Nil: "of_beats [] bs"
  unfolding of_beats_def by (intro exI [of _ 0]) simp

lemma of_beats_Cons: "of_beats rounds bs \<Longrightarrow> of_beats ((b_round b)\<lparr>acks := as\<rparr> # rounds) (b # bs)"
  unfolding of_beats_def by (metis (mono_tags, lifting) list.rel_inject(2) take_Suc_Cons)

definition composed :: "rat \<Rightarrow> stream \<times> rat \<Rightarrow> loop_state \<Rightarrow> process_effect list \<times> daemon res \<Rightarrow> tick list \<Rightarrow> round list \<Rightarrow> bool" where
  "composed wake p st x ticks rounds \<longleftrightarrow>
     daemon_part (fst x) = fst (daemon_loop ticks st) \<and> snd x = snd (daemon_loop ticks st) \<and>
     map item ticks = map (map_option snd) (yields (fst (messages wake rounds p))) \<and>
     (\<exists>tail. stream_part (fst x) = fst (messages wake rounds p) @ map SendFeedback tail)"

lemma composed_tail:
  assumes "composed wake (s', l') st' x ticks rounds"
    and "pump_or_end wake r p = (es, s', l')"
    and "daemon_loop ticks' st = (ds @ fst (daemon_loop ticks st'), snd (daemon_loop ticks st'))"
    and "map item ticks' = map (map_option snd) (yields es) @ map item ticks"
    and "daemon_part gs = ds" "stream_part gs = es"
  shows "composed wake p st (gs @ fst x, snd x) ticks' (r # rounds)"
  using assms by (auto simp: composed_def case_prod_beta)

lemma composed_continue:
  assumes p: "pump_or_end wake (quiet_round b) p = (es, s, l)" and m: "handed es = Some m" "\<not> b_stop b"
    and tick: "on_tick (tick_of b m) st = Inr (ds, st')" and g: "carry_out (b_acked b) ds s = (gs, s')"
    and rest: "composed wake (s', l) st' x ticks rounds"
  shows "composed wake p st (map FromStream es @ gs @ fst x, snd x) (tick_of b m # ticks)
    ((b_round b)\<lparr>acks := map (\<lambda>l. (l, b_acked b)) (acks_in ds)\<rparr> # rounds)"
proof -
  let ?as = "map (\<lambda>l. (l, b_acked b)) (acks_in ds)"
  have gs: "daemon_part gs = ds" "stream_part gs = fst (consumer_acks ?as s)" "s' = snd (consumer_acks ?as s)"
    using carry_out_daemon [of "b_acked b" ds s] carry_out_stream [of "b_acked b" ds s] g by simp_all
  have r: "pump_or_end wake ((b_round b)\<lparr>acks := ?as\<rparr>) p = (es @ fst (consumer_acks ?as s), s', l)"
    using pump_or_end_acks [OF p, of ?as] m gs by simp
  have "composed wake p st ((map FromStream es @ gs) @ fst x, snd x) (tick_of b m # ticks) ((b_round b)\<lparr>acks := ?as\<rparr> # rounds)"
    by (rule composed_tail [OF rest r, of "tick_of b m # ticks" st ds])
       (use m tick gs pump_or_end_yields [OF p] in \<open>simp_all add: tick_of_def case_prod_beta consumer_acks_yields\<close>)
  then show ?thesis by simp
qed

lemma process_composed: "\<exists>ticks rounds. of_beats rounds bs \<and> composed wake p st (process wake now bs p st) ticks rounds"
proof (induction bs arbitrary: p st)
  case Nil
  then show ?case
    using wind_up_reports [of now "fst p" st]
    by (intro exI [of _ "[]"]) (simp add: composed_def wind_up_daemon of_beats_Nil)
next
  case (Cons b bs)
  obtain es s l where p: "pump_or_end wake (quiet_round b) p = (es, s, l)" using prod_cases3 by blast
  note ys = pump_or_end_yields [OF p]
  have quiet: "of_beats [quiet_round b] (b # bs)"
    unfolding quiet_round_def by (rule of_beats_Cons [OF of_beats_Nil])
  show ?case
  proof (cases "handed es")
    case None
    obtain ticks rounds where IH: "of_beats rounds bs" "composed wake (s, l) st (process wake now bs (s, l) st) ticks rounds"
      using Cons.IH by blast
    have "composed wake p st (map FromStream es @ fst (process wake now bs (s, l) st), snd (process wake now bs (s, l) st))
        ticks (quiet_round b # rounds)"
      by (rule composed_tail [OF IH(2) p, of ticks st "[]"]) (simp_all add: ys None)
    moreover have "of_beats (quiet_round b # rounds) (b # bs)"
      unfolding quiet_round_def by (rule of_beats_Cons [OF IH(1)])
    ultimately show ?thesis using p None by (intro exI [of _ ticks] exI conjI) (assumption, simp add: case_prod_beta)
  next
    case (Some m)
    show ?thesis
    proof (cases "b_stop b")
      case True
      then show ?thesis
        using p Some ys quiet wind_up_reports [of "b_acked b" s st]
        by (intro exI [of _ "[tick_of b m]"] exI [of _ "[quiet_round b]"])
           (auto simp: composed_def case_prod_beta wind_up_daemon tick_of_def)
    next
      case False
      show ?thesis
      proof (cases "on_tick (tick_of b m) st")
        case (Inl e)
        then show ?thesis
          using p Some ys quiet False
          by (intro exI [of _ "[tick_of b m]"] exI [of _ "[quiet_round b]"])
             (auto simp: composed_def tick_of_def intro: exI [of _ "[]"])
      next
        case (Inr x)
        obtain ds st' where x: "x = (ds, st')" by (cases x)
        obtain gs s' where g: "carry_out (b_acked b) ds s = (gs, s')" by (cases "carry_out (b_acked b) ds s")
        obtain ticks rounds where IH: "of_beats rounds bs" "composed wake (s', l) st' (process wake now bs (s', l) st') ticks rounds"
          using Cons.IH by blast
        have "on_tick (tick_of b m) st = Inr (ds, st')" using Inr x by simp
        note composed_continue [OF p Some False this g IH(2)] of_beats_Cons [OF IH(1), where b = b]
        moreover have "process wake now (b # bs) p st =
            (map FromStream es @ gs @ fst (process wake now bs (s', l) st'), snd (process wake now bs (s', l) st'))"
          using p Some False Inr x g by (simp add: case_prod_beta)
        ultimately show ?thesis by metis
      qed
    qed
  qed
qed


end
