(* ===== verification/Lives.thy ===== *)
theory Lives
  imports Process
begin

text \<open>
  Exactly-once maintenance for the running process itself: lives of the process, each fed by the
  messages its stream reads and killed at any moment of its interleaved trace.
\<close>

section \<open>What the server sends\<close>

text \<open>As \<open>delivers\<close>, of the messages alone.\<close>

definition sends :: "config \<Rightarrow> sealed_txn list \<Rightarrow> int \<Rightarrow> bytes list \<Rightarrow> bool" where
  "sends cfg H conf ps \<longleftrightarrow>
     (\<forall>n c. collect (take n ps) (nothing_collected cfg) = Inr c \<longrightarrow>
        (\<exists>j m. c_sealed c = take m (drop j H) \<and> (\<forall>t \<in> set (take j H). end_lsn t \<le> conf)))"

lemma delivers_sends: "delivers cfg H conf ticks \<longleftrightarrow> sends cfg H conf (payloads ticks)"
  by (simp add: delivers_def sends_def)

lemma sends_prefix: "sends cfg H conf ps \<Longrightarrow> prefix qs ps \<Longrightarrow> sends cfg H conf qs"
  unfolding sends_def by (metis append_eq_conv_conj prefix_def take_take)

definition messages_of :: "beat list \<Rightarrow> bytes list" where
  "messages_of bs = map snd (List.map_filter (\<lambda>b. received (b_round b)) bs)"

section \<open>From the stream to the loop\<close>

lemma prefix_map_filter: "prefix xs ys \<Longrightarrow> prefix (List.map_filter f xs) (List.map_filter f ys)"
  by (auto simp: prefix_def List.map_filter_def)

lemma served_prefix: "prefix (served stopped ts) ts"
  by (induction ts arbitrary: stopped) auto

lemma payloads_prefix: "prefix (payloads ts) (List.map_filter item ts)"
  by (induction ts) (auto simp: List.map_filter_def split: option.splits)

lemma yielded_yields: "yielded es = List.map_filter id (yields es)"
  by (induction es) (auto simp: yielded_def yields_def List.map_filter_def split: stream_effect.splits option.splits)

lemma map_filter_map: "List.map_filter f (map g xs) = List.map_filter (\<lambda>x. f (g x)) xs"
  by (induction xs) (simp_all add: List.map_filter_def)

lemma map_filter_snd: "List.map_filter id (map (map_option snd) xs) = map snd (List.map_filter id xs)"
proof (induction xs)
  case (Cons x xs)
  then show ?case by (cases x) (simp_all add: List.map_filter_def)
qed (simp add: List.map_filter_def)

lemma of_beats_received:
  assumes "of_beats rounds bs"
  shows "prefix (List.map_filter received rounds) (List.map_filter (\<lambda>b. received (b_round b)) bs)"
proof -
  obtain n where "list_all2 (\<lambda>r b. \<exists>as. r = (b_round b)\<lparr>acks := as\<rparr>) rounds (take n bs)"
    using assms by (auto simp: of_beats_def)
  then have "map received rounds = map (\<lambda>b. received (b_round b)) (take n bs)"
    by (auto simp: list_all2_conv_all_nth list_eq_iff_nth_eq)
  then have "List.map_filter id (map received rounds) = List.map_filter id (map (\<lambda>b. received (b_round b)) (take n bs))"
    by (rule arg_cong)
  then have "List.map_filter received rounds = List.map_filter (\<lambda>b. received (b_round b)) (take n bs)"
    by (simp add: map_filter_map)
  then show ?thesis by (simp add: prefix_map_filter take_is_prefix)
qed

text \<open>The loop is fed a beginning of what the stream reads.\<close>

lemma fed_in_order:
  assumes "of_beats rounds bs" "map item ticks = map (map_option snd) (yields (fst (messages wake rounds p)))"
  shows "prefix (payloads ticks) (messages_of bs)"
proof -
  obtain s l where p: "p = (s, l)" by (cases p)
  have "List.map_filter item ticks = List.map_filter id (map item ticks)" by (simp add: map_filter_map)
  also have "\<dots> = map snd (yielded (fst (messages wake rounds p)))"
    unfolding assms(2) yielded_yields by (rule map_filter_snd)
  also have "yielded (fst (messages wake rounds p)) = List.map_filter received (served (stopping s) rounds)"
    unfolding p by (rule yielded_served)
  finally have "prefix (List.map_filter item ticks) (map snd (List.map_filter received rounds))"
    by (simp add: map_mono_prefix prefix_map_filter served_prefix)
  then show ?thesis
    using payloads_prefix [of ticks] map_mono_prefix [OF of_beats_received [OF assms(1)], of snd]
    unfolding messages_of_def by (meson prefix_order.order_trans)
qed

section \<open>Lives of the process\<close>

lemma daemon_part_take: "\<exists>j. daemon_part (take n tr) = take j (daemon_part tr)"
proof -
  have "daemon_part tr = daemon_part (take n tr) @ daemon_part (drop n tr)"
    by (metis append_take_drop_id parts(4))
  then show ?thesis by (metis append_eq_conv_conj)
qed

text \<open>A life starts from a stream just opened and ends after a number of the effects of its trace.\<close>

record life =
  opened :: "stream \<times> rat"
  ended_at :: rat
  lived :: "beat list"
  moment :: nat

definition trace_of :: "config \<Rightarrow> int \<Rightarrow> life \<Rightarrow> process_effect list" where
  "trace_of cfg k x = take (moment x) (fst (run_process cfg k (opened x) (ended_at x) (lived x)))"

definition live :: "config \<Rightarrow> life \<Rightarrow> world \<Rightarrow> world" where
  "live cfg x w =
     (case saved cfg w of
        None \<Rightarrow> w
      | Some k \<Rightarrow> recover (exec_effects (daemon_part (trace_of cfg k x)) (recover w)))"

text \<open>In every life the server sends at least what it was not told is applied.\<close>

fun well_fed :: "config \<Rightarrow> sealed_txn list \<Rightarrow> world \<Rightarrow> life list \<Rightarrow> bool" where
  "well_fed cfg H w [] = True"
| "well_fed cfg H w (x # xs) = (sends cfg H (confirmed w) (messages_of (lived x)) \<and> well_fed cfg H (live cfg x w) xs)"

lemma live_session:
  assumes "saved cfg w = Some k" "sends cfg H (confirmed w) (messages_of (lived x))"
  shows "\<exists>ticks j. live cfg x w = session cfg ticks j w \<and> delivers cfg H (confirmed w) ticks"
proof -
  obtain ticks rounds where t: "of_beats rounds (lived x)"
      "daemon_part (fst (run_process cfg k (opened x) (ended_at x) (lived x))) = fst (daemon_loop ticks (start_state cfg k))"
      "map item ticks = map (map_option snd) (yields (fst (messages (wake_of cfg) rounds (opened x))))"
    using process_composed [of "lived x" "wake_of cfg" "opened x" "start_state cfg k" "ended_at x"]
    unfolding run_process_def composed_def by blast
  obtain j where "daemon_part (trace_of cfg k x) = take j (fst (daemon_loop ticks (start_state cfg k)))"
    using daemon_part_take [of "moment x"] t(2) unfolding trace_of_def by metis
  then have "live cfg x w = session cfg ticks j w"
    using assms(1) by (simp add: live_def session_def run_def saved_def)
  moreover have "delivers cfg H (confirmed w) ticks"
    unfolding delivers_sends by (rule sends_prefix [OF assms(2) fed_in_order [OF t(1,3)]])
  ultimately show ?thesis by blast
qed

lemma lives_consistent:
  assumes "usable cfg" "history_ok cfg s S0 H"
  shows "consistent cfg S0 H k w \<Longrightarrow> well_fed cfg H w xs \<Longrightarrow> \<exists>m \<ge> k. consistent cfg S0 H m (fold (live cfg) xs w)"
proof (induction xs arbitrary: k w)
  case (Cons x xs)
  have "saved cfg w = Some k" using Cons.prems(1) by (simp add: saved_def consistent_def)
  then obtain ticks j where s: "live cfg x w = session cfg ticks j w" "delivers cfg H (confirmed w) ticks"
    using live_session Cons.prems(2) by fastforce
  obtain m where m: "k \<le> m" "consistent cfg S0 H m (live cfg x w)"
    using session_consistent [OF assms Cons.prems(1) s(2), of j] unfolding s(1) by blast
  obtain m' where "m \<le> m'" "consistent cfg S0 H m' (fold (live cfg) xs (live cfg x w))"
    using Cons.IH [OF m(2)] Cons.prems(2) by auto
  then show ?case using m(1) by (intro exI [of _ m']) simp
qed auto

text \<open>The running process maintains its tables exactly once. Let it live any number of times, its stream and its loop interleaved in whatever way the clocks, the messages and stop requests drive them, each life killed after any number of the effects of both, and each time sent by the server at least what it was not told is applied: then every target table holds its view over the source after exactly the transactions up to the durable checkpoint, which never goes back and which the acknowledged position never passes.\<close>
lemma process_exactly_once:
  assumes "usable cfg" "history_ok cfg s S0 H" "consistent cfg S0 H k w" "well_fed cfg H w lives"
  shows "\<exists>m \<ge> k. consistent cfg S0 H m (fold (live cfg) lives w)"
  using lives_consistent [OF assms(1,2)] assms(3,4) by blast

end
