(* ===== verification/Running.thy ===== *)
theory Running
  imports Status Lives
begin

text \<open>
  \<open>Daemon.run\<close> whole: connecting, the checkpoint, the replication stream, the running process, and
  what is closed on the way out.
\<close>

section \<open>A run\<close>

text \<open>
  What a run meets besides the server of its queries: how connecting for replication and starting it
  go, the clock when the stream is opened and when \<open>messages()\<close> is entered, the beats, and the clock
  at the end.
\<close>

record launch =
  dialled :: connect_outcome
  start_failed :: "db_error option"
  opened_at :: rat
  entered_at :: rat
  beats_of :: "beat list"
  over_at :: rat

definition missing_table :: "string \<Rightarrow> exn" where
  "missing_table n = SetupError (''no checkpoint table for slot '' @ py_repr n @ ''; run `walflux setup` first'')"

definition missing_row :: "string \<Rightarrow> exn" where
  "missing_row n = SetupError (''no checkpoint for slot '' @ py_repr n @ ''; run `walflux setup` first'')"

text \<open>The stream runs until the loop returns or raises; then \<open>finally\<close> closes it.\<close>

definition stream_life :: "config \<Rightarrow> int \<Rightarrow> launch \<Rightarrow> (process_effect list \<times> daemon res) res" where
  "stream_life cfg k x =
     bindE (open_stream (dialled x) (start_failed x) (slot cfg) (publication cfg) (opened_at x)) (\<lambda>(es, s).
       (case run_process cfg k (s, entered_at x) (over_at x) (beats_of x) of
          (tr, r) \<Rightarrow> Inr (map FromStream es @ tr @ map FromStream (fst (close_stream s)), r)))"

text \<open>
  The result of a run that opened its stream is its trace with the outcome of the loop; an earlier
  exception leaves no trace.
\<close>

definition run_daemon :: "call server \<Rightarrow> config \<Rightarrow> launch \<Rightarrow> (call, process_effect list \<times> daemon res) talk" where
  "run_daemon sv cfg x =
     andthen (connect_with sv Open) (\<lambda>_.
       eventually_do
         (andthen (checkpoint_or_hint sv (slot cfg)) (\<lambda>read.
            if read = NoTable then throw (missing_table (slot cfg))
            else andthen (perform sv Rollback) (\<lambda>_.
              (case read of
                 Row k \<Rightarrow> pure (stream_life cfg k x)
               | _ \<Rightarrow> throw (missing_row (slot cfg))))))
         hang)"

definition trace_of_run :: "(process_effect list \<times> daemon res) res \<Rightarrow> process_effect list" where
  "trace_of_run r = (case r of Inl _ \<Rightarrow> [] | Inr (tr, _) \<Rightarrow> tr)"

section \<open>What a run opens, it closes\<close>

definition running_effect :: "stream_effect \<Rightarrow> bool" where
  "running_effect e = (case e of SendFeedback _ \<Rightarrow> True | Wait _ \<Rightarrow> True | Yield _ \<Rightarrow> True | _ \<Rightarrow> False)"

lemma running_effects [simp]:
  "running_effect (SendFeedback l)" "running_effect (Wait r)" "running_effect (Yield m)"
  "\<not> running_effect (StartReplication n p)" "\<not> running_effect CloseCursor" "\<not> running_effect CloseConnection"
  by (simp_all add: running_effect_def)

lemma acks_running: "list_all running_effect (fst (consumer_acks as s))"
  by (simp add: consumer_acks_feedback list_all_iff)

lemma pump_running: "list_all running_effect (fst (pump wake t p))"
  using acks_running
  by (auto simp: pump_def keepalive_if_due_def waits_def after_late_def case_prod_beta Let_def split: option.split)

lemma messages_running: "list_all running_effect (fst (messages wake ts p))"
  by (induction ts arbitrary: p) (auto simp: pump_or_end_def case_prod_beta Let_def pump_running split: if_splits)

lemma process_running: "list_all running_effect (stream_part (fst (run_process cfg k p now bs)))"
proof -
  obtain rounds tail where
    "stream_part (fst (run_process cfg k p now bs)) = fst (messages (wake_of cfg) rounds p) @ map SendFeedback tail"
    using process_composed [of bs "wake_of cfg" p "start_state cfg k" now]
    unfolding run_process_def composed_def by blast
  then show ?thesis using messages_running [of "wake_of cfg" rounds p] by (auto simp: list_all_iff)
qed

definition opened_stream :: "launch \<Rightarrow> stream" where
  "opened_stream x = \<lparr>flush_lsn = 0, last_feedback = opened_at x, stopping = False\<rparr>"

lemma stream_life_cases:
  "stream_life cfg k x =
     (case connect (dialled x) of
        Inl e \<Rightarrow> Inl e
      | Inr _ \<Rightarrow>
          (case start_failed x of
             Some e \<Rightarrow> Inl (PgError e)
           | None \<Rightarrow>
               (case run_process cfg k (opened_stream x, entered_at x) (over_at x) (beats_of x) of
                  (tr, r) \<Rightarrow> Inr (FromStream (StartReplication (slot cfg) (publication cfg)) # tr @
                                 [FromStream CloseCursor, FromStream CloseConnection], r))))"
  by (simp add: stream_life_def open_stream_def close_stream_def opened_stream_def bindE_def split: sum.split option.split)

lemma stream_life_closes:
  assumes "stream_life cfg k x = Inr (tr, r)"
  shows "\<exists>es. stream_part tr = StartReplication (slot cfg) (publication cfg) # es @ [CloseCursor, CloseConnection] \<and>
    list_all running_effect es"
  using assms process_running
  by (auto simp: stream_life_cases split: sum.splits option.splits prod.splits) (metis fst_conv)

lemma run_shape:
  assumes "\<not> isl (error_of (sv h Open))" "h1 = h @ [(Open, sv h Open)]"
    and "r1 = sv h1 (checkpoint_query (slot cfg))" "h2 = h1 @ [(checkpoint_query (slot cfg), r1)]"
  shows "(\<exists>rs. snd (run_daemon sv cfg x h) = h2 @ rs @ [(Shut, Rows [] 0)]) \<and>
    (fst (run_daemon sv cfg x h) = Inr (tr, r) \<longleftrightarrow>
       (\<exists>k. checkpoint_of r1 = Some (Row k) \<and> \<not> isl (error_of (sv h2 Rollback)) \<and> stream_life cfg k x = Inr (tr, r)))"
proof -
  obtain rows n where op: "sv h Open = Rows rows n" using assms(1) by (cases "sv h Open") auto
  have open': "connect_with sv Open h = (Inr (), h1)"
    using assms(2) by (simp add: connect_with_def op connect_def)
  note ck = checkpoint_or_hint_result [where sv = sv and n = "slot cfg" and h = h1, folded assms(3,4)]
  show ?thesis
  proof (cases "fst (checkpoint_or_hint sv (slot cfg) h1)")
    case (Inl e)
    then have "checkpoint_or_hint sv (slot cfg) h1 = (Inl e, h2)" using ck(2) assms(4) by (intro prod_eqI) simp_all
    then show ?thesis using ck(1) Inl by (simp add: run_daemon_def talk_defs open')
  next
    case (Inr read)
    then have "checkpoint_or_hint sv (slot cfg) h1 = (Inr read, h2)" using ck(2) assms(4) by (intro prod_eqI) simp_all
    then show ?thesis
      using ck(1) Inr
      by (cases read; cases "error_of (sv h2 Rollback)") (auto simp: run_daemon_def talk_defs open' split: sum.split)
  qed
qed

text \<open>C34: Once connected, a run reads the checkpoint first and closes its connection last, whatever happens. It streams exactly when the server answers with a checkpoint row, from that position, and the replication connection opens and starts; then the stream's first effect is the start and its last two are the closing of cursor and connection, on every way out of the loop, with none of these in between.\<close>
theorem run_closes_all:
  assumes "\<not> isl (error_of (sv h Open))" "h1 = h @ [(Open, sv h Open)]"
    and "r1 = sv h1 (checkpoint_query (slot cfg))" "h2 = h1 @ [(checkpoint_query (slot cfg), r1)]"
  shows "(\<exists>rs. snd (run_daemon sv cfg x h) = h2 @ rs @ [(Shut, Rows [] 0)]) \<and>
    (fst (run_daemon sv cfg x h) = Inr (tr, r) \<longleftrightarrow>
       (\<exists>k. checkpoint_of r1 = Some (Row k) \<and> \<not> isl (error_of (sv h2 Rollback)) \<and> stream_life cfg k x = Inr (tr, r))) \<and>
    (fst (run_daemon sv cfg x h) = Inr (tr, r) \<longrightarrow>
       (\<exists>es. stream_part tr = StartReplication (slot cfg) (publication cfg) # es @ [CloseCursor, CloseConnection] \<and>
          list_all running_effect es))"
  using run_shape [where sv = sv and h = h and cfg = cfg and x = x and tr = tr and r = r, OF assms] stream_life_closes
  by blast

section \<open>Runs cut anywhere\<close>

text \<open>A server whose answer to the checkpoint query, when it gives one, is the durable row.\<close>

definition honest :: "config \<Rightarrow> call server \<Rightarrow> world \<Rightarrow> bool" where
  "honest cfg sv w \<longleftrightarrow>
     (\<forall>h rows n. sv h (checkpoint_query (slot cfg)) = Rows rows n \<longrightarrow>
        rows = (case saved cfg w of None \<Rightarrow> [] | Some k \<Rightarrow> [[PInt k]]))"

record stay =
  server_of :: "call server"
  launch_of :: launch
  cut_after :: nat

definition run_cut :: "config \<Rightarrow> stay \<Rightarrow> world \<Rightarrow> world" where
  "run_cut cfg y w =
     recover (exec_effects (daemon_part (take (cut_after y) (trace_of_run (fst (run_daemon (server_of y) cfg (launch_of y) [])))))
       (recover w))"

fun accepted :: "config \<Rightarrow> sealed_txn list \<Rightarrow> world \<Rightarrow> stay list \<Rightarrow> bool" where
  "accepted cfg H w [] = True"
| "accepted cfg H w (y # ys) =
     (honest cfg (server_of y) w \<and> sends cfg H (confirmed w) (messages_of (beats_of (launch_of y))) \<and>
      accepted cfg H (run_cut cfg y w) ys)"

definition life_of :: "launch \<Rightarrow> nat \<Rightarrow> life" where
  "life_of x n = \<lparr>opened = (opened_stream x, entered_at x), ended_at = over_at x, lived = beats_of x, moment = n\<rparr>"

text \<open>A run that gets to its stream starts from the durable checkpoint.\<close>

lemma run_starts_saved:
  assumes "honest cfg sv w" "saved cfg w = Some k" "fst (run_daemon sv cfg x h) = Inr (tr, r)"
  shows "stream_life cfg k x = Inr (tr, r)"
proof -
  let ?h1 = "h @ [(Open, sv h Open)]"
  have con: "connect_with sv Open h = (Inr (), ?h1)"
    using assms(3) by (cases "connect_with sv Open h") (auto simp: run_daemon_def andthen_def connect_with_def split: sum.splits)
  then have op: "\<not> isl (error_of (sv h Open))"
    by (cases "sv h Open") (auto simp: connect_with_def connect_def)
  obtain j where j: "checkpoint_of (sv ?h1 (checkpoint_query (slot cfg))) = Some (Row j)" "stream_life cfg j x = Inr (tr, r)"
    using run_shape [where sv = sv and h = h and cfg = cfg and x = x and tr = tr and r = r, OF op refl refl refl] assms(3) by blast
  have "j = k"
  proof (cases "sv ?h1 (checkpoint_query (slot cfg))")
    case (Rows rows n)
    have "rows = (case saved cfg w of None \<Rightarrow> [] | Some k \<Rightarrow> [[PInt k]])"
      using assms(1) Rows unfolding honest_def by blast
    then have "rows = [[PInt k]]" using assms(2) by simp
    then show ?thesis using j(1) Rows by (simp add: checkpoint_of_def fetch_one_def row_cell_def)
  qed (use j(1) in \<open>auto simp: checkpoint_of_def split: exn.splits db_error.splits\<close>)
  then show ?thesis using j(2) by simp
qed

lemma daemon_part_closes: "daemon_part [FromStream CloseCursor, FromStream CloseConnection] = []"
  by simp

lemma run_is_life:
  assumes "honest cfg (server_of y) w" "saved cfg w = Some k"
  shows "\<exists>n. run_cut cfg y w = live cfg (life_of (launch_of y) n) w"
proof (cases "fst (run_daemon (server_of y) cfg (launch_of y) [])")
  case (Inl e)
  then have "run_cut cfg y w = live cfg (life_of (launch_of y) 0) w"
    using assms(2) by (simp add: run_cut_def trace_of_run_def live_def trace_of_def life_of_def)
  then show ?thesis ..
next
  case (Inr p)
  obtain tr r where p: "p = (tr, r)" by (cases p)
  let ?x = "launch_of y"
  let ?tr = "fst (run_process cfg k (opened_stream ?x, entered_at ?x) (over_at ?x) (beats_of ?x))"
  have "stream_life cfg k ?x = Inr (tr, r)" using run_starts_saved [OF assms] Inr p by blast
  then have tr: "tr = FromStream (StartReplication (slot cfg) (publication cfg)) # ?tr @
      [FromStream CloseCursor, FromStream CloseConnection]"
    by (auto simp: stream_life_cases split: sum.splits option.splits prod.splits)
  have cut: "daemon_part (take n (FromStream e # xs @ cs)) = daemon_part (take (n - 1) xs)"
    if "\<forall>m. daemon_part (take m cs) = []" for n e xs cs
    using that by (cases n) simp_all
  have "daemon_part (take m [FromStream CloseCursor, FromStream CloseConnection]) = []" for m
    by (cases m; cases "m - 1") simp_all
  then have "run_cut cfg y w = live cfg (life_of ?x (cut_after y - 1)) w"
    using assms(2) Inr p cut
    by (simp add: run_cut_def trace_of_run_def tr live_def trace_of_def life_of_def)
  then show ?thesis ..
qed

lemma runs_consistent:
  assumes "usable cfg" "history_ok cfg s S0 H"
  shows "consistent cfg S0 H k w \<Longrightarrow> accepted cfg H w ys \<Longrightarrow> \<exists>m \<ge> k. consistent cfg S0 H m (fold (run_cut cfg) ys w)"
proof (induction ys arbitrary: k w)
  case (Cons y ys)
  have "saved cfg w = Some k" using Cons.prems(1) by (simp add: saved_def consistent_def)
  then obtain n where n: "run_cut cfg y w = live cfg (life_of (launch_of y) n) w"
    using run_is_life Cons.prems(2) by fastforce
  have "well_fed cfg H w [life_of (launch_of y) n]" using Cons.prems(2) by (simp add: life_of_def)
  from lives_consistent [OF assms Cons.prems(1) this]
  obtain m where m: "k \<le> m" "consistent cfg S0 H m (run_cut cfg y w)" unfolding n by auto
  obtain m' where "m \<le> m'" "consistent cfg S0 H m' (fold (run_cut cfg) ys (run_cut cfg y w))"
    using Cons.IH [OF m(2)] Cons.prems(2) by auto
  then show ?case using m(1) by (intro exI [of _ m']) simp
qed auto

text \<open>C2: walflux run maintains its tables exactly once. Run it any number of times, each run connecting, reading its checkpoint, opening its stream and looping however the server, the clocks, the messages and stop requests drive it, each cut after any number of its effects, each answered with the durable checkpoint when it is answered, and each sent at least what the server was not told is applied: then every target table holds its view over the source after exactly the transactions up to the durable checkpoint, which never goes back and which the acknowledged position never passes.\<close>
theorem daemon_exactly_once:
  assumes "usable cfg" "history_ok cfg s S0 H" "consistent cfg S0 H k w" "accepted cfg H w stays"
  shows "\<exists>m \<ge> k. consistent cfg S0 H m (fold (run_cut cfg) stays w)"
  using runs_consistent [OF assms(1,2)] assms(3,4) by blast

end
