(* ===== verification/Cli.thy ===== *)
theory Cli
  imports Bootstrap Running
begin

text \<open>
  \<open>walflux/cli.py\<close>: the subcommands and \<open>main\<close>.

  The parsed command line is an input (\<open>argparse\<close> exits with 2 before any of this runs).  A
  \<open>machine\<close> is what the process finds: the files, the environment, the servers behind its
  connections and what a run of the daemon meets.  An \<open>outcome\<close> is what it does: the lines it prints, its
  conversations, the daemon's effects, and its exit code or the exception that escapes.
\<close>

section \<open>Inputs and outcomes\<close>

datatype args =
    SetupArgs string bool
  | RunArgs string
  | StatusArgs string
  | TeardownArgs string bool

text \<open>\<open>ErrorLine e\<close> is \<open>walflux: error: \<dots>\<close> on stderr, with the text of \<open>e\<close>.\<close>

datatype line = Out string | Err string | ErrorLine exn

record machine =
  config_file :: "string \<Rightarrow> file_outcome"
  dsn_variable :: "string option"
  setup_server :: "command server"
  query_server :: "call server"
  daemon_launch :: launch

record outcome =
  printed :: "line list"
  told :: "command conversation"
  asked :: "call conversation"
  effects :: "process_effect list"
  exit_code :: "int res"

definition nothing_done :: "int res \<Rightarrow> outcome" where
  "nothing_done r = \<lparr>printed = [], told = [], asked = [], effects = [], exit_code = r\<rparr>"

definition config_of :: "machine \<Rightarrow> string \<Rightarrow> config res" where
  "config_of m path = load_config (config_file m path) (dsn_variable m)"

section \<open>Subcommands\<close>

definition cmd_setup :: "machine \<Rightarrow> string \<Rightarrow> bool \<Rightarrow> outcome" where
  "cmd_setup m path force =
     (case config_of m path of
        Inl e \<Rightarrow> nothing_done (Inl e)
      | Inr cfg \<Rightarrow>
          (case setup_database (setup_server m) cfg force [] of
             (Inl e, h) \<Rightarrow> (nothing_done (Inl e))\<lparr>told := h\<rparr>
           | (Inr report, h) \<Rightarrow>
               (nothing_done (Inr 0))\<lparr>told := h, printed := map Out report @ [Out (''next: walflux run -c '' @ path)]\<rparr>))"

definition cmd_run :: "machine \<Rightarrow> string \<Rightarrow> outcome" where
  "cmd_run m path =
     (case config_of m path of
        Inl e \<Rightarrow> nothing_done (Inl e)
      | Inr cfg \<Rightarrow>
          (case run_daemon (query_server m) cfg (daemon_launch m) [] of
             (Inl e, h) \<Rightarrow> (nothing_done (Inl e))\<lparr>asked := h\<rparr>
           | (Inr (es, r), h) \<Rightarrow>
               (nothing_done (bindE r (\<lambda>_. Inr 0)))\<lparr>asked := h, effects := es\<rparr>))"

definition lsn_cell :: "pyval \<Rightarrow> string" where
  "lsn_cell v =
     (case v of
        PNone \<Rightarrow> ''-''
      | PInt n \<Rightarrow> format_lsn n
      | PBool b \<Rightarrow> format_lsn (of_bool b)
      | _ \<Rightarrow> py_str v)"

definition slot_label :: "status_info \<Rightarrow> string" where
  "slot_label info =
     (if \<not> i_exists info then ''absent '' @ [CHR 0xE2, CHR 0x80, CHR 0x94] @ '' run `walflux setup`''
      else if i_active info = Some True then ''active''
      else ''inactive'')"

definition status_rows :: "status_info \<Rightarrow> (string \<times> string) list" where
  "status_rows info =
     [(''slot'', i_slot info @ '' ('' @ slot_label info @ '')''),
      (''restart_lsn'', lsn_cell (i_restart info)),
      (''confirmed_flush_lsn'', lsn_cell (i_confirmed info)),
      (''current_lsn'', lsn_cell (i_current info)),
      (''lag_bytes'', case i_lag info of None \<Rightarrow> ''-'' | Some n \<Rightarrow> int_text 10 n),
      (''checkpoint_lsn'', case i_checkpoint info of None \<Rightarrow> ''-'' | Some t \<Rightarrow> t)] @
     map (\<lambda>(name, count). (''view '' @ name,
            case count of None \<Rightarrow> ''no target table'' | Some n \<Rightarrow> int_text 10 n @ '' rows'')) (i_views info)"

definition label_width :: "(string \<times> string) list \<Rightarrow> nat" where
  "label_width rows = fold max (map (py_len \<circ> fst) rows) 0"

definition print_status :: "status_info \<Rightarrow> line list" where
  "print_status info =
     (let rows = status_rows info
      in map (\<lambda>(label, v). Out (py_ljust (label_width rows) label @ ''  '' @ v)) rows)"

definition cmd_status :: "machine \<Rightarrow> string \<Rightarrow> outcome" where
  "cmd_status m path =
     (case config_of m path of
        Inl e \<Rightarrow> nothing_done (Inl e)
      | Inr cfg \<Rightarrow>
          (case status (query_server m) cfg [] of
             (Inl e, h) \<Rightarrow> (nothing_done (Inl e))\<lparr>asked := h\<rparr>
           | (Inr info, h) \<Rightarrow> (nothing_done (Inr 0))\<lparr>asked := h, printed := print_status info\<rparr>))"

definition cmd_teardown :: "machine \<Rightarrow> string \<Rightarrow> bool \<Rightarrow> outcome" where
  "cmd_teardown m path yes =
     (if \<not> yes
      then (nothing_done (Inr 2))\<lparr>printed := [Err
        (''walflux: teardown drops the replication slot, the publication, and the'' @
         '' walflux schema; re-run with --yes to confirm'')]\<rparr>
      else (case config_of m path of
              Inl e \<Rightarrow> nothing_done (Inl e)
            | Inr cfg \<Rightarrow>
                (case teardown (setup_server m) cfg [] of
                   (Inl e, h) \<Rightarrow> (nothing_done (Inl e))\<lparr>told := h\<rparr>
                 | (Inr _, h) \<Rightarrow> (nothing_done (Inr 0))\<lparr>told := h\<rparr>)))"

section \<open>The program\<close>

fun handler :: "machine \<Rightarrow> args \<Rightarrow> outcome" where
  "handler m (SetupArgs path force) = cmd_setup m path force"
| "handler m (RunArgs path) = cmd_run m path"
| "handler m (StatusArgs path) = cmd_status m path"
| "handler m (TeardownArgs path yes) = cmd_teardown m path yes"

definition main :: "machine \<Rightarrow> args \<Rightarrow> outcome" where
  "main m a =
     (let out = handler m a
      in case exit_code out of
           Inr n \<Rightarrow> out
         | Inl e \<Rightarrow> if is_walflux_error e then out\<lparr>printed := printed out @ [ErrorLine e], exit_code := Inr 1\<rparr> else out)"

fun config_path :: "args \<Rightarrow> string" where
  "config_path (SetupArgs p _) = p"
| "config_path (RunArgs p) = p"
| "config_path (StatusArgs p) = p"
| "config_path (TeardownArgs p _) = p"

section \<open>Exit codes\<close>

lemmas cmd_defs = cmd_setup_def cmd_run_def cmd_status_def cmd_teardown_def nothing_done_def

lemma handler_exit:
  "exit_code (handler m a) = Inr n \<Longrightarrow> n = (if \<exists>p. a = TeardownArgs p False then 2 else 0)"
  by (cases a) (auto simp: cmd_defs bindE_def split: sum.splits prod.splits if_splits)

lemma handler_raises: "exit_code (handler m a) = Inl e \<Longrightarrow> printed (handler m a) = []"
  by (cases a) (auto simp: cmd_defs split: sum.splits prod.splits if_splits)

lemma handler_refuses_config:
  "config_of m (config_path a) = Inl e \<Longrightarrow> told (handler m a) = [] \<and> asked (handler m a) = [] \<and> effects (handler m a) = []"
  by (cases a) (auto simp: cmd_defs)

lemma handler_lines: "exit_code (handler m a) = Inr n \<Longrightarrow> ErrorLine e \<notin> set (printed (handler m a))"
  by (cases a) (auto simp: cmd_defs print_status_def Let_def split: sum.splits prod.splits if_splits)

text \<open>The exit code is 2 exactly for a teardown without --yes, which connects to nothing; 1 exactly when a WalfluxError ended the command, which is then all that is printed; 0 otherwise; only other exceptions escape.\<close>
lemma main_exits:
  "(case exit_code (main m a) of
      Inl e \<Rightarrow> \<not> is_walflux_error e \<and> exit_code (handler m a) = Inl e \<and> printed (main m a) = []
    | Inr n \<Rightarrow>
        (n = 2 \<longleftrightarrow> (\<exists>p. a = TeardownArgs p False)) \<and>
        (n = 1 \<longleftrightarrow> (\<exists>e. is_walflux_error e \<and> exit_code (handler m a) = Inl e \<and> printed (main m a) = [ErrorLine e])) \<and>
        n \<in> {0, 1, 2}) \<and>
   told (main m (TeardownArgs p False)) = [] \<and> asked (main m (TeardownArgs p False)) = []"
proof -
  have raises: "\<nexists>p. a = TeardownArgs p False" if "exit_code (handler m a) = Inl e" for e
    using that by (auto simp: cmd_defs)
  have quiet: "told (main m (TeardownArgs p False)) = [] \<and> asked (main m (TeardownArgs p False)) = []"
    by (simp add: main_def cmd_defs)
  show ?thesis
  proof (cases "exit_code (handler m a)")
    case (Inl e)
    then have "main m a = (if is_walflux_error e
        then (handler m a)\<lparr>printed := [ErrorLine e], exit_code := Inr 1\<rparr> else handler m a)"
      using handler_raises [OF Inl] by (simp add: main_def Let_def)
    then show ?thesis using Inl handler_raises [OF Inl] raises [OF Inl] quiet by auto
  next
    case (Inr n)
    then have m: "main m a = handler m a" by (simp add: main_def Let_def)
    show ?thesis
    proof (cases "\<exists>p. a = TeardownArgs p False")
      case True
      then show ?thesis using handler_exit [OF Inr] Inr m quiet by simp
    next
      case False
      then show ?thesis using handler_exit [OF Inr] Inr m quiet by simp
    qed
  qed
qed

text \<open>A configuration that load_config refuses never opens a connection, and ends with exit code 1 or the exception reading the file raised.\<close>
lemma bad_config_is_harmless:
  assumes "config_of m (config_path a) = Inl e" "\<nexists>p. a = TeardownArgs p False"
  shows "told (main m a) = [] \<and> asked (main m a) = [] \<and> effects (main m a) = [] \<and>
    exit_code (main m a) = (if is_walflux_error e then Inr 1 else Inl e)"
proof -
  have "exit_code (handler m a) = Inl e"
    using assms by (cases a) (auto simp: cmd_defs)
  then show ?thesis
    using handler_refuses_config [OF assms(1)] by (simp add: main_def Let_def)
qed

section \<open>The status table\<close>

lemma fold_max: "m \<le> fold max xs m" for m :: nat
  by (induction xs arbitrary: m) (auto intro: le_trans [OF max.cobounded2])

lemma label_width_fold: "x \<in> set xs \<Longrightarrow> x \<le> fold max xs m" for m :: nat
proof (induction xs arbitrary: m)
  case (Cons y ys)
  then show ?case using fold_max [of "max y m" ys] by auto
qed simp

lemma label_width: "(l, v) \<in> set rows \<Longrightarrow> py_len l \<le> label_width rows"
  by (auto simp: label_width_def intro!: label_width_fold image_eqI [where x = "(l, v)"])

text \<open>The status table is aligned: every line is its label, blanks up to one column that leaves room for the longest label, and the value.\<close>
lemma status_columns:
  "\<exists>w. list_all2 (\<lambda>(label, v) l. \<exists>n. l = Out (label @ replicate n (CHR '' '') @ v) \<and> py_len label + n = w \<and> 2 \<le> n)
     (status_rows info) (print_status info)"
proof -
  let ?rows = "status_rows info"
  have "list_all2 (\<lambda>(label, v) l. \<exists>n. l = Out (label @ replicate n (CHR '' '') @ v) \<and>
      py_len label + n = label_width ?rows + 2 \<and> 2 \<le> n) rs
      (map (\<lambda>(label, v). Out (py_ljust (label_width ?rows) label @ ''  '' @ v)) rs)" if "set rs \<subseteq> set ?rows" for rs
    using that
  proof (induction rs)
    case (Cons r rs)
    obtain label v where r: "r = (label, v)" by (cases r)
    have "py_len label \<le> label_width ?rows" using Cons.prems r label_width by auto
    then have "\<exists>n. Out (py_ljust (label_width ?rows) label @ ''  '' @ v) = Out (label @ replicate n (CHR '' '') @ v) \<and>
        py_len label + n = label_width ?rows + 2 \<and> 2 \<le> n"
      by (intro exI [of _ "Suc (Suc (label_width ?rows - py_len label))"]) (simp add: py_ljust_def replicate_app_Cons_same)
    then show ?case using Cons r by simp
  qed simp
  from this [OF subset_refl] show ?thesis unfolding print_status_def Let_def by blast
qed

end
