(* ===== verification/Stopping.thy ===== *)
theory Stopping
  imports Lives
begin

text \<open>
  Stop requests: the signal handler of \<open>Daemon\<close> (\<open>_request_stop\<close>) and what it brings about in the
  running process.
\<close>

section \<open>The signal\<close>

text \<open>The handler sets the daemon's flag and, once there is a stream, the stream's.\<close>

definition request_stop :: "stream option \<Rightarrow> bool \<times> stream option" where
  "request_stop s = (True, map_option stop s)"

text \<open>
  When it arrives in a beat: before the stream looks at its flag at the top of its loop, after that
  and before it looks again at the end of an idle round, after that and before the loop looks at its
  own flag, or after all of them.  Both flags stay set.
\<close>

datatype arrival = BeforeTop | BeforeLate | BeforeCheck | AfterCheck

definition interrupt :: "arrival \<Rightarrow> beat \<Rightarrow> beat" where
  "interrupt a b = b\<lparr>
     b_stop := b_stop b \<or> a \<noteq> AfterCheck,
     b_round := (b_round b)\<lparr>
       stops := stops (b_round b) \<or> a = BeforeTop,
       stops_late := stops_late (b_round b) \<or> a = BeforeTop \<or> a = BeforeLate\<rparr>\<rparr>"

definition stopped_at :: "arrival \<Rightarrow> nat \<Rightarrow> beat list \<Rightarrow> beat list" where
  "stopped_at a n bs =
     take n bs @ (case drop n bs of [] \<Rightarrow> [] | b # cs \<Rightarrow> interrupt a b # map (interrupt BeforeTop) cs)"

text \<open>The flags the handler sets are the ones the beats carry: what a round hands on when it sees the stop.\<close>

lemma heed_interrupt:
  "heed (quiet_round (interrupt BeforeTop b)) p = (the (snd (request_stop (Some (fst p)))), snd p)"
  "b_stop (interrupt BeforeTop b) = fst (request_stop s)"
  by (simp_all add: heed_def quiet_round_def interrupt_def request_stop_def)

section \<open>Nothing after the stop matters\<close>

lemma carry_out_effects:
  "fst (carry_out now es s) =
     concat (map (\<lambda>e. FromDaemon e # (case e of Ack l \<Rightarrow> [FromStream (SendFeedback l)] | _ \<Rightarrow> [])) es)"
  by (induction es arbitrary: s) (simp_all add: ack_def case_prod_beta split: effect.split)

lemma wind_up_same: "wind_up now s st = wind_up now s' st"
  by (simp add: wind_up_def case_prod_beta carry_out_effects)

lemma stopped_tail: "process wake now (map (interrupt BeforeTop) cs) p st = wind_up now (fst p) st"
proof (induction cs arbitrary: p)
  case (Cons c cs)
  have "pump_or_end wake (quiet_round (interrupt BeforeTop c)) p = ([], stop (fst p), snd p)"
    by (simp add: pump_or_end_def heed_def quiet_round_def interrupt_def stop_def)
  then show ?case using Cons.IH wind_up_same [of now "fst p" st "stop (fst p)"] by (simp add: handed_def)
qed simp

lemma after_interrupt:
  "process wake now (b # map (interrupt BeforeTop) cs) p st = process wake now [b] p st"
  by (simp add: stopped_tail case_prod_beta split: prod.split option.split sum.split)

lemma process_append_cong:
  "\<forall>p st. process wake now xs p st = process wake now ys p st \<Longrightarrow>
    process wake now (bs @ xs) p st = process wake now (bs @ ys) p st"
proof (induction bs arbitrary: p st)
  case Nil
  then show ?case by (simp only: append_Nil)
next
  case (Cons b bs)
  then show ?case by (simp split: prod.split option.split sum.split)
qed

lemma stopped_at_take: "take (Suc n) (stopped_at a n bs) = take n bs @ map (interrupt a) (take 1 (drop n bs))"
proof (cases "drop n bs")
  case Nil
  then show ?thesis by (simp add: stopped_at_def)
next
  case (Cons b cs)
  then have "length (take n bs) = n" by (metis drop_eq_Nil length_take list.simps(3) min.absorb2 nle_le)
  then show ?thesis using Cons by (simp add: stopped_at_def)
qed

lemma stopped_soon:
  "process wake now (stopped_at a n bs) p st = process wake now (take (Suc n) (stopped_at a n bs)) p st"
proof (cases "drop n bs")
  case (Cons b cs)
  show ?thesis
    unfolding stopped_at_take unfolding stopped_at_def Cons list.case
    using after_interrupt process_append_cong [of wake now "interrupt a b # map (interrupt BeforeTop) cs" "[interrupt a b]" "take n bs"]
    by simp
qed (simp add: stopped_at_def)

section \<open>Nothing before it is lost\<close>

definition calm :: "beat \<Rightarrow> bool" where
  "calm b \<longleftrightarrow> \<not> b_stop b \<and> \<not> stops (b_round b) \<and> \<not> stops_late (b_round b)"

lemma messages_of_simps [simp]:
  "messages_of [] = []"
  "messages_of (b # bs) = (case received (b_round b) of None \<Rightarrow> [] | Some m \<Rightarrow> [snd m]) @ messages_of bs"
  "messages_of (bs @ cs) = messages_of bs @ messages_of cs"
  by (simp_all add: messages_of_def List.map_filter_def split: option.split)

lemma interrupt_messages: "messages_of (map (interrupt a) bs) = messages_of bs"
  by (induction bs) (simp_all add: interrupt_def)

lemma carry_out_stopping: "stopping (snd (carry_out now es s)) = stopping s"
  by (induction es arbitrary: s) (simp_all add: ack_def case_prod_beta split: effect.split)

text \<open>A calm round hands over what it received, or a wake, or nothing.\<close>

lemma calm_round:
  assumes "calm b" "\<not> stopping s" "pump_or_end wake (quiet_round b) (s, l) = (es, s', l')"
  shows "\<not> stopping s'"
    "case received (b_round b) of Some m \<Rightarrow> handed es = Some (Some m) | None \<Rightarrow> handed es = None \<or> handed es = Some None"
proof -
  have p: "pump wake (quiet_round b) (s, l) = (es, s', l')"
    using assms by (simp add: pump_or_end_def heed_def quiet_round_def calm_def)
  have k: "stopping (snd (keepalive_if_due x y s)) = stopping s" for x y by (simp add: keepalive_if_due_def)
  show "\<not> stopping s'"
    using p assms(1,2) k
    by (auto simp: pump_def quiet_round_def calm_def after_late_def case_prod_beta Let_def split: option.splits if_splits)
  show "case received (b_round b) of Some m \<Rightarrow> handed es = Some (Some m) | None \<Rightarrow> handed es = None \<or> handed es = Some None"
    using p keepalive_handed
    by (auto simp: pump_def quiet_round_def case_prod_beta Let_def handed_def simp del: keepalive_if_due_def
        split: option.splits if_splits)
qed

text \<open>A process that ends without an exception has handled what its calm beats received.\<close>

definition handles :: "rat \<Rightarrow> rat \<Rightarrow> beat list \<Rightarrow> beat list \<Rightarrow> stream \<times> rat \<Rightarrow> loop_state \<Rightarrow> tick list \<Rightarrow> bool" where
  "handles wake now pre bs p st ticks \<longleftrightarrow>
     daemon_part (fst (process wake now bs p st)) = fst (daemon_loop ticks st) \<and>
     snd (process wake now bs p st) = snd (daemon_loop ticks st) \<and>
     prefix (messages_of pre) (payloads ticks) \<and> prefix (payloads ticks) (messages_of bs)"

lemma handles_rest: "\<exists>ticks. handles wake now [] bs p st ticks"
proof -
  obtain ticks rounds where "of_beats rounds bs" "composed wake p st (process wake now bs p st) ticks rounds"
    using process_composed by blast
  then have "prefix (payloads ticks) (messages_of bs)" "composed wake p st (process wake now bs p st) ticks rounds"
    using fed_in_order [of rounds bs ticks wake p] by (simp_all add: composed_def)
  then show ?thesis by (auto simp: handles_def composed_def intro!: exI [of _ ticks])
qed

lemma handles_calm:
  assumes "list_all calm pre" "\<not> stopping (fst p)" "snd (process wake now (pre @ rest) p st) = Inr d"
  shows "\<exists>ticks. handles wake now pre (pre @ rest) p st ticks"
  using assms
proof (induction pre arbitrary: p st)
  case Nil
  then show ?case using handles_rest by simp
next
  case (Cons b pre)
  obtain s l where sl: "p = (s, l)" by (cases p)
  obtain es s' l' where p: "pump_or_end wake (quiet_round b) (s, l) = (es, s', l')" using prod_cases3 by blast
  have calm: "calm b" "\<not> b_stop b" and live: "\<not> stopping s" using Cons.prems(1,2) sl by (simp_all add: calm_def)
  note round = calm_round [OF calm(1) live p]
  show ?case
  proof (cases "handed es")
    case None
    then have "received (b_round b) = None" using round(2) by (auto split: option.splits)
    moreover obtain ticks where "handles wake now pre (pre @ rest) (s', l') st ticks"
      using Cons.IH [of "(s', l')" st] Cons.prems(1,3) round(1) p sl None by (auto simp: case_prod_beta)
    ultimately show ?thesis
      using p sl None by (intro exI [of _ ticks]) (simp add: handles_def case_prod_beta)
  next
    case (Some m)
    have got: "received (b_round b) = m" using round(2) Some by (auto split: option.splits)
    obtain ds st' where tick: "on_tick (tick_of b m) st = Inr (ds, st')"
      using Cons.prems(3) p sl Some calm(2) by (cases "on_tick (tick_of b m) st") (auto split: prod.splits)
    obtain gs s'' where g: "carry_out (b_acked b) ds s' = (gs, s'')" by (cases "carry_out (b_acked b) ds s'")
    have s'': "daemon_part gs = ds" "\<not> stopping s''"
      using carry_out_daemon [of "b_acked b" ds s'] carry_out_stopping [of "b_acked b" ds s'] g round(1) by simp_all
    obtain ticks where "handles wake now pre (pre @ rest) (s'', l') st' ticks"
      using Cons.IH [of "(s'', l')" st'] Cons.prems(1,3) s''(2) p sl Some calm(2) tick g by (auto simp: case_prod_beta)
    then show ?thesis
      using p sl Some calm(2) tick g s''(1) got
      by (intro exI [of _ "tick_of b m # ticks"])
         (auto simp: handles_def case_prod_beta tick_of_def split: option.splits)
  qed
qed

section \<open>What is durable at the end\<close>

lemma flushes_saved:
  assumes "flushes cfg gs es" "saved cfg w = Some k"
  shows "saved cfg (exec_effects es w) = Some (last_lsn k (concat gs))"
proof -
  have one: "saved cfg (exec_effects es w) = Some (end_lsn (last g))" if "flush_effs cfg g es" for g es w
    using that carry_out_safe(2) by (auto simp: flush_effs_def)
  have "saved cfg (exec_effects (concat ess) w) = Some (last_lsn k (concat gs))"
    if "list_all2 (flush_effs cfg) gs ess" "list_all (group_size_ok cfg) gs" "saved cfg w = Some k" for ess w k
    using that
  proof (induction gs ess arbitrary: w k rule: list_all2_induct)
    case Nil
    then show ?case by (simp add: last_lsn_def exec_effects_def)
  next
    case (Cons g gs es ess)
    have "last_lsn (end_lsn (last g)) (concat gs) = last_lsn k (concat (g # gs))"
      using Cons.prems(1) by (simp add: last_lsn_def group_size_ok_def)
    then show ?case using Cons.IH [OF _ one [OF Cons.hyps(1)]] Cons.prems(1) by (simp add: exec_effects_append)
  qed
  then show ?thesis using assms by (auto simp: flushes_def)
qed

text \<open>C14: A stop request stops the process gracefully. The beats after the one it arrives in do not matter: the process behaves as if they were not there. If it ends without an exception, everything the stream had received in the beats before the request was handled, at most one message more, and every transaction sealed by what was handled is flushed: the durable checkpoint is the end LSN of the last of them past the starting checkpoint.\<close>
theorem graceful_stop:
  assumes "list_all calm (take n bs)" "\<not> stopping s" "0 < batch_max_txns cfg" "saved cfg w = Some k"
    and "\<forall>m c. collect (take m (messages_of bs)) (nothing_collected cfg) = Inr c \<longrightarrow> sorted_wrt (<) (map end_lsn (c_sealed c))"
    and "run_process cfg k (s, l) now (stopped_at a n bs) = (tr, Inr d)"
  shows "run_process cfg k (s, l) now (take (Suc n) (stopped_at a n bs)) = (tr, Inr d) \<and>
    (\<exists>m c. length (messages_of (take n bs)) \<le> m \<and> m \<le> length (messages_of (take (Suc n) bs)) \<and>
       collect (take m (messages_of bs)) (nothing_collected cfg) = Inr c \<and>
       saved cfg (exec_effects (daemon_part tr) w) = Some (last_lsn k (fresh k (c_sealed c))) \<and>
       checkpoint_lsn d = last_lsn k (fresh k (c_sealed c)))"
proof -
  let ?cut = "take (Suc n) (stopped_at a n bs)"
  have run: "process (wake_of cfg) now ?cut (s, l) (start_state cfg k) = (tr, Inr d)"
    using assms(6) by (simp add: run_process_def stopped_soon [symmetric])
  let ?rest = "map (interrupt a) (take 1 (drop n bs))"
  have cut: "?cut = take n bs @ ?rest" by (rule stopped_at_take)
  have all: "take (Suc n) bs = take n bs @ take 1 (drop n bs)" using take_add [of n 1 bs] by simp
  have received: "messages_of ?cut = messages_of (take (Suc n) bs)"
    unfolding cut all by (simp add: interrupt_messages)
  have "snd (process (wake_of cfg) now (take n bs @ ?rest) (s, l) (start_state cfg k)) = Inr d"
    using run cut by simp
  from handles_calm [OF assms(1) _ this] assms(2) obtain ticks where
    "handles (wake_of cfg) now (take n bs) ?cut (s, l) (start_state cfg k) ticks"
    unfolding cut by auto
  then have loop: "run cfg (Row k) ticks = (daemon_part tr, Inr d)"
    and pre: "prefix (messages_of (take n bs)) (payloads ticks)"
    and post: "prefix (payloads ticks) (messages_of (take (Suc n) bs))"
    using run received by (simp_all add: handles_def prod_eq_iff run_def)
  let ?m = "length (payloads ticks)"
  have "prefix (payloads ticks) (messages_of bs)"
    using post append_take_drop_id [of "Suc n" bs] messages_of_simps(3) by (metis prefix_def append.assoc)
  then have take: "take m (payloads ticks) = take (min m ?m) (messages_of bs)" for m
    by (auto simp: prefix_def min_def)
  have sorted: "sorted_wrt (<) (map end_lsn (c_sealed c))"
    if "collect (take m (payloads ticks)) (nothing_collected cfg) = Inr c" for m c
    using assms(5) that unfolding take by blast
  have "\<exists>m c gs. collect (take m (payloads ticks)) (nothing_collected cfg) = Inr c \<and> flushes cfg gs (daemon_part tr) \<and>
      prefix (concat gs) (fresh k (c_sealed c)) \<and>
      (\<forall>e. (Inr d :: daemon res) = Inr e \<longrightarrow> ?m \<le> m \<and> concat gs = fresh k (c_sealed c) \<and> checkpoint_lsn e = last_lsn k (fresh k (c_sealed c)))"
    by (rule run_groups [OF loop assms(3)]) (rule sorted)
  then obtain m c gs where
    "collect (take m (payloads ticks)) (nothing_collected cfg) = Inr c" "?m \<le> m"
    and flushed: "flushes cfg gs (daemon_part tr)" "concat gs = fresh k (c_sealed c)" "checkpoint_lsn d = last_lsn k (fresh k (c_sealed c))"
    by blast
  then have "collect (take ?m (messages_of bs)) (nothing_collected cfg) = Inr c" using take [of m] by (simp add: min.absorb2)
  moreover have "saved cfg (exec_effects (daemon_part tr) w) = Some (last_lsn k (fresh k (c_sealed c)))"
    using flushes_saved [OF flushed(1) assms(4)] flushed(2) by simp
  moreover have "length (messages_of (take n bs)) \<le> ?m" "?m \<le> length (messages_of (take (Suc n) bs))"
    using pre post by (simp_all add: prefix_length_le)
  ultimately show ?thesis using run flushed(3) by (auto simp: run_process_def)
qed

end
