(* ===== verification/ProcessScenario.thy ===== *)
theory ProcessScenario
  imports Stopping Scenario
begin

text \<open>
  The running process on a small stream: the six messages of two transactions arrive one per beat,
  then a wake flushes nothing more and the process stops.
\<close>

definition demo_round :: "message \<Rightarrow> round" where
  "demo_round m = (idle_round 0)\<lparr>received := Some (0, encode_message m)\<rparr>"

definition demo_beats :: "beat list" where
  "demo_beats =
     map (\<lambda>m. \<lparr>b_round = demo_round m, b_stop = False, b_sealed = 0, b_checked = 1 / 10, b_acked = 1 / 10\<rparr>) demo_messages @
     [\<lparr>b_round = idle_round 11, b_stop = False, b_sealed = 11, b_checked = 11, b_acked = 11\<rparr>]"

theorem reports_never_ahead_witness:
  "\<exists>us vs k. fst (run_process demo_cfg 0 (fresh_stream, 0) 12 demo_beats) = us @ FromStream (SendFeedback 20) # vs \<and>
     saved demo_cfg (exec_effects (daemon_part us) demo_world) = Some k \<and> 20 \<le> k"
proof -
  let ?tr = "fst (run_process demo_cfg 0 (fresh_stream, 0) 12 demo_beats)"
  have "list_ex (\<lambda>e. case e of FromStream (SendFeedback l) \<Rightarrow> l = 20 | _ \<Rightarrow> False) ?tr" by code_simp
  then have "FromStream (SendFeedback 20) \<in> set ?tr"
    unfolding list_ex_iff by (elim bexE) (auto split: process_effect.split_asm stream_effect.split_asm)
  then obtain us vs where tr: "?tr = us @ FromStream (SendFeedback 20) # vs" by (meson split_list)
  have "saved demo_cfg demo_world = Some 0" "flush_lsn fresh_stream \<le> 0"
    by (simp_all add: saved_def demo_world_def Let_def fresh_stream_def)
  from reports_never_ahead [OF this tr] tr show ?thesis by blast
qed

definition demo_life :: "nat \<Rightarrow> life" where
  "demo_life n = \<lparr>opened = (fresh_stream, 0), ended_at = 12, lived = demo_beats, moment = n\<rparr>"

lemma demo_received: "messages_of (lived (demo_life n)) = payloads demo_ticks"
  unfolding demo_payloads
  by (simp add: demo_life_def demo_beats_def demo_round_def idle_round_def demo_messages_def)

lemma demo_fed: "sends demo_cfg demo_history conf (messages_of (lived (demo_life n)))"
  using demo_delivers [of conf] by (simp add: delivers_sends demo_received)

text \<open>A life cut after its ninth effect, then one that runs to its end.\<close>

lemma demo_lives_consistent:
  "\<exists>m \<ge> 0. consistent demo_cfg (\<lambda>_. {#}) demo_history m (fold (live demo_cfg) [demo_life 9, demo_life 100] demo_world)"
proof -
  have "well_fed demo_cfg demo_history demo_world [demo_life 9, demo_life 100]" by (simp add: demo_fed)
  from process_exactly_once [OF demo_usable demo_history_ok demo_consistent this] show ?thesis .
qed

lemma demo_sorted:
  assumes "collect (take m (messages_of (lived (demo_life n)))) (nothing_collected demo_cfg) = Inr c"
  shows "sorted_wrt (<) (map end_lsn (c_sealed c))"
  using collect_take [OF demo_collect assms [unfolded demo_received]]
  by (auto simp: demo_sealed demo_history_def prefix_Cons)

text \<open>A request that arrives while the fifth beat, within the second transaction, is in its \<open>select\<close>.\<close>

theorem graceful_stop_witness:
  "\<exists>tr d. run_process demo_cfg 0 (fresh_stream, 0) 12 (take 5 (stopped_at BeforeCheck 4 demo_beats)) = (tr, Inr d) \<and>
     saved demo_cfg (exec_effects (daemon_part tr) demo_world) = Some (checkpoint_lsn d)"
proof -
  let ?run = "run_process demo_cfg 0 (fresh_stream, 0) 12 (stopped_at BeforeCheck 4 demo_beats)"
  have "\<not> isl (snd ?run)" by code_simp
  then obtain d where run: "?run = (fst ?run, Inr d)" by (cases "snd ?run") (auto simp: prod_eq_iff)
  have calm: "list_all calm (take 4 demo_beats)" by code_simp
  have sorted: "\<forall>m c. collect (take m (messages_of demo_beats)) (nothing_collected demo_cfg) = Inr c \<longrightarrow>
      sorted_wrt (<) (map end_lsn (c_sealed c))"
    using demo_sorted [where n = 0] by (simp add: demo_life_def)
  have "saved demo_cfg demo_world = Some 0" by (simp add: saved_def demo_world_def Let_def)
  from graceful_stop [OF calm _ _ this sorted run] have "run_process demo_cfg 0 (fresh_stream, 0) 12 (take 5 (stopped_at BeforeCheck 4 demo_beats)) = (fst ?run, Inr d) \<and>
      saved demo_cfg (exec_effects (daemon_part (fst ?run)) demo_world) = Some (checkpoint_lsn d)"
    by (simp add: fresh_stream_def) metis
  then show ?thesis by blast
qed

end
