(* ===== verification/CliScenario.thy ===== *)
theory CliScenario
  imports SetupScenario VerifyMain Cli ProcessScenario
begin

text \<open>
  The command line and the verifier, evaluated against servers in a given condition.
\<close>

section \<open>Status and run\<close>

definition demo_condition :: condition where
  "demo_condition = \<lparr>a_slot = Some (True, ''0/10'', ''0/14'', 6), a_lsn = ''0/1A'',
     a_checkpoint = Inr (Some 20), a_counts = \<lambda>_. Inr 1\<rparr>"

definition demo_calls :: "call server" where
  "demo_calls h c =
     (if c = slot_status_query ''walflux'' then Rows [[PBool True, PStr ''0/10'', PStr ''0/14'', PInt 6]] 1
      else if c = current_query then Rows [[PStr ''0/1A'']] 1
      else if c = checkpoint_query ''walflux'' then Rows [[PInt 20]] 1
      else if c = Open \<or> c = Rollback then Rows [] 0
      else Rows [[PInt 1]] 1)"

lemma demo_calls_simps [simp]:
  "demo_calls h Open = Rows [] 0" "demo_calls h Rollback = Rows [] 0"
  "demo_calls h (checkpoint_query ''walflux'') = Rows [[PInt 20]] 1"
  by (simp_all add: demo_calls_def slot_status_query_def current_query_def checkpoint_query_def)

lemma demo_answers: "answers demo_condition demo_cfg demo_calls"
  by (simp add: answers_def demo_condition_def demo_calls_def)
     (simp add: slot_status_query_def current_query_def checkpoint_query_def count_of_def)


definition demo_launch :: launch where
  "demo_launch = \<lparr>dialled = Connected, start_failed = None, opened_at = 0, entered_at = 0, beats_of = demo_beats, over_at = 12\<rparr>"

theorem run_closes_all_witness:
  "\<exists>tr r es. fst (run_daemon demo_calls demo_cfg demo_launch []) = Inr (tr, r) \<and>
     stream_part tr = StartReplication ''walflux'' ''walflux'' # es @ [CloseCursor, CloseConnection] \<and> list_all running_effect es"
proof -
  have op: "\<not> isl (error_of (demo_calls [] Open))" by simp
  have ck: "checkpoint_of (Rows [[PInt 20]] 1) = Some (Row 20)" by (simp add: checkpoint_of_def fetch_one_def row_cell_def)
  obtain tr r where life: "stream_life demo_cfg 20 demo_launch = Inr (tr, r)"
    by (cases "stream_life demo_cfg 20 demo_launch") (auto simp: stream_life_cases demo_launch_def connect_def split: prod.splits)
  note closes = run_closes_all [where sv = demo_calls and cfg = demo_cfg and x = demo_launch and h = "[]" and tr = tr and r = r,
      OF op refl refl refl]
  have "fst (run_daemon demo_calls demo_cfg demo_launch []) = Inr (tr, r)"
    using conjunct1 [OF conjunct2 [OF closes]] life by (simp add: ck)
  then show ?thesis using conjunct2 [OF conjunct2 [OF closes]] by (auto simp: demo_cfg_def)
qed

definition fresh_calls :: "call server" where
  "fresh_calls h c =
     (if c = checkpoint_query ''walflux'' then Rows [[PInt 0]] 1 else if c = Open \<or> c = Rollback then Rows [] 0 else demo_calls h c)"

definition demo_stay :: "nat \<Rightarrow> call server \<Rightarrow> stay" where
  "demo_stay n sv = \<lparr>server_of = sv, launch_of = demo_launch, cut_after = n\<rparr>"

text \<open>A run cut after its tenth effect, then one whose server cannot be reached.\<close>

theorem daemon_exactly_once_witness:
  "\<exists>m \<ge> 0. consistent demo_cfg (\<lambda>_. {#}) demo_history m
     (fold (run_cut demo_cfg) [demo_stay 10 fresh_calls, demo_stay 10 (\<lambda>_ _. Refuses ''down'')] demo_world)"
proof -
  have "honest demo_cfg fresh_calls demo_world"
    by (auto simp: honest_def fresh_calls_def saved_def demo_world_def Let_def)
  moreover have "honest demo_cfg (\<lambda>_ _. Refuses ''down'') w" for w by (simp add: honest_def)
  moreover have "messages_of (beats_of demo_launch) = messages_of (lived (demo_life 0))" by (simp add: demo_launch_def demo_life_def)
  ultimately have "accepted demo_cfg demo_history demo_world [demo_stay 10 fresh_calls, demo_stay 10 (\<lambda>_ _. Refuses ''down'')]"
    using demo_fed [where n = 0] by (simp add: demo_stay_def)
  from daemon_exactly_once [OF demo_usable demo_history_ok demo_consistent this] show ?thesis .
qed

definition demo_machine :: machine where
  "demo_machine = \<lparr>config_file = (\<lambda>p. if p = ''w.yaml'' then Parsed demo_doc else FileNotFound), dsn_variable = None,
     setup_server = demo_server, query_server = demo_calls, daemon_launch = demo_launch\<rparr>"

lemma bad_config_demo:
  "exit_code (main demo_machine (RunArgs ''x.yaml'')) = Inr 1 \<and> asked (main demo_machine (RunArgs ''x.yaml'')) = []"
proof -
  have "config_of demo_machine (config_path (RunArgs ''x.yaml'')) = Inl (ConfigError ''config file not found'')"
    by (simp add: config_of_def demo_machine_def load_config_def read_document_def)
  from bad_config_is_harmless [OF this] show ?thesis by simp
qed

lemma demo_exit_codes:
  "exit_code (main demo_machine (SetupArgs ''w.yaml'' False)) = Inr 0"
  "exit_code (main demo_machine (StatusArgs ''w.yaml'')) = Inr 0"
  "exit_code (main demo_machine (TeardownArgs ''w.yaml'' False)) = Inr 2"
  by code_simp+

section \<open>The verifier\<close>

definition demo_source :: "row list" where
  "demo_source = [demo_row ''a'' (PDec (Fin 125 (- 2))), demo_row ''a'' PNone]"

definition demo_table :: table where
  "demo_table = backfill_table demo_view demo_source []"

definition demo_gt :: string where "demo_gt = projr (ground_truth_sql demo_view)"
definition demo_tt :: string where "demo_tt = projr (target_sql demo_view)"

lemma demo_texts: "ground_truth_sql demo_view = Inr demo_gt" "target_sql demo_view = Inr demo_tt"
proof -
  have "\<not> isl (ground_truth_sql demo_view)" "\<not> isl (target_sql demo_view)" by code_simp+
  then show "ground_truth_sql demo_view = Inr demo_gt" "target_sql demo_view = Inr demo_tt"
    by (simp_all add: demo_gt_def demo_tt_def)
qed

text \<open>The driver may return the count as an int and the sum at another scale.\<close>

definition demo_probe :: "probe server" where
  "demo_probe h c =
     (if c = Inquire demo_gt [] then Rows [[PStr ''a'', PInt 2, PDec (Fin 1250 (- 3))]] 1
      else if c = Inquire demo_tt [] then Rows [[PStr ''a'', PInt 2, PDec (Fin 125 (- 2))]] 1
      else if c = position_query then Rows [[PStr ''0/1A'']] 1
      else if c = regclass_query then Rows [[PStr ''walflux.checkpoint'']] 1
      else if c = saved_query ''walflux'' then Rows [[PInt 26]] 1
      else Rows [[PInt 0]] 1)"

lemma demo_query_rows:
  "query_rows (truth_query demo_view) demo_source = [[Some (KStr ''a''), Some (KNum 2), Some (KNum (5 / 4))]]"
  "map (target_select demo_view) demo_table = [[Some (KStr ''a''), Some (KNum 2), Some (KNum (5 / 4))]]"
  by code_simp+

lemma demo_shows:
  "row_shows demo_view [Some (KStr ''a''), Some (KNum 2), Some (KNum (5 / 4))] [PStr ''a'', PInt 2, PDec (Fin 1250 (- 3))]"
  "row_shows demo_view [Some (KStr ''a''), Some (KNum 2), Some (KNum (5 / 4))] [PStr ''a'', PInt 2, PDec (Fin 125 (- 2))]"
  by (simp_all add: row_shows_def demo_view_def shows_cell_def power_int_minus)

lemma demo_holds: "table_holds demo_view demo_table (mset demo_source)"
proof -
  obtain ss where "view_storage demo_view = Inr ss"
    by (cases "view_storage demo_view") (simp_all add: demo_view_def view_storage_def agg_storage_def, code_simp)
  then show ?thesis unfolding demo_table_def by (rule backfill_holds)
qed

lemma demo_storage: "\<exists>ss. view_storage demo_view = Inr ss"
proof -
  have "\<not> isl (view_storage demo_view)" by code_simp
  then show ?thesis by (cases "view_storage demo_view") auto
qed

lemma demo_probe_simps [simp]:
  "demo_probe h (Inquire demo_gt []) = Rows [[PStr ''a'', PInt 2, PDec (Fin 1250 (- 3))]] 1"
  "demo_probe h (Inquire demo_tt []) = Rows [[PStr ''a'', PInt 2, PDec (Fin 125 (- 2))]] 1"
  "demo_probe h (dead_query q) = Rows [[PInt 0]] 1"
proof -
  have "demo_gt \<noteq> demo_tt" "take 8 demo_gt \<noteq> ''SELECT c''" "take 8 demo_tt \<noteq> ''SELECT c''" by code_simp+
  note texts = this
  have other: "dead_query q \<noteq> Inquire t []" if "take 8 t \<noteq> ''SELECT c''" for t
  proof
    assume "dead_query q = Inquire t []"
    then have "t = ''SELECT count(*) FROM walflux.'' @ q @ '' WHERE __walflux_rows <= 0''" by (simp add: dead_query_def)
    then show False using that by simp
  qed
  show "demo_probe h (Inquire demo_gt []) = Rows [[PStr ''a'', PInt 2, PDec (Fin 1250 (- 3))]] 1"
    "demo_probe h (Inquire demo_tt []) = Rows [[PStr ''a'', PInt 2, PDec (Fin 125 (- 2))]] 1"
    using texts(1) by (simp_all add: demo_probe_def)
  show "demo_probe h (dead_query q) = Rows [[PInt 0]] 1"
    using other [OF texts(2)] other [OF texts(3)]
    by (simp add: demo_probe_def) (simp add: dead_query_def position_query_def regclass_query_def saved_query_def)
qed

lemma demo_answers_view: "answers_view demo_view demo_source demo_table demo_probe"
proof -
  have one: "returns demo_view [c] [r]" if "row_shows demo_view c r" for c r
    unfolding returns_def using that by (intro exI [of _ "[r]"]) simp
  obtain q where q: "quote_ident (view_name demo_view) = Inr q"
  proof -
    have "\<not> isl (quote_ident (view_name demo_view))" by code_simp
    then show ?thesis using that by (cases "quote_ident (view_name demo_view)") auto
  qed
  have "filter (\<lambda>r. cell_le0 (r rows_column)) demo_table = []"
    using no_dead_groups [OF _ demo_holds demo_group] by (simp add: demo_cols)
  then show ?thesis
    using one [OF demo_shows(1)] one [OF demo_shows(2)] q
    by (simp add: answers_view_def demo_texts demo_query_rows)
qed


theorem mismatches_exact_witness:
  "agrees demo_view [([PStr ''a''], [PInt 2, PDec (Fin 1250 (- 3))])] [([PStr ''a''], [PInt 2, PDec (Fin 125 (- 2))])]"
proof -
  let ?c = "compare_all demo_view [([PStr ''a''], [PInt 2, PDec (Fin 1250 (- 3))])] [([PStr ''a''], [PInt 2, PDec (Fin 125 (- 2))])]"
  have "\<not> isl ?c \<and> snd (projr ?c) = 0" by code_simp
  then obtain t where "?c = Inr (t, 0)" by (cases ?c) auto
  from mismatches_exact [OF this] show ?thesis by simp
qed


lemma demo_counts: "counts_ok demo_probe"
  by (simp add: counts_ok_def fetch_cell_def row_cell_def)


end
