(* ===== verification/Argv.thy ===== *)
theory Argv
  imports Cli "HOL-Library.Sublist"
begin

text \<open>
  The command line (\<open>cli.py\<close>: \<open>_build_parser\<close>, \<open>main\<close>; \<open>__main__.py\<close>): what \<open>argparse\<close> makes of
  the arguments with this program's options, and the program on its arguments.

  Two things are parameters: which texts \<open>argparse\<close> takes for negative numbers, and its result when
  an argument is \<open>odd\<close>, one of the few whose treatment differs between releases of CPython.
\<close>

section \<open>The options\<close>

datatype action = HelpAction | VersionAction | ConfigAction | SwitchAction

type_synonym options = "(string \<times> action) list"

definition version :: string where "version = ''0.1.0''"

definition main_options :: options where
  "main_options = [(''-h'', HelpAction), (''--help'', HelpAction), (''--version'', VersionAction)]"

text \<open>What every subcommand has, and the switch of \<open>setup\<close> and of \<open>teardown\<close>.\<close>

definition common_options :: options where
  "common_options = [(''-h'', HelpAction), (''--help'', HelpAction), (''-c'', ConfigAction), (''--config'', ConfigAction)]"

definition command_options :: "string \<Rightarrow> options option" where
  "command_options name =
     (if name = ''setup'' then Some (common_options @ [(''--force'', SwitchAction)])
      else if name = ''run'' then Some common_options
      else if name = ''status'' then Some common_options
      else if name = ''teardown'' then Some (common_options @ [(''--yes'', SwitchAction)])
      else None)"

section \<open>One argument\<close>

datatype seen = Plain | Unknown | Option action "string option"

text \<open>\<open>text.split("=", 1)\<close>, when there is one.\<close>

definition cut_equals :: "string \<Rightarrow> (string \<times> string) option" where
  "cut_equals a =
     (if CHR ''='' \<in> set a
      then Some (takeWhile (\<lambda>c. c \<noteq> CHR ''='') a, tl (dropWhile (\<lambda>c. c \<noteq> CHR ''='') a)) else None)"

text \<open>The options an argument may abbreviate, with the value attached to it.\<close>

definition abbreviated :: "options \<Rightarrow> string \<Rightarrow> (action \<times> string option) list" where
  "abbreviated os a =
     (if prefix ''--'' a
      then (case cut_equals a of
              None \<Rightarrow> map (\<lambda>(name, x). (x, None)) (filter (\<lambda>(name, x). prefix a name) os)
            | Some (stem, value) \<Rightarrow> map (\<lambda>(name, x). (x, Some value)) (filter (\<lambda>(name, x). prefix stem name) os))
      else List.map_filter (\<lambda>(name, x).
             if name = take 2 a then Some (x, Some (drop 2 a)) else if prefix a name then Some (x, None) else None) os)"

text \<open>No argument abbreviates two options, unless it is \<open>odd\<close>.\<close>

definition classify :: "(string \<Rightarrow> bool) \<Rightarrow> options \<Rightarrow> string \<Rightarrow> seen" where
  "classify negative os a =
     (if \<not> prefix ''-'' a then Plain
      else case map_of os a of
        Some x \<Rightarrow> Option x None
      | None \<Rightarrow>
          if length a = 1 then Plain
          else case Option.bind (cut_equals a) (\<lambda>(stem, value). map_option (\<lambda>x. (x, value)) (map_of os stem)) of
            Some (x, value) \<Rightarrow> Option x (Some value)
          | None \<Rightarrow>
              (case abbreviated os a of
                 [(x, value)] \<Rightarrow> Option x value
               | _ \<Rightarrow> if negative a \<or> CHR '' '' \<in> set a then Plain else Unknown))"

text \<open>\<open>--\<close>, abbreviations of nothing, and letters after \<open>-h\<close>.\<close>

definition odd_argument :: "string \<Rightarrow> bool" where
  "odd_argument a \<longleftrightarrow> a = ''--'' \<or> prefix ''--='' a \<or> prefix ''-h'' a \<and> 2 < length a"

lemma abbreviated_unique:
  assumes "os = main_options \<or> command_options n = Some os" "\<not> odd_argument a" "a \<noteq> ''-''" "prefix ''-'' a"
  shows "length (abbreviated os a) \<le> 1"
proof (cases "prefix ''--'' a")
  case True
  then obtain s where a: "a = ''--'' @ s" by (auto simp: prefix_def)
  then obtain c t where s: "s = c # t" "c \<noteq> CHR ''=''" using assms(2) by (cases s) (auto simp: odd_argument_def)
  show ?thesis
    using assms(1)
    by (auto simp: abbreviated_def cut_equals_def a s command_options_def main_options_def common_options_def
        split: option.split if_splits)
next
  case False
  then obtain c t where "a = CHR ''-'' # c # t" "c \<noteq> CHR ''-''"
    using assms(3,4) by (cases a; cases "tl a") (auto simp: prefix_def)
  then show ?thesis
    using assms(1)
    by (auto simp: abbreviated_def command_options_def main_options_def common_options_def List.map_filter_def
        split: if_splits)
qed

section \<open>The arguments\<close>

datatype parsed = UsageError | HelpShown | VersionShown | Handles args

definition command_args :: "string \<Rightarrow> string \<Rightarrow> bool \<Rightarrow> args" where
  "command_args name path switch =
     (if name = ''setup'' then SetupArgs path switch
      else if name = ''run'' then RunArgs path
      else if name = ''status'' then StatusArgs path
      else TeardownArgs path switch)"

text \<open>
  A subcommand's own arguments: the path so far, the switch, and whether something was not
  recognized, which is an error only at the end.
\<close>

fun parse_command ::
    "(string \<Rightarrow> bool) \<Rightarrow> string \<Rightarrow> options \<Rightarrow> string option \<Rightarrow> bool \<Rightarrow> bool \<Rightarrow> string list \<Rightarrow> parsed" where
  "parse_command negative name os path switch extras [] =
     (case path of None \<Rightarrow> UsageError | Some p \<Rightarrow> if extras then UsageError else Handles (command_args name p switch))"
| "parse_command negative name os path switch extras (a # as) =
     (case classify negative os a of
        Option ConfigAction (Some p) \<Rightarrow> parse_command negative name os (Some p) switch extras as
      | Option ConfigAction None \<Rightarrow>
          (case as of
             [] \<Rightarrow> UsageError
           | p # bs \<Rightarrow>
               if classify negative os p = Plain then parse_command negative name os (Some p) switch extras bs else UsageError)
      | Option SwitchAction None \<Rightarrow> parse_command negative name os path True extras as
      | Option HelpAction None \<Rightarrow> HelpShown
      | Option _ _ \<Rightarrow> UsageError
      | _ \<Rightarrow> parse_command negative name os path switch True as)"

fun parse_main :: "(string \<Rightarrow> bool) \<Rightarrow> bool \<Rightarrow> string list \<Rightarrow> parsed" where
  "parse_main negative extras [] = UsageError"
| "parse_main negative extras (a # as) =
     (case classify negative main_options a of
        Plain \<Rightarrow>
          (case command_options a of
             None \<Rightarrow> UsageError
           | Some os \<Rightarrow> parse_command negative a os None False extras as)
      | Unknown \<Rightarrow> parse_main negative True as
      | Option HelpAction None \<Rightarrow> HelpShown
      | Option VersionAction None \<Rightarrow> VersionShown
      | Option _ _ \<Rightarrow> UsageError)"

definition parse_args :: "(string \<Rightarrow> bool) \<Rightarrow> (string list \<Rightarrow> parsed) \<Rightarrow> string list \<Rightarrow> parsed" where
  "parse_args negative on_odd argv = (if list_ex odd_argument argv then on_odd argv else parse_main negative False argv)"

section \<open>The program\<close>

text \<open>The texts of \<open>argparse\<close>'s help and usage errors are its own.\<close>

definition program :: "(string \<Rightarrow> bool) \<Rightarrow> (string list \<Rightarrow> parsed) \<Rightarrow> machine \<Rightarrow> string list \<Rightarrow> outcome" where
  "program negative on_odd m argv =
     (case parse_args negative on_odd argv of
        UsageError \<Rightarrow> nothing_done (Inr 2)
      | HelpShown \<Rightarrow> nothing_done (Inr 0)
      | VersionShown \<Rightarrow> (nothing_done (Inr 0))\<lparr>printed := [Out (''walflux '' @ version)]\<rparr>
      | Handles a \<Rightarrow> main m a)"

text \<open>\<open>sys.exit(main())\<close>: the status of the process, 1 when an exception escapes.\<close>

definition exit_status :: "outcome \<Rightarrow> int" where
  "exit_status out = (case exit_code out of Inr n \<Rightarrow> n | Inl _ \<Rightarrow> 1)"

section \<open>What the parser reads\<close>

fun command_name :: "args \<Rightarrow> string" where
  "command_name (SetupArgs _ _) = ''setup''"
| "command_name (RunArgs _) = ''run''"
| "command_name (StatusArgs _) = ''status''"
| "command_name (TeardownArgs _ _) = ''teardown''"

fun switches :: "args \<Rightarrow> string list" where
  "switches (SetupArgs _ f) = (if f then [''--force''] else [])"
| "switches (TeardownArgs _ y) = (if y then [''--yes''] else [])"
| "switches _ = []"

lemma classify_long: "classify negative os (''--config='' @ p) = Option ConfigAction (Some p)"
  if "map_of os (''--config='' @ p) = None" "map_of os ''--config'' = Some ConfigAction"
  using that by (simp add: classify_def cut_equals_def)

lemma classify_plain: "\<not> prefix ''-'' p \<Longrightarrow> classify negative os p = Plain"
  by (simp add: classify_def)

lemma classify_exact: "prefix ''-'' a \<Longrightarrow> map_of os a = Some x \<Longrightarrow> classify negative os a = Option x None"
  by (simp add: classify_def)

lemma command_tables:
  "command_options (command_name a) = Some (common_options @ map (\<lambda>n. (n, SwitchAction))
     (case a of SetupArgs _ _ \<Rightarrow> [''--force''] | TeardownArgs _ _ \<Rightarrow> [''--yes''] | _ \<Rightarrow> []))"
  by (cases a) (simp_all add: command_options_def)

text \<open>Options that no printed argument but the intended one names.\<close>

lemma parse_switches:
  assumes "command_options (command_name a) = Some os"
  shows "parse_command negative (command_name a) os (Some (config_path a)) False False (switches a) = Handles a"
  using assms by (cases a) (auto simp: command_options_def common_options_def command_args_def classify_exact)

lemma config_options:
  assumes "command_options (command_name a) = Some os"
  shows "map_of os ''-c'' = Some ConfigAction" "map_of os ''--config'' = Some ConfigAction"
    "map_of os (''--config='' @ p) = None"
  using assms by (cases a; auto simp: command_options_def common_options_def)+

lemma switches_not_odd: "list_ex odd_argument (switches a) = False" "odd_argument (command_name a) = False"
  by (cases a; simp add: odd_argument_def)+

lemma names_plain: "classify negative main_options (command_name a) = Plain"
  by (cases a) (simp_all add: classify_plain)

text \<open>C37: What is typed is what is read: for every command, every path, blank, dash or equals sign in it or not, and its switch, the arguments that spell them with --config=PATH are parsed to exactly these, and so are those with -c PATH when the path does not begin with a dash.\<close>
theorem args_roundtrip:
  "parse_args negative on_odd (command_name a # (''--config='' @ config_path a) # switches a) = Handles a \<and>
   (if prefix ''-'' (config_path a) then True
    else parse_args negative on_odd (command_name a # ''-c'' # config_path a # switches a) = Handles a)"
proof -
  obtain os where os: "command_options (command_name a) = Some os" using command_tables by blast
  note opts = config_options [OF os] and done' = parse_switches [OF os]
  have "\<not> odd_argument (''--config='' @ config_path a)" "\<not> odd_argument ''-c''" by (simp_all add: odd_argument_def)
  moreover have "\<not> odd_argument p" if "\<not> prefix ''-'' p" for p using that by (auto simp: odd_argument_def prefix_def)
  moreover have "classify negative os ''-c'' = Option ConfigAction None" using opts(1) by (simp add: classify_exact)
  ultimately show ?thesis
    using os opts done'
    by (simp add: parse_args_def switches_not_odd names_plain classify_long classify_plain del: append_Cons)
qed

section \<open>How the program ends\<close>

text \<open>C36: The exit status of the program is 0, 1 or 2. It is 2 exactly for a usage error or a teardown without --yes, and then no connection was opened and nothing streamed. No WalfluxError escapes: the exit code is 1 exactly when one ended the command, and it is then all that is printed; another exception escapes with nothing printed before it.\<close>
theorem program_exits:
  "exit_status (program negative on_odd m argv) \<in> {0, 1, 2} \<and>
   (exit_status (program negative on_odd m argv) = 2 \<longleftrightarrow>
      parse_args negative on_odd argv = UsageError \<or> (\<exists>p. parse_args negative on_odd argv = Handles (TeardownArgs p False))) \<and>
   (if exit_status (program negative on_odd m argv) = 2
    then told (program negative on_odd m argv) = [] \<and> asked (program negative on_odd m argv) = [] \<and>
      effects (program negative on_odd m argv) = [] else True) \<and>
   (case exit_code (program negative on_odd m argv) of
      Inl e \<Rightarrow> \<not> is_walflux_error e \<and> printed (program negative on_odd m argv) = []
    | Inr n \<Rightarrow> n = 1 \<longleftrightarrow> (\<exists>a e. parse_args negative on_odd argv = Handles a \<and> is_walflux_error e \<and>
        exit_code (handler m a) = Inl e \<and> printed (program negative on_odd m argv) = [ErrorLine e]))"
proof (cases "parse_args negative on_odd argv")
  case (Handles a)
  have quiet: "told (main m (TeardownArgs p False)) = [] \<and> asked (main m (TeardownArgs p False)) = [] \<and>
      effects (main m (TeardownArgs p False)) = []" for p
    by (simp add: main_def cmd_defs)
  have out: "program negative on_odd m argv = main m a" using Handles by (simp add: program_def)
  show ?thesis
  proof (cases "exit_code (main m a)")
    case (Inl e)
    then show ?thesis using main_exits [of m a] by (auto simp: out exit_status_def Handles cmd_defs main_def)
  next
    case (Inr n)
    then show ?thesis
      using main_exits [of m a "[]"] quiet by (auto simp: out exit_status_def Handles)
  qed
qed (simp_all add: program_def nothing_done_def exit_status_def)

end
