(* ===== verification/Reports.thy ===== *)
theory Reports
  imports Target PyText
begin

text \<open>
  What the daemon logs (\<open>daemon.py\<close>): the line of a flush with its count of upserts, the lines
  around the loop, and the logger they go to.

  Characters outside ASCII are neither blanks nor letters here; a statement of a batch begins with
  a keyword.
\<close>

section \<open>The line of a flush\<close>

definition upper :: "string \<Rightarrow> string" where
  "upper s = map (\<lambda>c. let n = (of_char c :: int) in if 97 \<le> n \<and> n \<le> 122 then char_of (n - 32) else c) s"

definition counts_as_upsert :: "string \<Rightarrow> bool" where
  "counts_as_upsert sql \<longleftrightarrow> take 6 (upper (dropWhile is_blank sql)) = ''INSERT''"

definition upserts :: "(string \<times> pyval list) list \<Rightarrow> nat" where
  "upserts sts = length (filter (\<lambda>(sql, params). counts_as_upsert sql) sts)"

text \<open>\<open>int((now - started) * 1000)\<close>, the readings of the clock being exact.\<close>

definition millis :: "rat \<Rightarrow> rat \<Rightarrow> int" where
  "millis started now = (let (n, d) = quotient_of ((now - started) * 1000) in truncate_frac n d)"

definition flush_line :: "nat \<Rightarrow> (string \<times> pyval list) list \<Rightarrow> int \<Rightarrow> rat \<Rightarrow> rat \<Rightarrow> string" where
  "flush_line txns sts end_lsn started now =
     ''flushed '' @ int_text 10 (int txns) @ '' txn(s), '' @ int_text 10 (int (upserts sts)) @ '' group upsert(s), end LSN '' @
     format_lsn end_lsn @ '', '' @ int_text 10 (millis started now) @ '' ms''"

fun is_upsert :: "stmt \<Rightarrow> bool" where
  "is_upsert (Upsert _ _ _ _ _) = True"
| "is_upsert _ = False"

lemma render_counts: "render s = Inr (sql, params) \<Longrightarrow> counts_as_upsert sql = is_upsert s"
  by (cases s) (auto simp: counts_as_upsert_def upper_def is_blank_def upsert_text_def bindE_eq_Inr)

lemma upserts_counted: "mapE render ss = Inr sts \<Longrightarrow> upserts sts = length (filter is_upsert ss)"
  by (induction ss arbitrary: sts) (auto simp: upserts_def bindE_eq_Inr render_counts case_prod_beta)

text \<open>The line counts the groups the batch touched, the deletes of truncated and emptied ones not.\<close>

lemma flush_line_counts:
  assumes "batch_ok b" "statements b = Inr sts"
  shows "upserts sts = (\<Sum>v \<leftarrow> views_of b. length (groups_in b (view_name v)))"
proof -
  have counted: "upserts sts = length (filter is_upsert (stmts b))"
    using assms upserts_counted by (simp add: statements_text)
  have groups: "filter is_upsert (map (\<lambda>(key, ds). upsert_of v key ds) gs) = map (\<lambda>(key, ds). upsert_of v key ds) gs" for v gs
    by (induction gs) (auto simp: upsert_of_def)
  have none: "filter is_upsert (map (DeleteAll \<circ> f) vs) = []" "filter is_upsert (map (Cleanup \<circ> f) vs) = []" for f vs
    by (induction vs) auto
  show ?thesis
    by (simp add: counted stmts_def none filter_concat o_def groups length_concat)
qed

section \<open>The lines around the loop\<close>

definition streaming_line :: "string \<Rightarrow> int \<Rightarrow> string" where
  "streaming_line slot_name lsn = ''streaming from slot '' @ py_repr slot_name @ '', checkpoint '' @ format_lsn lsn"

definition stopped_line :: "int \<Rightarrow> string" where
  "stopped_line lsn = ''stopped cleanly at checkpoint '' @ format_lsn lsn"

section \<open>The logger\<close>

datatype log_handler = Stderr string | Foreign

record logger =
  handlers :: "log_handler list"
  info_level :: bool

definition configure_logging :: "logger \<Rightarrow> logger" where
  "configure_logging lg =
     (let handled = (if handlers lg = []
          then lg\<lparr>handlers := handlers lg @ [Stderr ''%(asctime)s %(levelname)s %(name)s %(message)s'']\<rparr> else lg)
      in handled\<lparr>info_level := True\<rparr>)"

lemma configure_once:
  "configure_logging (configure_logging lg) = configure_logging lg"
  "handlers (configure_logging lg) \<noteq> []"
  by (auto simp: configure_logging_def Let_def)

end
